(* ===== verification/Prelude.thy ===== *)
theory Prelude
  imports Main "HOL-Library.Word" "HOL-Library.Char_ord" "HOL-Library.List_Lexorder"
begin

text \<open>
  What every component shares: the names of the model's basic types, the fact collections, the
  outcome of C++ code that can throw or run into undefined behaviour, and the parts of the C
  library the sources call on numbers: \<open>printf\<close> of \<open>%u\<close>/\<open>%ld\<close>,
  \<open>atoi\<close> and \<open>atol\<close>.

  A C string is a \<open>string\<close> that holds no NUL: \<open>strlen\<close> is its length,
  \<open>strcmp (a, b) == 0\<close> is equality and \<open>strcmp (a, b) < 0\<close> is the lexicographic
  order on bytes. Buffers that are modified in place live in \<open>CStrings\<close>.
\<close>

section \<open>Types and collections\<close>

type_synonym cstring = string
type_synonym u32 = "32 word"

text \<open>
  The result of a call: it returns, throws, blocks for ever on a condition variable nobody
  signals, or executes undefined behaviour (a null dereference, a write out of bounds).
\<close>

datatype ('e, 'a) outcome = Ret 'a | Throw 'e | Blocked | Undefined

named_theorems wire_simps "definitions of the HTTP layer"
named_theorems store_simps "definitions of the data stores"
named_theorems handler_simps "definitions of the request handlers"

abbreviation NUL :: char where
  "NUL \<equiv> CHR 0x00"

abbreviation CR :: char where
  "CR \<equiv> CHR 0x0D"

abbreviation LF :: char where
  "LF \<equiv> CHR 0x0A"

abbreviation SPC :: char where
  "SPC \<equiv> CHR 0x20"

text \<open>A C string has no NUL inside.\<close>

definition is_cstring :: "string \<Rightarrow> bool" where
  "is_cstring s \<longleftrightarrow> NUL \<notin> set s"

lemma is_cstring_simps [simp]:
  "is_cstring []"
  "is_cstring (c # s) \<longleftrightarrow> c \<noteq> NUL \<and> is_cstring s"
  "is_cstring (s @ t) \<longleftrightarrow> is_cstring s \<and> is_cstring t"
  by (auto simp: is_cstring_def)

section \<open>Lists\<close>

lemma takeWhile_append_stop:
  "\<forall>x \<in> set xs. P x \<Longrightarrow> \<not> P y \<Longrightarrow> takeWhile P (xs @ y # ys) = xs"
  by (simp add: takeWhile_append2)

lemma dropWhile_append_stop:
  "\<forall>x \<in> set xs. P x \<Longrightarrow> \<not> P y \<Longrightarrow> dropWhile P (xs @ y # ys) = y # ys"
  by (simp add: dropWhile_append2)

lemma hd_dropWhile_stop: "dropWhile P xs = y # ys \<Longrightarrow> \<not> P y"
  by (metis hd_dropWhile list.distinct(1) list.sel(1))

section \<open>Decimal numbers\<close>

definition digit_char :: "nat \<Rightarrow> char" where
  "digit_char d = char_of (48 + d)"

definition is_digit :: "char \<Rightarrow> bool" where
  "is_digit c \<longleftrightarrow> 48 \<le> (of_char c :: nat) \<and> (of_char c :: nat) \<le> 57"

definition digit_val :: "char \<Rightarrow> nat" where
  "digit_val c = of_char c - 48"

lemma digit_char_inverse [simp]:
  "d < 10 \<Longrightarrow> is_digit (digit_char d)"
  "d < 10 \<Longrightarrow> digit_val (digit_char d) = d"
  by (simp_all add: is_digit_def digit_val_def digit_char_def)

lemma digit_not_special:
  "is_digit c \<Longrightarrow> c \<noteq> NUL \<and> c \<noteq> CR \<and> c \<noteq> LF \<and> c \<noteq> SPC \<and> c \<noteq> CHR ''-'' \<and> c \<noteq> CHR ''+''"
  by (auto simp: is_digit_def)

text \<open>\<open>sprintf\<close> of \<open>%u\<close>, and of \<open>%d\<close>/\<open>%ld\<close>.\<close>

fun show_nat :: "nat \<Rightarrow> string" where
  "show_nat n = (if n < 10 then [digit_char n]
                 else show_nat (n div 10) @ [digit_char (n mod 10)])"

declare show_nat.simps [simp del]

definition show_int :: "int \<Rightarrow> string" where
  "show_int i = (if i < 0 then CHR ''-'' # show_nat (nat (- i)) else show_nat (nat i))"

lemma show_nat_digits: "\<forall>c \<in> set (show_nat n). is_digit c"
proof (induction n rule: show_nat.induct)
  case (1 n)
  then show ?case by (subst show_nat.simps) auto
qed

lemma show_nat_nonempty [simp]: "show_nat n \<noteq> []"
  by (subst show_nat.simps) simp

lemma show_nat_is_cstring [simp]: "is_cstring (show_nat n)"
  using show_nat_digits [of n] digit_not_special by (auto simp: is_cstring_def)

lemma show_int_is_cstring [simp]: "is_cstring (show_int i)"
  by (simp add: show_int_def)

lemma length_show_nat: "n < 10 ^ k \<Longrightarrow> 0 < k \<Longrightarrow> length (show_nat n) \<le> k"
proof (induction k arbitrary: n)
  case 0
  then show ?case by simp
next
  case (Suc k)
  show ?case
  proof (cases "n < 10")
    case True
    then show ?thesis by (subst show_nat.simps) simp
  next
    case False
    with Suc.prems have "n div 10 < 10 ^ k" "0 < k"
      by (auto simp: less_mult_imp_div_less mult.commute intro: Nat.gr0I)
    with Suc.IH [of "n div 10"] False show ?thesis
      by (subst show_nat.simps) simp
  qed
qed

lemma length_show_int:
  assumes "\<bar>i\<bar> < 10 ^ 19"
  shows "length (show_int i) \<le> 20"
proof -
  have "nat \<bar>i\<bar> < 10 ^ 19" using assms by simp
  from length_show_nat [OF this] show ?thesis by (auto simp: show_int_def)
qed

text \<open>
  \<open>strtol (s, NULL, 10)\<close>: leading white space, an optional sign, the longest run of digits; the
  value saturates at the ends of the 64-bit range. \<open>atol\<close> is this value, \<open>atoi\<close> its
  conversion to \<open>int\<close> (the C library's definition of both).
\<close>

fun read_digits :: "nat \<Rightarrow> string \<Rightarrow> nat" where
  "read_digits acc [] = acc"
| "read_digits acc (c # cs) =
     (if is_digit c then read_digits (10 * acc + digit_val c) cs else acc)"

definition is_space :: "char \<Rightarrow> bool" where
  "is_space c \<longleftrightarrow> c = SPC \<or> (9 \<le> (of_char c :: nat) \<and> (of_char c :: nat) \<le> 13)"

definition clamp_long :: "int \<Rightarrow> int" where
  "clamp_long v = max (- (2 ^ 63)) (min (2 ^ 63 - 1) v)"

definition atol :: "string \<Rightarrow> int" where
  "atol s =
     (case dropWhile is_space s of
        [] \<Rightarrow> 0
      | c # cs \<Rightarrow>
          if c = CHR ''-'' then clamp_long (- int (read_digits 0 cs))
          else if c = CHR ''+'' then clamp_long (int (read_digits 0 cs))
          else clamp_long (int (read_digits 0 (c # cs))))"

definition atoi :: "string \<Rightarrow> int" where
  "atoi s = sint (word_of_int (atol s) :: 32 word)"

lemma read_digits_append:
  "\<forall>c \<in> set xs. is_digit c \<Longrightarrow> read_digits acc (xs @ ys) = read_digits (read_digits acc xs) ys"
  by (induction xs arbitrary: acc) auto

lemma read_show_nat: "read_digits 0 (show_nat n) = n"
proof (induction n rule: show_nat.induct)
  case (1 n)
  show ?case
  proof (cases "n < 10")
    case True
    then show ?thesis by (subst show_nat.simps) simp
  next
    case False
    have "read_digits 0 (show_nat (n div 10) @ [digit_char (n mod 10)])
          = 10 * (n div 10) + n mod 10"
      using False "1" by (simp add: read_digits_append show_nat_digits)
    with False show ?thesis by (subst show_nat.simps) simp
  qed
qed

lemma read_digits_stop:
  "\<forall>c \<in> set xs. is_digit c \<Longrightarrow> (case ys of [] \<Rightarrow> True | y # _ \<Rightarrow> \<not> is_digit y) \<Longrightarrow>
    read_digits acc (xs @ ys) = read_digits acc xs"
  by (auto simp: read_digits_append split: list.splits)

lemma show_nat_head: "show_nat n = c # cs \<Longrightarrow> is_digit c"
  using show_nat_digits [of n] by auto

lemma digit_not_space: "is_digit c \<Longrightarrow> \<not> is_space c"
  by (auto simp: is_digit_def is_space_def)

lemma atol_show_nat:
  assumes "int n < 2 ^ 63" "case ys of [] \<Rightarrow> True | y # _ \<Rightarrow> \<not> is_digit y"
  shows "atol (show_nat n @ ys) = int n"
proof -
  obtain c cs where c: "show_nat n = c # cs" by (cases "show_nat n") auto
  then have "is_digit c" by (rule show_nat_head)
  then have "dropWhile is_space (show_nat n @ ys) = c # cs @ ys" "c \<noteq> CHR ''-''" "c \<noteq> CHR ''+''"
    using c digit_not_space digit_not_special by auto
  moreover have "read_digits 0 (c # cs @ ys) = n"
    using read_digits_stop [OF show_nat_digits assms(2), of 0 n] read_show_nat [of n]
    unfolding c by (simp only: append_Cons)
  ultimately show ?thesis
    using assms(1) by (simp add: atol_def clamp_long_def del: read_digits.simps)
qed

text \<open>Printing and reading a 64-bit number is the identity, whatever non-digit follows it.\<close>

lemma atol_show_int:
  assumes "- (2 ^ 63) \<le> i" "i < 2 ^ 63" "case ys of [] \<Rightarrow> True | y # _ \<Rightarrow> \<not> is_digit y"
  shows "atol (show_int i @ ys) = i"
proof (cases "i < 0")
  case True
  have "read_digits 0 (show_nat (nat (- i)) @ ys) = nat (- i)"
    using read_digits_stop [OF show_nat_digits assms(3)] by (simp add: read_show_nat)
  with True assms(1) show ?thesis
    by (simp add: show_int_def atol_def is_space_def clamp_long_def)
next
  case False
  with assms show ?thesis using atol_show_nat [of "nat i" ys] by (simp add: show_int_def)
qed

lemma sint_word_of_int_eq_self:
  "- (2 ^ 31) \<le> i \<Longrightarrow> i < 2 ^ 31 \<Longrightarrow> sint (word_of_int i :: 32 word) = i"
  by (subst signed_of_int) (auto intro: signed_take_bit_int_eq_self)

lemma atoi_show_int:
  assumes "- (2 ^ 31) \<le> i" "i < 2 ^ 31" "case ys of [] \<Rightarrow> True | y # _ \<Rightarrow> \<not> is_digit y"
  shows "atoi (show_int i @ ys) = i"
  using assms atol_show_int [of i ys]
  by (simp add: atoi_def sint_word_of_int_eq_self)

section \<open>Unsigned counters\<close>

lemma unat_count: "n < 2 ^ 32 \<Longrightarrow> unat (word_of_nat n :: u32) = n"
  by (simp add: unsigned_of_nat take_bit_nat_eq_self)

lemma unat_add_count:
  assumes "unat (x :: u32) + n < 2 ^ 32"
  shows "unat (x + word_of_nat n) = unat x + n"
proof -
  have "unat (word_of_nat n :: u32) = n" using assms by (intro unat_count) linarith
  with assms show ?thesis by (simp add: unat_word_ariths)
qed

lemma unat_diff_le: "(y :: u32) \<le> x \<Longrightarrow> unat (x - y) = unat x - unat y"
  by (rule unat_sub)

end
