(* ===== verification/CStrings.thy ===== *)
theory CStrings
  imports Prelude
begin

text \<open>
  The string functions of the C library the sources call: \<open>strstr\<close>, \<open>strtok_r\<close> and the
  reading of a C string out of a buffer. \<open>strtok_r\<close> works in place: it overwrites the
  delimiter after a token with NUL. Here it is a function on the buffer (its bytes, terminator
  included) and a position, which is the save pointer; every delimiter set in the sources is one
  character. \<open>next_tok\<close> is the same tokenisation on a string that nobody modifies, and
  \<open>strtok_r_next_tok\<close> relates the two: the token and the rest that the pointers denote are
  those of \<open>next_tok\<close>, and no byte outside the scanned range changes.
\<close>

section \<open>Searching\<close>

text \<open>\<open>strstr (s, pat)\<close>: the suffix that starts at the first occurrence.\<close>

fun starts_with :: "string \<Rightarrow> string \<Rightarrow> bool" where
  "starts_with [] s = True"
| "starts_with (p # ps) [] = False"
| "starts_with (p # ps) (c # cs) \<longleftrightarrow> p = c \<and> starts_with ps cs"

fun strstr :: "string \<Rightarrow> string \<Rightarrow> string option" where
  "strstr [] pat = (if pat = [] then Some [] else None)"
| "strstr (c # cs) pat = (if starts_with pat (c # cs) then Some (c # cs) else strstr cs pat)"

lemma strstr_char: "strstr s [c] = (if c \<in> set s then Some (dropWhile (\<lambda>x. x \<noteq> c) s) else None)"
  by (induction s) auto

lemma starts_with_append [simp]: "starts_with pat (pat @ s)"
  by (induction pat) auto

lemma strstr_skip:
  "\<forall>c \<in> set xs. c \<noteq> p \<Longrightarrow> strstr (xs @ ys) (p # ps) = strstr ys (p # ps)"
  by (induction xs) auto

lemma strstr_here: "s \<noteq> [] \<Longrightarrow> starts_with pat s \<Longrightarrow> strstr s pat = Some s"
  by (cases s) auto

section \<open>Reading a C string from a buffer\<close>

definition cstr_at :: "string \<Rightarrow> nat \<Rightarrow> string" where
  "cstr_at b p = takeWhile (\<lambda>c. c \<noteq> NUL) (drop p b)"

text \<open>The bytes of a C string with its terminator, followed by whatever the buffer holds.\<close>

lemma cstr_at_terminated: "is_cstring s \<Longrightarrow> cstr_at (s @ NUL # t) 0 = s"
  by (auto simp: cstr_at_def is_cstring_def takeWhile_append)

lemma cstr_at_is_cstring [simp]: "is_cstring (cstr_at b p)"
  using set_takeWhileD by (fastforce simp: cstr_at_def is_cstring_def)

lemma cstr_at_cong: "drop p b = drop p b' \<Longrightarrow> cstr_at b p = cstr_at b' p"
  by (simp add: cstr_at_def)

section \<open>Tokens\<close>

definition strtok_r :: "char \<Rightarrow> string \<Rightarrow> nat \<Rightarrow> string \<times> nat option \<times> nat" where
  "strtok_r d b p =
     (let s = p + length (takeWhile (\<lambda>c. c = d) (drop p b));
          n = length (takeWhile (\<lambda>c. c \<noteq> d \<and> c \<noteq> NUL) (drop s b));
          e = s + n
      in if n = 0 then (b, None, s)
         else if e < length b \<and> b ! e = d then (b[e := NUL], Some s, e + 1)
         else (b, Some s, e))"

definition next_tok :: "char \<Rightarrow> string \<Rightarrow> (string \<times> string) option" where
  "next_tok d s =
     (case dropWhile (\<lambda>c. c = d) s of
        [] \<Rightarrow> None
      | u \<Rightarrow> Some (takeWhile (\<lambda>c. c \<noteq> d) u, drop 1 (dropWhile (\<lambda>c. c \<noteq> d) u)))"

lemma next_tok_eq:
  "next_tok d s =
     (if dropWhile (\<lambda>c. c = d) s = [] then None
      else Some (takeWhile (\<lambda>c. c \<noteq> d) (dropWhile (\<lambda>c. c = d) s),
                 drop 1 (dropWhile (\<lambda>c. c \<noteq> d) (dropWhile (\<lambda>c. c = d) s))))"
  unfolding next_tok_def by (cases "dropWhile (\<lambda>c. c = d) s") (simp_all only: list.case list.distinct if_True if_False simp_thms)

text \<open>All the tokens, in order; empty ones are skipped, as \<open>strtok_r\<close> skips them.\<close>

lemma next_tok_shorter: "next_tok d s = Some (t, r) \<Longrightarrow> length r < length s"
proof -
  assume a: "next_tok d s = Some (t, r)"
  then obtain c cs where c: "dropWhile (\<lambda>c. c = d) s = c # cs"
    by (auto simp: next_tok_def split: list.splits)
  have "length (c # cs) \<le> length s" using c length_dropWhile_le [of "\<lambda>c. c = d" s] by simp
  moreover have "length (drop 1 (dropWhile (\<lambda>c. c \<noteq> d) (c # cs))) \<le> length cs"
    using length_dropWhile_le [of "\<lambda>c. c \<noteq> d" "c # cs"] by simp
  ultimately show ?thesis using a c by (auto simp: next_tok_def)
qed

function tokens :: "char \<Rightarrow> string \<Rightarrow> string list" where
  "tokens d s = (case next_tok d s of None \<Rightarrow> [] | Some (t, r) \<Rightarrow> t # tokens d r)"
  by pat_completeness auto
termination
  by (relation "measure (\<lambda>(d, s). length s)") (auto simp: next_tok_shorter)

declare tokens.simps [simp del]

lemma next_tok_token:
  assumes "next_tok d s = Some (t, r)"
  shows "t \<noteq> []" "d \<notin> set t" "set t \<subseteq> set s" "set r \<subseteq> set s"
proof -
  obtain c cs where c: "dropWhile (\<lambda>c. c = d) s = c # cs"
    using assms by (auto simp: next_tok_def split: list.splits)
  have cd: "c \<noteq> d" using hd_dropWhile_stop [OF c] by simp
  have sub: "set (c # cs) \<subseteq> set s" using set_dropWhileD [of _ "\<lambda>c. c = d" s] c by auto
  have t: "t = takeWhile (\<lambda>c. c \<noteq> d) (c # cs)" "r = drop 1 (dropWhile (\<lambda>c. c \<noteq> d) (c # cs))"
    using assms c by (auto simp: next_tok_def)
  show "t \<noteq> []" using t cd by simp
  show "d \<notin> set t" using t set_takeWhileD by fastforce
  show "set t \<subseteq> set s" using t sub set_takeWhileD by fastforce
  show "set r \<subseteq> set s" using t sub set_dropWhileD
    by (metis in_set_dropD subset_iff)
qed

text \<open>A token that stands at the front, up to its delimiter.\<close>

lemma next_tok_front:
  assumes "t \<noteq> []" "d \<notin> set t"
  shows "next_tok d (t @ d # r) = Some (t, r)" "next_tok d t = Some (t, [])"
proof -
  obtain c cs where t: "t = c # cs" "c \<noteq> d" using assms by (cases t) auto
  have "takeWhile (\<lambda>x. x \<noteq> d) (t @ d # r) = t" "dropWhile (\<lambda>x. x \<noteq> d) (t @ d # r) = d # r"
    using assms(2) by (induction t) auto
  with t show "next_tok d (t @ d # r) = Some (t, r)" by (simp add: next_tok_def)
  have "takeWhile (\<lambda>x. x \<noteq> d) t = t" "dropWhile (\<lambda>x. x \<noteq> d) t = []"
    using assms(2) by (induction t) auto
  then have "drop 1 (dropWhile (\<lambda>x. x \<noteq> d) t) = []" by (metis drop_Nil)
  with \<open>takeWhile (\<lambda>x. x \<noteq> d) t = t\<close> t show "next_tok d t = Some (t, [])"
    unfolding next_tok_def by (metis (mono_tags, lifting) dropWhile.simps(2) list.simps(5))
qed

section \<open>\<open>strtok_r\<close> refines \<open>next_tok\<close>\<close>

lemma cstr_at_skip:
  assumes "d \<noteq> NUL"
  shows "dropWhile (\<lambda>c. c = d) (cstr_at b p) =
         cstr_at b (p + length (takeWhile (\<lambda>c. c = d) (drop p b)))"
proof -
  have "dropWhile (\<lambda>c. c = d) (takeWhile (\<lambda>c. c \<noteq> NUL) xs) =
        takeWhile (\<lambda>c. c \<noteq> NUL) (drop (length (takeWhile (\<lambda>c. c = d) xs)) xs)" for xs
    using assms by (induction xs) auto
  from this [of "drop p b"] show ?thesis
    by (simp add: cstr_at_def add.commute)
qed

lemma token_of_cstr:
  "takeWhile (\<lambda>c. c \<noteq> d \<and> c \<noteq> NUL) (drop s b) = takeWhile (\<lambda>c. c \<noteq> d) (cstr_at b s)"
proof -
  have "takeWhile (\<lambda>c. c \<noteq> d \<and> c \<noteq> NUL) xs = takeWhile (\<lambda>c. c \<noteq> d) (takeWhile (\<lambda>c. c \<noteq> NUL) xs)"
    for xs by (induction xs) auto
  then show ?thesis by (simp add: cstr_at_def)
qed

text \<open>One byte at a time, and where a token ends: at the delimiter or at the terminator.\<close>

lemma cstr_at_step:
  "cstr_at b q = (if q < length b \<and> b ! q \<noteq> NUL then b ! q # cstr_at b (Suc q) else [])"
proof (cases "q < length b")
  case True
  then have "drop q b = b ! q # drop (Suc q) b" by (rule Cons_nth_drop_Suc [symmetric])
  with True show ?thesis by (simp add: cstr_at_def)
next
  case False
  then show ?thesis by (simp add: cstr_at_def)
qed

lemma drop_cstr_at:
  assumes "m \<le> length (cstr_at b s)"
  shows "drop m (cstr_at b s) = cstr_at b (s + m)"
  using assms
proof (induction m arbitrary: s)
  case 0
  then show ?case by simp
next
  case (Suc m)
  then have c: "cstr_at b s = b ! s # cstr_at b (Suc s)"
    by (subst cstr_at_step) (metis Suc_le_length_iff cstr_at_step list.discI)
  with Suc show ?case by simp
qed

lemma token_end:
  assumes "n = length (takeWhile (\<lambda>c. c \<noteq> d) (cstr_at b s))"
  shows "dropWhile (\<lambda>c. c \<noteq> d) (cstr_at b s) = cstr_at b (s + n)"
    and "d \<noteq> NUL \<Longrightarrow> cstr_at b (s + n) =
      (if s + n < length b \<and> b ! (s + n) = d then d # cstr_at b (s + n + 1) else [])"
proof -
  have "dropWhile (\<lambda>c. c \<noteq> d) (cstr_at b s) = drop n (cstr_at b s)"
    using assms by (simp add: dropWhile_eq_drop)
  also have "\<dots> = cstr_at b (s + n)"
    unfolding assms by (intro drop_cstr_at length_takeWhile_le)
  finally show e: "dropWhile (\<lambda>c. c \<noteq> d) (cstr_at b s) = cstr_at b (s + n)" .
  assume d: "d \<noteq> NUL"
  show "cstr_at b (s + n) =
      (if s + n < length b \<and> b ! (s + n) = d then d # cstr_at b (s + n + 1) else [])"
    using cstr_at_step [of b "s + n"] d
    by (metis (full_types) Suc_eq_plus1 e hd_dropWhile_stop)
qed

lemma cstr_at_cut:
  assumes "e < length b" "n = length (takeWhile (\<lambda>c. c \<noteq> d \<and> c \<noteq> NUL) (drop s b))" "e = s + n"
  shows "cstr_at (b[e := NUL]) s = takeWhile (\<lambda>c. c \<noteq> d) (cstr_at b s)"
proof -
  have t: "takeWhile (\<lambda>c. c \<noteq> d \<and> c \<noteq> NUL) (drop s b) = take n (drop s b)"
    using assms(2) by (metis takeWhile_eq_take)
  let ?R = "take n (drop s b) @ NUL # drop (Suc e) b"
  have "take e b = take s b @ take n (drop s b)" unfolding assms(3) by (rule take_add)
  then have c: "b[e := NUL] = take s b @ ?R"
    using upd_conv_take_nth_drop [OF assms(1)] by (simp only: append_assoc)
  have l: "s = length (take s b)" using assms(1,3) by simp
  have dl: "drop (length xs) (xs @ ys) = ys" for xs ys :: string by simp
  have ds: "drop s (b[e := NUL]) = ?R" using c l dl by metis
  have "\<forall>c \<in> set (take n (drop s b)). c \<noteq> NUL" unfolding t [symmetric]
    using set_takeWhileD by fastforce
  then have "cstr_at (b[e := NUL]) s = take n (drop s b)"
    unfolding cstr_at_def ds by (simp only: takeWhile_append_stop simp_thms)
  with t show ?thesis by (simp add: token_of_cstr)
qed

text \<open>
  The refinement: \<open>strtok_r\<close> returns no token exactly when \<open>next_tok\<close> on the C string at the
  save pointer has none; otherwise the returned pointer and the new save pointer denote its token
  and its rest, and bytes at or after the new save pointer, and before the old one, are kept.
\<close>

lemma strtok_r_None:
  assumes "d \<noteq> NUL" "strtok_r d b p = (b', None, q)"
  shows "next_tok d (cstr_at b p) = None" "b' = b"
proof -
  define s where "s = p + length (takeWhile (\<lambda>c. c = d) (drop p b))"
  have e: "takeWhile (\<lambda>c. c \<noteq> d) (cstr_at b s) = []"
    using assms(2) by (auto simp: strtok_r_def Let_def s_def token_of_cstr split: if_splits)
  have u: "dropWhile (\<lambda>c. c = d) (cstr_at b p) = cstr_at b s"
    using cstr_at_skip [OF assms(1)] by (simp add: s_def)
  have "cstr_at b s = []"
  proof (cases "cstr_at b s")
    case (Cons c cs)
    then have "c \<noteq> d" using hd_dropWhile_stop [OF u [unfolded Cons]] by simp
    with Cons e show ?thesis by simp
  qed
  with u show "next_tok d (cstr_at b p) = None" by (simp only: next_tok_def list.case)
  show "b' = b" using assms(2) by (auto simp: strtok_r_def Let_def split: if_splits)
qed

lemma strtok_r_Some:
  assumes d: "d \<noteq> NUL" and st: "strtok_r d b p = (b', Some t, q)"
  shows "next_tok d (cstr_at b p) = Some (cstr_at b' t, cstr_at b' q)"
    and "p \<le> t" and "t < q" and "q \<le> length b" and "length b' = length b"
    and "drop q b' = drop q b" and "take t b' = take t b"
    and "t + length (cstr_at b' t) \<le> q" and "cstr_at b' q \<noteq> [] \<Longrightarrow> t + length (cstr_at b' t) < q"
    and "q + length (cstr_at b' q) \<le> p + length (cstr_at b p)"
proof -
  define s where "s = p + length (takeWhile (\<lambda>c. c = d) (drop p b))"
  define n where "n = length (takeWhile (\<lambda>c. c \<noteq> d \<and> c \<noteq> NUL) (drop s b))"
  define u where "u = cstr_at b s"
  have n: "n = length (takeWhile (\<lambda>c. c \<noteq> d) (cstr_at b s))" by (simp add: n_def token_of_cstr)
  have t: "t = s" "n \<noteq> 0"
    using st by (auto simp: strtok_r_def Let_def s_def n_def split: if_splits)
  have u: "dropWhile (\<lambda>c. c = d) (cstr_at b p) = u"
    using cstr_at_skip [OF d] by (simp add: u_def s_def)
  have ne: "u \<noteq> []" using t n by (auto simp: u_def)
  have nt: "next_tok d (cstr_at b p) = Some (takeWhile (\<lambda>c. c \<noteq> d) u, drop 1 (dropWhile (\<lambda>c. c \<noteq> d) u))"
    using u ne by (auto simp: next_tok_def split: list.splits)
  have "n \<le> length (drop s b)" unfolding n_def by (rule length_takeWhile_le)
  then have le: "s + n \<le> length b" using t by (cases "s \<le> length b") auto
  have dw: "dropWhile (\<lambda>c. c \<noteq> d) u = cstr_at b (s + n)"
    using token_end(1) [OF n] by (simp add: u_def)
  have ps: "p \<le> s" by (simp add: s_def)
  have "length (cstr_at b p) = (s - p) + length u"
  proof -
    have "takeWhile (\<lambda>c. c = d) (takeWhile (\<lambda>c. c \<noteq> NUL) xs) = takeWhile (\<lambda>c. c = d) xs" for xs
      using d by (induction xs) auto
    then have "length (takeWhile (\<lambda>c. c = d) (cstr_at b p)) = s - p"
      by (simp add: s_def cstr_at_def)
    then show ?thesis
      using u length_append takeWhile_dropWhile_id by metis
  qed
  moreover have "length u = n + length (cstr_at b (s + n))"
    using dw n length_append takeWhile_dropWhile_id unfolding u_def by metis
  ultimately have lp: "p + length (cstr_at b p) = s + n + length (cstr_at b (s + n))"
    using ps by simp
  have goal: "next_tok d (cstr_at b p) = Some (cstr_at b' t, cstr_at b' q) \<and> p \<le> t \<and> t < q \<and>
    q \<le> length b \<and> length b' = length b \<and> drop q b' = drop q b \<and> take t b' = take t b \<and>
    t + length (cstr_at b' t) \<le> q \<and> (cstr_at b' q \<noteq> [] \<longrightarrow> t + length (cstr_at b' t) < q) \<and>
    q + length (cstr_at b' q) \<le> p + length (cstr_at b p)"
  proof (cases "s + n < length b \<and> b ! (s + n) = d")
    case True
    then have b': "b' = b[s + n := NUL]" "q = s + n + 1"
      using st t by (auto simp: strtok_r_def Let_def s_def n_def split: if_splits)
    have tok: "cstr_at b' t = takeWhile (\<lambda>c. c \<noteq> d) u"
      using cstr_at_cut [of "s + n" b n d s] True b' t by (simp add: n_def u_def)
    have "drop 1 (dropWhile (\<lambda>c. c \<noteq> d) u) = cstr_at b q"
      using token_end(2) [OF n d] True b' by (simp add: dw)
    moreover have dq: "drop q b' = drop q b" using b' by simp
    ultimately have "drop 1 (dropWhile (\<lambda>c. c \<noteq> d) u) = cstr_at b' q"
      using cstr_at_cong by metis
    moreover have "length (cstr_at b' t) = n" using tok n by (simp add: u_def)
    moreover have "length (cstr_at b (s + n)) = 1 + length (cstr_at b' q)"
      using token_end(2) [OF n d] True b' cstr_at_cong [OF dq] by simp
    ultimately show ?thesis using nt tok dq b' t ps True lp by simp
  next
    case False
    then have b': "b' = b" "q = s + n"
      using st t by (auto simp: strtok_r_def Let_def s_def n_def split: if_splits)
    have e: "cstr_at b (s + n) = []" using token_end(2) [OF n d] False by simp
    with dw have z: "dropWhile (\<lambda>c. c \<noteq> d) u = []" by metis
    then have "takeWhile (\<lambda>c. c \<noteq> d) u = u"
      by (metis append_Nil2 takeWhile_dropWhile_id)
    with z nt have "next_tok d (cstr_at b p) = Some (u, [])" by (metis drop_Nil)
    moreover have "length u = n" using \<open>length u = n + length (cstr_at b (s + n))\<close> e by simp
    ultimately show ?thesis using b' t ps le lp e by (simp add: u_def)
  qed
  then show "next_tok d (cstr_at b p) = Some (cstr_at b' t, cstr_at b' q)"
    and "p \<le> t" and "t < q" and "q \<le> length b" and "length b' = length b"
    and "drop q b' = drop q b" and "take t b' = take t b"
    and "t + length (cstr_at b' t) \<le> q" and "cstr_at b' q \<noteq> [] \<Longrightarrow> t + length (cstr_at b' t) < q"
    and "q + length (cstr_at b' q) \<le> p + length (cstr_at b p)" by auto
qed

lemma strtok_r_tokens:
  "strtok_r d b p = (b', None, q) \<Longrightarrow> d \<noteq> NUL \<Longrightarrow> tokens d (cstr_at b p) = []"
  "strtok_r d b p = (b', Some t, q) \<Longrightarrow> d \<noteq> NUL \<Longrightarrow>
     tokens d (cstr_at b p) = cstr_at b' t # tokens d (cstr_at b' q)"
  using strtok_r_None [of d b p b' q] strtok_r_Some(1) [of d b p b' t q]
  by (subst tokens.simps, simp)+

text \<open>A C string that ends before the first changed byte is unchanged.\<close>

lemma cstr_at_take:
  assumes "take k b' = take k b" "length b' = length b" "p + length (cstr_at b p) < k" "k \<le> length b"
  shows "cstr_at b' p = cstr_at b p"
proof -
  define n where "n = length (cstr_at b p)"
  have split: "drop p xs = take (k - p) (drop p xs) @ drop k xs" if "k \<le> length xs" for xs :: string
    using that assms(3) by (metis append_take_drop_id drop_drop le_add_diff_inverse2 le_add1 less_imp_le_nat order_trans add.commute)
  have eq: "take (k - p) (drop p b') = take (k - p) (drop p b)"
    using assms(1) by (metis drop_take)
  have stop: "takeWhile P xs = takeWhile P (take m xs)" if "length (takeWhile P xs) < m" for P m and xs :: string
    using that by (induction xs arbitrary: m) (auto simp: take_Cons split: nat.splits if_splits)
  have tw: "takeWhile P (take m xs @ ys) = takeWhile P xs"
    if "length (takeWhile P xs) < m" "m \<le> length xs" for P m and xs ys :: string
    using that by (induction xs arbitrary: m) (auto simp: take_Cons split: nat.splits if_splits)
  have "drop p b' = take (k - p) (drop p b) @ drop k b'"
    using split [of b'] eq assms(2,4) by simp
  moreover have "length (takeWhile (\<lambda>c. c \<noteq> NUL) (drop p b)) < k - p"
    using assms(3) by (simp add: cstr_at_def)
  moreover have "k - p \<le> length (drop p b)" using assms(4) by simp
  ultimately show ?thesis using tw by (simp add: cstr_at_def)
qed


lemma strtok_r_length: "strtok_r d b p = (b', r, q) \<Longrightarrow> length b' = length b"
  by (auto simp: strtok_r_def Let_def split: if_splits)

text \<open>The measure of the loops over tokens: what is left to scan.\<close>

lemma strtok_r_progress:
  "strtok_r d b p = (b', Some t, q) \<Longrightarrow> d \<noteq> NUL \<Longrightarrow> length b - q < length b - p"
  using strtok_r_Some(2-4) [of d b p b' t q] by auto

section \<open>A text whose last byte is the delimiter\<close>

lemma next_tok_split:
  assumes "next_tok d s = Some (t, r)" "last s = d"
  shows "s = takeWhile (\<lambda>c. c = d) s @ t @ d # r" and "r = [] \<or> last r = d"
proof -
  define u where "u = dropWhile (\<lambda>c. c = d) s"
  have u: "u \<noteq> []" "t = takeWhile (\<lambda>c. c \<noteq> d) u" "r = drop 1 (dropWhile (\<lambda>c. c \<noteq> d) u)"
    using assms(1) unfolding next_tok_eq u_def by (metis option.discI option.inject prod.inject)+
  have su: "s = takeWhile (\<lambda>c. c = d) s @ u" by (simp add: u_def)
  then have "last u = d" using assms(2) u(1) by (metis last_appendR)
  then have "d \<in> set u" using u(1) last_in_set by blast
  then obtain x xs where x: "dropWhile (\<lambda>c. c \<noteq> d) u = x # xs"
    by (cases "dropWhile (\<lambda>c. c \<noteq> d) u") (auto simp: dropWhile_eq_Nil_conv)
  then have "x = d" using hd_dropWhile_stop by fastforce
  with x u have ur: "u = t @ d # r" by (metis drop0 drop_Suc_Cons One_nat_def takeWhile_dropWhile_id)
  then show "s = takeWhile (\<lambda>c. c = d) s @ t @ d # r" using su by simp
  show "r = [] \<or> last r = d" using ur \<open>last u = d\<close> by (cases r) auto
qed

text \<open>Where such a text starts at the save pointer, \<open>strtok_r\<close> stays inside it.\<close>

lemma strtok_r_inside:
  assumes d: "d \<noteq> NUL" and R: "drop p b = R @ Y" "is_cstring R" "last R = d"
    and nt: "next_tok d R = Some (t, r)"
  obtains b1 line q where "strtok_r d b p = (b1, Some line, q)" "cstr_at b1 line = t"
    "drop q b = r @ Y" "q + length r = p + length R"
proof -
  note sp = next_tok_split [OF nt R(3)]
  note tk = next_tok_token [OF nt]
  define k where "k = takeWhile (\<lambda>c. c = d) R"
  have Rk: "R = k @ t @ d # r" using sp(1) by (simp add: k_def)
  have t: "\<forall>c \<in> set t. c \<noteq> d \<and> c \<noteq> NUL"
    using tk(2,3) R(2) by (auto simp: is_cstring_def)
  have kd: "\<forall>c \<in> set k. c = d" using set_takeWhileD by (fastforce simp: k_def)
  obtain c cs where c: "t = c # cs" "c \<noteq> d" using tk(1) t by (cases t) auto
  have s: "takeWhile (\<lambda>c. c = d) (drop p b) = k"
    using takeWhile_append_stop [of k "\<lambda>x. x = d" c "cs @ d # r @ Y"] kd c by (simp add: R(1) Rk)
  have dp: "drop (p + length k) b = t @ d # r @ Y"
    by (metis R(1) Rk add.commute append.assoc append_Cons append_eq_conv_conj drop_drop)
  have n: "takeWhile (\<lambda>c. c \<noteq> d \<and> c \<noteq> NUL) (drop (p + length k) b) = t"
    using takeWhile_append_stop [of t "\<lambda>c. c \<noteq> d \<and> c \<noteq> NUL" d "r @ Y"] t by (simp add: dp)
  have e: "drop (p + length k + length t) b = d # r @ Y"
    by (metis dp add.commute append_eq_conv_conj drop_drop)
  have el: "p + length k + length t < length b"
    by (rule ccontr) (use e in simp)
  have be: "b ! (p + length k + length t) = d" using e by (rule nth_via_drop)
  let ?e = "p + length k + length t"
  have st: "strtok_r d b p = (b[?e := NUL], Some (p + length k), ?e + 1)"
    using tk(1) el be by (simp add: strtok_r_def s n Let_def)
  show ?thesis
  proof (rule that [OF st])
    have "next_tok d (cstr_at b p) = Some (cstr_at (b[?e := NUL]) (p + length k), cstr_at (b[?e := NUL]) (?e + 1))"
      using strtok_r_Some(1) [OF d st] .
    moreover have "cstr_at (b[?e := NUL]) (p + length k) = takeWhile (\<lambda>c. c \<noteq> d) (cstr_at b (p + length k))"
      by (rule cstr_at_cut [OF el _ refl]) (simp add: n)
    moreover have "\<dots> = t" using n by (simp add: token_of_cstr)
    ultimately show "cstr_at (b[?e := NUL]) (p + length k) = t" by simp
    show "drop (?e + 1) b = r @ Y" using e by (metis drop_Suc_Cons drop0 drop_drop add.commute One_nat_def)
    show "?e + 1 + length r = p + length R" by (simp add: Rk)
  qed
qed

end
