(* ===== verification/ConfigHttp.thy ===== *)
theory ConfigHttp
  imports CStrings
begin

text \<open>
  \<open>config_http\<close>: the text of every HTTP reply, and \<open>register_server_exception\<close>, which
  carries such a text from a handler to the service thread. \<open>build_reply\<close> writes into a buffer
  it allocates before it knows the text; the model returns the size it asks \<open>malloc\<close> for
  beside the text, so that the theorems can compare the two.
\<close>

section \<open>Constants\<close>

abbreviation QUOT :: char where
  "QUOT \<equiv> CHR 0x22"

datatype http_status = HTTP_200 | HTTP_400 | HTTP_403 | HTTP_500 | HTTP_503

datatype http_connection = keep_alive | close_con

definition CRLF :: string where
  "CRLF = [CR, LF]"

definition HTTP_200_HDR :: string where
  "HTTP_200_HDR = ''HTTP/1.1 200 OK'' @ CRLF"

definition HTTP_400_HDR :: string where
  "HTTP_400_HDR = ''HTTP/1.1 400 Bad Request'' @ CRLF"

definition HTTP_400_MSG :: string where
  "HTTP_400_MSG = ''{ error: '' @ [QUOT] @ ''Bad Request'' @ [QUOT] @ '' }''"

definition HTTP_403_HDR :: string where
  "HTTP_403_HDR = ''HTTP/1.1 403 Forbidden'' @ CRLF"

definition HTTP_403_MSG :: string where
  "HTTP_403_MSG = ''{ error: '' @ [QUOT] @ ''Unauthorized'' @ [QUOT] @ '' }''"

definition HTTP_500_HDR :: string where
  "HTTP_500_HDR = ''HTTP/1.1 500 Internal Server Error'' @ CRLF"

definition HTTP_500_MSG :: string where
  "HTTP_500_MSG = ''{ error: '' @ [QUOT] @ ''Internal Server Error'' @ [QUOT] @ '' }''"

definition HTTP_503_HDR :: string where
  "HTTP_503_HDR = ''HTTP/1.1 503 Service Unavailable'' @ CRLF"

definition HTTP_503_MSG :: string where
  "HTTP_503_MSG = ''{ error: '' @ [QUOT] @ ''Server Busy'' @ [QUOT] @ '' }''"

definition http_connection_close :: string where
  "http_connection_close = ''Connection: close'' @ CRLF"

definition http_connection_keep_alive :: string where
  "http_connection_keep_alive = ''Connection: keep-alive'' @ CRLF"

definition http_content_type :: string where
  "http_content_type = ''Content-Type: application/json'' @ CRLF"

definition http_content_length :: string where
  "http_content_length = ''Content-Length: ''"

definition msg_size :: nat where
  "msg_size = 166"

lemmas http_texts [wire_simps] =
  CRLF_def HTTP_200_HDR_def HTTP_400_HDR_def HTTP_400_MSG_def HTTP_403_HDR_def HTTP_403_MSG_def
  HTTP_500_HDR_def HTTP_500_MSG_def HTTP_503_HDR_def HTTP_503_MSG_def http_connection_close_def
  http_connection_keep_alive_def http_content_type_def http_content_length_def

section \<open>Building a reply\<close>

text \<open>The header line of a status, and the message that stands in for an empty one; 200 has none.\<close>

fun status_hdr :: "http_status \<Rightarrow> string" where
  "status_hdr HTTP_200 = HTTP_200_HDR"
| "status_hdr HTTP_400 = HTTP_400_HDR"
| "status_hdr HTTP_403 = HTTP_403_HDR"
| "status_hdr HTTP_500 = HTTP_500_HDR"
| "status_hdr HTTP_503 = HTTP_503_HDR"

fun default_msg :: "http_status \<Rightarrow> string option" where
  "default_msg HTTP_200 = None"
| "default_msg HTTP_400 = Some HTTP_400_MSG"
| "default_msg HTTP_403 = Some HTTP_403_MSG"
| "default_msg HTTP_500 = Some HTTP_500_MSG"
| "default_msg HTTP_503 = Some HTTP_503_MSG"

fun connection_hdr :: "http_connection \<Rightarrow> string" where
  "connection_hdr close_con = http_connection_close"
| "connection_hdr keep_alive = http_connection_keep_alive"

text \<open>
  \<open>msg = NULL\<close> is None. The result pairs the allocated size with the text. A 200 reply without
  a message pointer reaches \<open>strlen (NULL)\<close>.
\<close>

definition build_reply :: "http_status \<Rightarrow> http_connection \<Rightarrow> string option \<Rightarrow> (unit, nat \<times> string) outcome" where
  "build_reply status con msg =
     (let msg_l = (case msg of None \<Rightarrow> 0 | Some m \<Rightarrow> length m);
          cap = (if msg_l > 0 then msg_size + msg_l else msg_size + 40);
          msg' = (if status \<noteq> HTTP_200 \<and> msg_l < 1 then default_msg status else msg)
      in case msg' of
           None \<Rightarrow> Undefined
         | Some m \<Rightarrow>
             Ret (cap, status_hdr status @ http_content_type @ connection_hdr con
                       @ http_content_length @ show_nat (length m mod 2 ^ 32)
                       @ CRLF @ CRLF @ m))"

definition build_reply_default :: "http_status \<Rightarrow> http_connection \<Rightarrow> (unit, nat \<times> string) outcome" where
  "build_reply_default status con = build_reply status con None"

text \<open>
  The text of an error reply, for the throw sites: they pass one of the four error statuses, so
  \<open>build_reply_default\<close> returns (lemma \<open>error_reply_text\<close>).
\<close>

definition reply_text :: "(unit, nat \<times> string) outcome \<Rightarrow> string" where
  "reply_text r = (case r of Ret (cap, t) \<Rightarrow> t | _ \<Rightarrow> [])"

section \<open>The exception type\<close>

text \<open>
  \<open>register_server_exception\<close> owns a copy of its message. Each constructor, the copy and the
  move constructor included, allocates \<open>strlen (msg) + 1\<close> bytes and copies the string there.
\<close>

record register_server_exception =
  message :: string

definition copy_message :: "string \<Rightarrow> nat \<times> string" where
  "copy_message msg = (length msg + 1, msg)"

definition new_exception :: "string \<Rightarrow> register_server_exception" where
  "new_exception msg = \<lparr>message = snd (copy_message msg)\<rparr>"

definition copy_exception :: "register_server_exception \<Rightarrow> register_server_exception" where
  "copy_exception other = \<lparr>message = snd (copy_message (message other))\<rparr>"

definition what :: "register_server_exception \<Rightarrow> string" where
  "what e = message e"

lemma what_simps [simp]:
  "what (new_exception m) = m"
  "what (copy_exception e) = what e"
  by (simp_all add: what_def new_exception_def copy_exception_def copy_message_def)

section \<open>Lemmas\<close>

definition reply_body :: "http_status \<Rightarrow> string option \<Rightarrow> string option" where
  "reply_body status msg =
     (if status \<noteq> HTTP_200 \<and> (msg = None \<or> msg = Some []) then default_msg status else msg)"

lemma build_reply_eq:
  "build_reply status con msg =
     (case reply_body status msg of
        None \<Rightarrow> Undefined
      | Some m \<Rightarrow> Ret (msg_size + (if msg = None \<or> msg = Some [] then 40 else length m),
          status_hdr status @ http_content_type @ connection_hdr con
          @ http_content_length @ show_nat (length m mod 2 ^ 32) @ CRLF @ CRLF @ m))"
  by (auto simp: build_reply_def reply_body_def Let_def split: option.splits)

lemma error_reply_text:
  assumes "status \<noteq> HTTP_200"
  shows "\<exists>m. default_msg status = Some m \<and> build_reply_default status con =
    Ret (206, status_hdr status @ http_content_type @ connection_hdr con
      @ http_content_length @ show_nat (length m mod 2 ^ 32) @ CRLF @ CRLF @ m)"
  using assms by (cases status) (simp_all add: build_reply_default_def build_reply_eq reply_body_def msg_size_def)

lemma length_status_hdr: "length (status_hdr s) \<le> 36"
  by (cases s) (simp_all add: wire_simps)

lemma length_connection_hdr: "length (connection_hdr c) \<le> 24"
  by (cases c) (simp_all add: wire_simps)

lemma length_default_msg: "default_msg s = Some m \<Longrightarrow> length m \<le> 40 \<and> m \<noteq> []"
  by (cases s) (auto simp: wire_simps)

lemma length_count: "length (show_nat (n mod 2 ^ 32)) \<le> 10"
proof (rule length_show_nat)
  have "n mod 2 ^ 32 < (2 :: nat) ^ 32" by simp
  also have "\<dots> < 10 ^ 10" by simp
  finally show "n mod 2 ^ 32 < 10 ^ 10" .
qed simp

section \<open>What a client reads\<close>

text \<open>
  The reference reader: the status code after the protocol name, the value of the
  \<open>Content-Length\<close> field, and the body after the first empty line.
\<close>

definition reply_status_code :: "string \<Rightarrow> int" where
  "reply_status_code r = atoi (drop 9 r)"

definition reply_content_length :: "string \<Rightarrow> int option" where
  "reply_content_length r = map_option (\<lambda>s. atol (drop 16 s)) (strstr r http_content_length)"

definition reply_payload :: "string \<Rightarrow> string option" where
  "reply_payload r = map_option (drop 4) (strstr r (CRLF @ CRLF))"

fun status_number :: "http_status \<Rightarrow> int" where
  "status_number HTTP_200 = 200"
| "status_number HTTP_400 = 400"
| "status_number HTTP_403 = 403"
| "status_number HTTP_500 = 500"
| "status_number HTTP_503 = 503"

lemma show_nat_no_CR: "CR \<notin> set (show_nat n)" "CHR ''C'' \<notin> set (show_nat n)"
  using show_nat_digits [of n] by (auto simp: is_digit_def dest!: bspec)

lemma strstr_crlf_count:
  "strstr (show_nat n @ CR # LF # CR # LF # m) [CR, LF, CR, LF] = Some (CR # LF # CR # LF # m)"
  using strstr_skip [of "show_nat n" CR "CR # LF # CR # LF # m" "[LF, CR, LF]"] show_nat_no_CR(1)
  by auto

lemma payload_of_reply:
  "reply_payload (status_hdr s @ http_content_type @ connection_hdr c
     @ http_content_length @ show_nat n @ CRLF @ CRLF @ m) = Some m"
  by (cases s; cases c) (simp_all add: reply_payload_def wire_simps strstr_crlf_count)

lemma content_length_of_reply:
  assumes "int n < 2 ^ 63"
  shows "reply_content_length (status_hdr s @ http_content_type @ connection_hdr c
     @ http_content_length @ show_nat n @ CRLF @ CRLF @ m) = Some (int n)"
proof -
  have "atol (show_nat n @ CR # LF # CR # LF # m) = int n"
    using assms by (rule atol_show_nat) (simp add: is_digit_def)
  then show ?thesis
    by (cases s; cases c) (simp_all add: reply_content_length_def wire_simps)
qed

lemma status_code_of_reply: "reply_status_code (status_hdr s @ r) = status_number s"
  by (cases s)
     (simp_all add: reply_status_code_def wire_simps atoi_def atol_def is_space_def is_digit_def
       digit_val_def clamp_long_def)

text \<open>
  C26: a reply never overruns the buffer \<open>build_reply\<close> allocates for it: the text and its
  terminating NUL fit into the \<open>malloc\<close>ed size, for every status, connection and message.
\<close>

theorem build_reply_in_bounds:
  assumes "build_reply status con msg = Ret (cap, rep)"
  shows "length rep + 1 \<le> cap"
proof -
  obtain m where m: "reply_body status msg = Some m"
    and cap: "cap = msg_size + (if msg = None \<or> msg = Some [] then 40 else length m)"
    and rep: "rep = status_hdr status @ http_content_type @ connection_hdr con
          @ http_content_length @ show_nat (length m mod 2 ^ 32) @ CRLF @ CRLF @ m"
    using assms by (auto simp: build_reply_eq split: option.splits)
  have "length m \<le> (if msg = None \<or> msg = Some [] then 40 else length m)"
    using m length_default_msg by (fastforce simp: reply_body_def split: if_splits)
  moreover have "length rep \<le> 36 + 32 + 24 + 16 + 10 + 4 + length m"
    using length_status_hdr [of status] length_connection_hdr [of con] length_count [of "length m"]
    by (simp add: rep wire_simps)
  ultimately show ?thesis by (simp add: cap msg_size_def)
qed

theorem build_reply_in_bounds_witness:
  "build_reply HTTP_403 close_con (Some ''no'') =
     Ret (168, reply_text (build_reply HTTP_403 close_con (Some ''no''))) \<and>
   length (reply_text (build_reply HTTP_403 close_con (Some ''no''))) + 1 \<le> 168"
proof -
  have r: "build_reply HTTP_403 close_con (Some ''no'') =
     Ret (168, reply_text (build_reply HTTP_403 close_con (Some ''no'')))"
    by (simp add: build_reply_def msg_size_def reply_text_def)
  from build_reply_in_bounds [OF r] r show ?thesis by simp
qed

text \<open>
  C27: \<open>build_reply\<close> reaches undefined behaviour in exactly one case, a 200 reply without a
  message pointer. Otherwise it returns a reply whose status code, \<open>Content-Length\<close> and body
  a client reads back: the body is the message or, where an error reply has none or an empty one,
  the status's own error text.
\<close>

theorem build_reply_round_trip:
  assumes "reply_body status msg \<noteq> None \<Longrightarrow> length (the (reply_body status msg)) < 2 ^ 32"
  shows "(build_reply status con msg = Undefined \<longleftrightarrow> status = HTTP_200 \<and> msg = None) \<and>
    (\<forall>m. reply_body status msg = Some m \<longrightarrow>
      (\<exists>cap rep. build_reply status con msg = Ret (cap, rep) \<and>
        reply_status_code rep = status_number status \<and>
        reply_content_length rep = Some (int (length m)) \<and> reply_payload rep = Some m))"
proof (cases "reply_body status msg")
  case None
  then show ?thesis by (cases status) (auto simp: build_reply_eq reply_body_def split: if_splits)
next
  case (Some m)
  then have "int (length m mod 2 ^ 32) = int (length m)" using assms by simp
  moreover from Some have "\<not> (status = HTTP_200 \<and> msg = None)" by (auto simp: reply_body_def)
  ultimately show ?thesis using Some assms
    by (simp add: build_reply_eq payload_of_reply status_code_of_reply content_length_of_reply)
qed

theorem build_reply_round_trip_witness:
  "reply_payload (reply_text (build_reply HTTP_200 keep_alive (Some ''{}''))) = Some ''{}'' \<and>
   reply_content_length (reply_text (build_reply HTTP_200 keep_alive (Some ''{}''))) = Some 2"
  using build_reply_round_trip [of HTTP_200 "Some ''{}''" keep_alive]
  by (auto simp: reply_body_def reply_text_def)

end
