(* ===== verification/Request.thy ===== *)
theory Request
  imports ConfigHttp
begin

text \<open>
  The request side of the HTTP layer, from \<open>server.cpp\<close>: \<open>verify_request\<close>, the header
  parser \<open>parse_header\<close>, which tokenises the received bytes in place, and
  \<open>read_incoming_bytes\<close>, which collects them from the TLS connection. The reads of the
  connection are a parameter: the list of results of \<open>SSL_read\<close>, each with the answer of
  \<open>SSL_has_pending\<close> after it.
\<close>

section \<open>Operations\<close>

datatype request_type = POST | GET

datatype operation_type = register_config | delete_user | sync_initial | sync_final

definition REGISTER_CONFIG :: string where
  "REGISTER_CONFIG = ''/PassvaultServiceRegistration/service/registerV1/sync-server''"

definition DELETE_USER :: string where
  "DELETE_USER = ''/PassvaultServiceRegistration/service/deleteAccount/sync-server''"

definition SYNC_INITIAL :: string where
  "SYNC_INITIAL = ''/PassvaultServiceRegistration/service/sync-accounts/sync-initial''"

definition SYNC_FINAL :: string where
  "SYNC_FINAL = ''/PassvaultServiceRegistration/service/sync-accounts/sync-final''"

definition HTTP_GET :: string where "HTTP_GET = ''GET''"

definition HTTP_POST :: string where "HTTP_POST = ''POST''"

definition HTTP_CONTENT_LENGTH_UPPER :: string where
  "HTTP_CONTENT_LENGTH_UPPER = ''Content-Length:''"

definition HTTP_CONTENT_LENGTH_LOWER :: string where
  "HTTP_CONTENT_LENGTH_LOWER = ''content-length:''"

lemmas operation_texts =
  REGISTER_CONFIG_def DELETE_USER_def SYNC_INITIAL_def SYNC_FINAL_def HTTP_GET_def HTTP_POST_def
  HTTP_CONTENT_LENGTH_UPPER_def HTTP_CONTENT_LENGTH_LOWER_def

text \<open>The 400 reply every malformed request is answered with.\<close>

definition bad_request_error :: register_server_exception where
  "bad_request_error = new_exception (reply_text (build_reply_default HTTP_400 close_con))"

definition verify_request ::
  "string \<Rightarrow> string \<Rightarrow> (register_server_exception, operation_type \<times> request_type) outcome" where
  "verify_request method operation =
     (if method = HTTP_POST then
        (if operation = REGISTER_CONFIG then Ret (register_config, POST)
         else if operation = DELETE_USER then Ret (delete_user, POST)
         else if operation = SYNC_INITIAL then Ret (sync_initial, POST)
         else if operation = SYNC_FINAL then Ret (sync_final, POST)
         else Throw bad_request_error)
      else if method = HTTP_GET \<and> operation = REGISTER_CONFIG then Ret (register_config, GET)
      else Throw bad_request_error)"

section \<open>The header parser\<close>

text \<open>
  The loop over the header lines of a POST. It returns the modified buffer, the content length
  (0, its initial value, when no line gives one) and the save pointer \<open>line_re\<close>.
\<close>

function header_lines :: "string \<Rightarrow> nat \<Rightarrow> string \<times> int \<times> nat" where
  "header_lines b p =
     (case strtok_r LF b p of
        (b1, None, q) \<Rightarrow> (b1, 0, q)
      | (b1, Some line, q) \<Rightarrow>
          (case strtok_r SPC b1 line of
             (b2, None, wq) \<Rightarrow> header_lines b2 q
           | (b2, Some word, wq) \<Rightarrow>
               if cstr_at b2 word = HTTP_CONTENT_LENGTH_UPPER
                  \<or> cstr_at b2 word = HTTP_CONTENT_LENGTH_LOWER
               then (case strtok_r SPC b2 wq of
                       (b3, None, wq') \<Rightarrow> header_lines b3 q
                     | (b3, Some v, wq') \<Rightarrow> (b3, atoi (cstr_at b3 v), q))
               else header_lines b2 q))"
  by pat_completeness auto
termination
proof (relation "measure (\<lambda>(b, p). length b - p)", goal_cases)
  case 1
  then show ?case by simp
next
  have "LF \<noteq> NUL" by simp
  note step = strtok_r_progress [OF _ this] and len = strtok_r_length
  {
    case 2
    then show ?case by simp (metis step len)
  next
    case 3
    then show ?case by simp (metis step len)
  next
    case 4
    then show ?case by simp (metis step len)
  }
qed

declare header_lines.simps [simp del]

definition parse_header ::
  "string \<Rightarrow> (register_server_exception, string \<times> (operation_type \<times> int \<times> request_type) option) outcome" where
  "parse_header b =
     (case strtok_r LF b 0 of
        (b1, None, q) \<Rightarrow> Ret (b1, None)
      | (b1, Some line, line_re) \<Rightarrow>
          (case strtok_r SPC b1 line of
             (b2, None, wq) \<Rightarrow> Ret (b2, None)
           | (b2, Some method, word_re) \<Rightarrow>
               (case strtok_r SPC b2 word_re of
                  (b3, None, wq) \<Rightarrow> Ret (b3, None)
                | (b3, Some operation, wq) \<Rightarrow>
                    (case verify_request (cstr_at b3 method) (cstr_at b3 operation) of
                       Throw e \<Rightarrow> Throw e
                     | Blocked \<Rightarrow> Blocked
                     | Undefined \<Rightarrow> Undefined
                     | Ret (op_type, requestType) \<Rightarrow>
                         if requestType = POST
                         then (let (b4, contentLength, q) = header_lines b3 line_re
                               in Ret (b4, Some (op_type, contentLength, requestType)))
                         else Ret (b3, Some (op_type, 0, requestType))))))"

section \<open>The reference parser\<close>

text \<open>The same decisions on the lists of lines and words, with no buffer and no pointers.\<close>

definition is_content_length :: "string \<Rightarrow> bool" where
  "is_content_length w \<longleftrightarrow> w = HTTP_CONTENT_LENGTH_UPPER \<or> w = HTTP_CONTENT_LENGTH_LOWER"

fun content_length_of :: "string list \<Rightarrow> int" where
  "content_length_of [] = 0"
| "content_length_of (l # ls) =
     (case tokens SPC l of
        w # v # ws \<Rightarrow> if is_content_length w then atoi v else content_length_of ls
      | _ \<Rightarrow> content_length_of ls)"

definition parse_request ::
  "string \<Rightarrow> (register_server_exception, (operation_type \<times> int \<times> request_type) option) outcome" where
  "parse_request s =
     (case tokens LF s of
        [] \<Rightarrow> Ret None
      | l # ls \<Rightarrow>
          (case tokens SPC l of
             m # opn # ws \<Rightarrow>
               (case verify_request m opn of
                  Ret (op, rt) \<Rightarrow> Ret (Some (op, if rt = POST then content_length_of ls else 0, rt))
                | Throw e \<Rightarrow> Throw e
                | Blocked \<Rightarrow> Blocked
                | Undefined \<Rightarrow> Undefined)
           | _ \<Rightarrow> Ret None))"

section \<open>The in-place parser refines the reference parser\<close>

lemma LF_SPC_not_NUL [simp]: "LF \<noteq> NUL" "SPC \<noteq> NUL"
  by simp_all

text \<open>Words of a line are cut inside that line: what lies behind the line stays as it is.\<close>

lemma word_in_line:
  assumes "strtok_r LF b p = (b1, Some line, q)" "strtok_r SPC b1 line = (b2, Some w, wq)"
  shows "wq + length (cstr_at b2 wq) \<le> q" "drop q b2 = drop q b" "length b2 = length b" "q \<le> length b"
proof -
  note l = strtok_r_Some [OF LF_SPC_not_NUL(1) assms(1)]
  note w = strtok_r_Some [OF LF_SPC_not_NUL(2) assms(2)]
  show 1: "wq + length (cstr_at b2 wq) \<le> q" using l(8) w(10) by linarith
  have "drop q b2 = drop (q - wq) (drop wq b2)" using 1 by simp
  also have "\<dots> = drop q b1" using w(6) 1 by simp
  finally show "drop q b2 = drop q b" using l(6) by simp
  show "length b2 = length b" "q \<le> length b" using l w by simp_all
qed

lemma second_word_in_line:
  assumes "strtok_r LF b p = (b1, Some line, q)" "strtok_r SPC b1 line = (b2, Some w, wq)"
    and "strtok_r SPC b2 wq = (b3, Some v, vq)"
  shows "drop q b3 = drop q b" "length b3 = length b" "cstr_at b3 w = cstr_at b2 w"
proof -
  note w = word_in_line [OF assms(1,2)]
  note w1 = strtok_r_Some [OF LF_SPC_not_NUL(2) assms(2)]
  note v = strtok_r_Some [OF LF_SPC_not_NUL(2) assms(3)]
  have "vq \<le> q" using w(1) v(10) by linarith
  then have "drop q b3 = drop (q - vq) (drop vq b3)" by simp
  also have "\<dots> = drop q b2" using v(6) \<open>vq \<le> q\<close> by simp
  finally show "drop q b3 = drop q b" using w(2) by simp
  show "length b3 = length b" using v(5) w(3) by simp
  have "cstr_at b2 wq \<noteq> []" using v(1) by (auto simp: next_tok_def)
  then have "w + length (cstr_at b2 w) < wq" by (rule w1(9))
  then show "cstr_at b3 w = cstr_at b2 w"
    using v by (intro cstr_at_take [of v]) auto
qed

text \<open>Reading on: the lines behind the current one are those of the unmodified buffer.\<close>

lemma tokens_behind:
  "strtok_r LF b p = (b1, Some line, q) \<Longrightarrow> drop q b2 = drop q b \<Longrightarrow>
    tokens LF (cstr_at b p) = cstr_at b1 line # tokens LF (cstr_at b2 q)"
  using strtok_r_tokens(2) [of LF b p b1 line q] strtok_r_Some(6) [of LF b p b1 line q]
  by (simp add: cstr_at_def)

lemma strtok_r_None_pos: "strtok_r d b p = (b', None, q) \<Longrightarrow> p \<le> q"
  by (auto simp: strtok_r_def Let_def split: if_splits)

text \<open>The lines that end the loop.\<close>

definition content_length_line :: "string \<Rightarrow> bool" where
  "content_length_line l = (case tokens SPC l of w # v # ws \<Rightarrow> is_content_length w | _ \<Rightarrow> False)"

lemma content_length_of_skip:
  "\<not> content_length_line l \<Longrightarrow> content_length_of (l # ls) = content_length_of ls"
  by (auto simp: content_length_line_def split: list.splits)

lemma content_length_of_hit:
  "content_length_line l \<Longrightarrow> content_length_of (l # ls) = atoi (tokens SPC l ! 1)"
  by (auto simp: content_length_line_def split: list.splits)

text \<open>One iteration of the loop: it goes on behind the line, or it ends with the line's value.\<close>

lemma header_lines_step:
  assumes L: "strtok_r LF b p = (b1, Some line, q1)"
  shows "\<exists>b2. length b2 = length b \<and> drop q1 b2 = drop q1 b \<and>
    (if content_length_line (cstr_at b1 line)
     then header_lines b p = (b2, atoi (tokens SPC (cstr_at b1 line) ! 1), q1)
     else header_lines b p = header_lines b2 q1)"
proof -
  note unfold = header_lines.simps [of b p] L content_length_line_def is_content_length_def
  obtain b2 ow wq where W0: "strtok_r SPC b1 line = (b2, ow, wq)" by (cases "strtok_r SPC b1 line") auto
  show ?thesis
  proof (cases ow)
    case None
    note W = W0 [unfolded None]
    have "length b2 = length b" "drop q1 b2 = drop q1 b"
      using strtok_r_None(2) [OF LF_SPC_not_NUL(2) W] strtok_r_Some(5,6) [OF LF_SPC_not_NUL(1) L] by simp_all
    with strtok_r_tokens(1) [OF W] W show ?thesis by (intro exI [of _ b2]) (simp add: unfold)
  next
    case (Some w)
    note W = W0 [unfolded Some]
    note wl = word_in_line [OF L W] and words = strtok_r_tokens(2) [OF W LF_SPC_not_NUL(2)]
    show ?thesis
    proof (cases "is_content_length (cstr_at b2 w)")
      case False
      with wl words W show ?thesis
        by (intro exI [of _ b2]) (auto simp: unfold split: list.splits)
    next
      case key: True
      obtain b3 ov vq where V0: "strtok_r SPC b2 wq = (b3, ov, vq)" by (cases "strtok_r SPC b2 wq") auto
      show ?thesis
      proof (cases ov)
        case None
        note V = V0 [unfolded None]
        have "length b3 = length b" "drop q1 b3 = drop q1 b"
          using strtok_r_None(2) [OF LF_SPC_not_NUL(2) V] wl by simp_all
        with key words strtok_r_tokens(1) [OF V] W V show ?thesis
          by (intro exI [of _ b3]) (auto simp: unfold)
      next
        case (Some v)
        note V = V0 [unfolded Some]
        from key words second_word_in_line [OF L W V] strtok_r_tokens(2) [OF V] W V show ?thesis
          by (intro exI [of _ b3]) (auto simp: unfold)
      qed
    qed
  qed
qed

lemma header_lines_correct:
  assumes "header_lines b p = (b', n, q)"
  shows "n = content_length_of (tokens LF (cstr_at b p)) \<and> p \<le> q \<and> length b' = length b \<and>
    drop q b' = drop q b"
  using assms
proof (induction "length b - p" arbitrary: b p b' n q rule: less_induct)
  case less
  obtain b1 ol q1 where L0: "strtok_r LF b p = (b1, ol, q1)" by (cases "strtok_r LF b p") auto
  show ?case
  proof (cases ol)
    case None
    with L0 less.prems show ?thesis
      using strtok_r_None [of LF b p b1 q1] strtok_r_tokens(1) [of LF b p b1 q1]
      by (auto simp: header_lines.simps [of b p] intro: strtok_r_None_pos)
  next
    case (Some line)
    note L = L0 [unfolded Some]
    have pq: "p \<le> q1" using strtok_r_Some(2,3) [OF LF_SPC_not_NUL(1) L] by simp
    obtain b2 where b2: "length b2 = length b" "drop q1 b2 = drop q1 b"
      and alt: "if content_length_line (cstr_at b1 line)
         then header_lines b p = (b2, atoi (tokens SPC (cstr_at b1 line) ! 1), q1)
         else header_lines b p = header_lines b2 q1"
      using header_lines_step [OF L] by blast
    note lines = tokens_behind [OF L b2(2)]
    show ?thesis
    proof (cases "content_length_line (cstr_at b1 line)")
      case True
      with alt less.prems b2 pq lines content_length_of_hit [OF True] show ?thesis by simp
    next
      case False
      then have h: "header_lines b2 q1 = (b', n, q)" using less.prems alt by simp
      have "length b2 - q1 < length b - p" using strtok_r_progress [OF L] b2 by simp
      from less.hyps [OF this h] have ih: "n = content_length_of (tokens LF (cstr_at b2 q1))"
        "q1 \<le> q" "length b' = length b2" "drop q b' = drop q b2" by simp_all
      have "drop q xs = drop (q - q1) (drop q1 xs)" for xs :: string using ih(2) by simp
      then have "drop q b2 = drop q b" using b2(2) by metis
      with ih b2 pq lines content_length_of_skip [OF False] show ?thesis by simp
    qed
  qed
qed

text \<open>What the whole parser returns, without the buffer it leaves behind.\<close>

definition parse_result ::
  "('e, string \<times> 'r option) outcome \<Rightarrow> ('e, 'r option) outcome" where
  "parse_result r = (case r of Ret (b, x) \<Rightarrow> Ret x | Throw e \<Rightarrow> Throw e | Blocked \<Rightarrow> Blocked | Undefined \<Rightarrow> Undefined)"

lemma parse_result_simps [simp]:
  "parse_result (Ret (b, x)) = Ret x" "parse_result (Throw e) = Throw e"
  "parse_result Blocked = Blocked" "parse_result Undefined = Undefined"
  by (simp_all add: parse_result_def)

lemma parse_header_reference:
  "parse_result (parse_header b) = parse_request (cstr_at b 0)"
proof -
  obtain b1 ol q where L0: "strtok_r LF b 0 = (b1, ol, q)" by (cases "strtok_r LF b 0") auto
  show ?thesis
  proof (cases ol)
    case None
    with L0 show ?thesis
      using strtok_r_tokens(1) [of LF b 0 b1 q] by (simp add: parse_header_def parse_request_def)
  next
    case (Some line)
    note L = L0 [unfolded Some]
    obtain b2 om wq where W0: "strtok_r SPC b1 line = (b2, om, wq)" by (cases "strtok_r SPC b1 line") auto
    show ?thesis
    proof (cases om)
      case None
      with W0 L show ?thesis using strtok_r_tokens(1) [of SPC b1 line b2 wq] strtok_r_tokens(2) [OF L]
        by (simp add: parse_header_def parse_request_def)
    next
      case (Some m)
      note W = W0 [unfolded Some]
      obtain b3 oo vq where V0: "strtok_r SPC b2 wq = (b3, oo, vq)" by (cases "strtok_r SPC b2 wq") auto
      show ?thesis
      proof (cases oo)
        case None
        with V0 L W show ?thesis
          using strtok_r_tokens(1) [of SPC b2 wq b3 vq] strtok_r_tokens(2) [OF W] strtok_r_tokens(2) [OF L]
          by (simp add: parse_header_def parse_request_def)
      next
        case (Some opn)
        note V = V0 [unfolded Some]
        note vl = second_word_in_line [OF L W V]
        obtain b4 n r where H: "header_lines b3 q = (b4, n, r)" by (cases "header_lines b3 q") auto
        from vl tokens_behind [OF L vl(1)] strtok_r_tokens(2) [OF W] strtok_r_tokens(2) [OF V]
          header_lines_correct [OF H] L W V H show ?thesis
          by (auto simp: parse_header_def parse_request_def split: outcome.splits prod.splits)
      qed
    qed
  qed
qed

text \<open>
  C24: the header parser that cuts the received bytes in place with \<open>strtok_r\<close> computes what the
  reference parser computes on the lines and words of the unmodified text: the operation, the
  request type, the content length, the 400 exception, or no result for a request line of fewer
  than two words.
\<close>

theorem parse_header_refines:
  "parse_result (parse_header b) = parse_request (cstr_at b 0)"
  by (rule parse_header_reference)

section \<open>The body behind the header\<close>

text \<open>
  Where the header text ends in a newline and holds a content-length line, the loop stops inside
  the header.
\<close>

lemma header_lines_stops:
  assumes "header_lines b p = (b', n, q)" "drop p b = R @ Y" "is_cstring R" "R \<noteq> [] \<Longrightarrow> last R = LF"
    and "\<exists>l \<in> set (tokens LF R). content_length_line l"
  shows "q \<le> p + length R"
  using assms
proof (induction "length b - p" arbitrary: b p R b' n q rule: less_induct)
  case less
  have "next_tok LF R \<noteq> None"
    using less.prems(5) tokens.simps [of LF R] by (auto split: option.splits)
  then obtain t r where nt: "next_tok LF R = Some (t, r)" by auto
  then have Rne: "R \<noteq> []" by (auto simp: next_tok_def)
  with less.prems(4) have last: "last R = LF" by simp
  from strtok_r_inside [OF LF_SPC_not_NUL(1) less.prems(2,3) last nt]
  obtain b1 line q1 where L: "strtok_r LF b p = (b1, Some line, q1)" and t: "cstr_at b1 line = t"
    and r: "drop q1 b = r @ Y" "q1 + length r = p + length R" by metis
  obtain b2 where b2: "length b2 = length b" "drop q1 b2 = drop q1 b"
    and alt: "if content_length_line t then header_lines b p = (b2, atoi (tokens SPC t ! 1), q1)
         else header_lines b p = header_lines b2 q1"
    using header_lines_step [OF L] t by blast
  show ?case
  proof (cases "content_length_line t")
    case True
    with alt less.prems(1) r show ?thesis by simp
  next
    case False
    have toks: "tokens LF R = t # tokens LF r" using nt by (subst tokens.simps) simp
    have "length b2 - q1 < length b - p" using strtok_r_progress [OF L] b2 by simp
    moreover have "header_lines b2 q1 = (b', n, q)" using alt False less.prems(1) by simp
    moreover have "drop q1 b2 = r @ Y" using b2 r by simp
    moreover have "is_cstring r"
      using next_tok_token(4) [OF nt] less.prems(3) by (auto simp: is_cstring_def)
    moreover have "r \<noteq> [] \<Longrightarrow> last r = LF" using next_tok_split(2) [OF nt last] by blast
    moreover have "\<exists>l \<in> set (tokens LF r). content_length_line l" using less.prems(5) toks False by auto
    ultimately have "q \<le> q1 + length r" by (rule less.hyps)
    with r show ?thesis by simp
  qed
qed

lemma parse_header_body:
  assumes "parse_header (H @ body @ [NUL]) = Ret (b', Some (op, n, POST))"
    and H: "is_cstring H" "last H = LF" "tokens LF H = l # ls" "\<exists>k \<in> set ls. content_length_line k"
  shows "drop (length H) b' = body @ [NUL]"
proof -
  let ?b = "H @ body @ [NUL]"
  obtain t r where nt: "next_tok LF H = Some (t, r)" and ls: "tokens LF r = ls"
    using H(3) tokens.simps [of LF H] by (auto split: option.splits)
  obtain b1 line q1 where L: "strtok_r LF ?b 0 = (b1, Some line, q1)"
    and q1: "drop q1 ?b = r @ body @ [NUL]" "q1 + length r = length H"
    by (rule strtok_r_inside [OF LF_SPC_not_NUL(1) _ H(1,2) nt, of 0 ?b "body @ [NUL]"]) auto
  from assms(1) L obtain b2 m wq b3 opn vq where W: "strtok_r SPC b1 line = (b2, Some m, wq)"
    and V: "strtok_r SPC b2 wq = (b3, Some opn, vq)"
    by (auto simp: parse_header_def split: prod.splits option.splits)
  obtain b4 k q where K: "header_lines b3 q1 = (b4, k, q)" by (cases "header_lines b3 q1") auto
  have b4: "b' = b4" using assms(1) L W V K
    by (auto simp: parse_header_def split: outcome.splits prod.splits if_splits)
  have b3: "drop q1 b3 = r @ body @ [NUL]" using second_word_in_line(1) [OF L W V] q1 by simp
  have "is_cstring r" using next_tok_token(4) [OF nt] H(1) by (auto simp: is_cstring_def)
  from header_lines_stops [OF K b3 this] next_tok_split(2) [OF nt H(2)] H(4) ls q1(2)
  have q: "q \<le> length H" by auto
  have "drop (length H) b4 = drop (length H - q) (drop q b4)" using q by simp
  also have "\<dots> = drop (length H) b3" using header_lines_correct [OF K] q by simp
  also have "\<dots> = drop (length r) (drop q1 b3)" using q1(2) by (simp add: add.commute)
  also have "\<dots> = body @ [NUL]" using b3 by simp
  finally show ?thesis using b4 by simp
qed

text \<open>
  Parsing never damages the request body. Where the header (ending in a newline) has a
  request line and, behind it, a content-length line, then after \<open>parse_header\<close> has cut the
  buffer in place, the bytes behind the header are the body as it was received, terminator
  included.
\<close>

theorem parse_header_keeps_body:
  assumes "parse_header (H @ body @ [NUL]) = Ret (b', Some (op, n, POST))"
    and H: "is_cstring H" "last H = LF" "tokens LF H = l # ls" "\<exists>k \<in> set ls. content_length_line k"
  shows "drop (length H) b' = body @ [NUL]"
  by (rule parse_header_body [OF assms])

definition sample_header :: string where
  "sample_header = ''POST '' @ SYNC_FINAL @ '' HTTP/1.1'' @ CRLF @ ''Content-Length: 2'' @ CRLF @ CRLF"

theorem parse_header_keeps_body_witness:
  "\<exists>b' n. parse_header (sample_header @ ''{}'' @ [NUL]) = Ret (b', Some (sync_final, n, POST)) \<and>
     drop (length sample_header) b' = ''{}'' @ [NUL]"
proof -
  have "parse_result (parse_header (sample_header @ ''{}'' @ [NUL])) = Ret (Some (sync_final, 2, POST))"
    by code_simp
  then obtain b' where p: "parse_header (sample_header @ ''{}'' @ [NUL]) = Ret (b', Some (sync_final, 2, POST))"
    by (auto simp: parse_result_def split: outcome.splits)
  have t: "tokens LF sample_header = hd (tokens LF sample_header) # tl (tokens LF sample_header)"
    "\<exists>k \<in> set (tl (tokens LF sample_header)). content_length_line k" by code_simp+
  have "is_cstring sample_header" "last sample_header = LF"
    by (simp_all add: sample_header_def operation_texts wire_simps)
  from parse_header_keeps_body [OF p this t] p show ?thesis by blast
qed

section \<open>Receiving\<close>

text \<open>
  One call of \<open>SSL_read (ssl, buf + i, 1024)\<close>: its result, the bytes it stored, and what
  \<open>SSL_has_pending\<close> answers afterwards. \<open>valid_read\<close> is OpenSSL's documented contract: a
  positive result is the number of bytes stored, at most the 1024 asked for; on failure the result
  is 0 or -1 and nothing is stored.
\<close>

record ssl_read =
  bytes :: int
  stored :: string
  pending :: bool

definition valid_read :: "ssl_read \<Rightarrow> bool" where
  "valid_read r \<longleftrightarrow> -1 \<le> bytes r \<and> bytes r \<le> 1024 \<and> int (length (stored r)) = max 0 (bytes r)"

definition SSL_READ_ATTEMPTS :: nat where
  "SSL_READ_ATTEMPTS = 10"

text \<open>
  The end of the function: nothing read gives NULL; otherwise the terminator is written at
  \<open>buf[i]\<close>. \<open>cap\<close> is the size of the last \<open>realloc\<close> and \<open>d\<close> what the reads stored; a
  write at or behind the end of the allocation is undefined.
\<close>

definition finish_read :: "nat \<Rightarrow> u32 \<Rightarrow> string \<Rightarrow> (unit, string option) outcome" where
  "finish_read cap i d =
     (if i < 1 then Ret None
      else let cap' = (if i mod 1024 = 0 then unat (i + 1) else cap)
           in if unat i < cap' then Ret (Some (take (unat i) d @ [NUL])) else Undefined)"

text \<open>
  The loop. \<open>i\<close> is an \<open>unsigned int\<close> to which the signed result is added, and the
  comparison with the \<open>int\<close> content length is unsigned. With no further read to come the
  thread waits in \<open>SSL_read\<close>.
\<close>

fun read_loop :: "int \<Rightarrow> ssl_read list \<Rightarrow> nat \<Rightarrow> u32 \<Rightarrow> string \<Rightarrow> (unit, string option) outcome" where
  "read_loop contentLength [] attempt i d = Blocked"
| "read_loop contentLength (r # rs) attempt i d =
     (let cap = unat (i + 1024); i' = i + word_of_int (bytes r); d' = take (unat i) d @ stored r
      in if cap < unat i + length (stored r) then Undefined
         else if bytes r < 1 \<and> attempt \<ge> SSL_READ_ATTEMPTS then Ret None
         else let attempt' = (if bytes r < 1 then attempt + 1 else attempt)
              in if (i' < word_of_int contentLength \<or> pending r) \<and> bytes r \<noteq> -1
                 then read_loop contentLength rs attempt' i' d'
                 else finish_read cap i' d')"

definition read_incoming_bytes :: "ssl_read list \<Rightarrow> int \<Rightarrow> (unit, string option) outcome" where
  "read_incoming_bytes reads contentLength = read_loop contentLength reads 0 0 []"

text \<open>
  The reads of a request that arrives completely: every read before the last leaves bytes to wait
  for, the last does not, and all of them deliver bytes.
\<close>

fun complete_reads :: "int \<Rightarrow> nat \<Rightarrow> ssl_read list \<Rightarrow> bool" where
  "complete_reads contentLength n [] = False"
| "complete_reads contentLength n [r] \<longleftrightarrow>
     valid_read r \<and> 1 \<le> bytes r \<and> \<not> (int n + bytes r < contentLength \<or> pending r)"
| "complete_reads contentLength n (r # rs) \<longleftrightarrow>
     valid_read r \<and> 1 \<le> bytes r \<and> (int n + bytes r < contentLength \<or> pending r) \<and>
     complete_reads contentLength (n + nat (bytes r)) rs"

definition received :: "ssl_read list \<Rightarrow> string" where
  "received rs = concat (map stored rs)"

text \<open>While the total stays below the 32-bit range, the unsigned counter is the number of bytes.\<close>

lemma count_less_int:
  assumes "n < 2 ^ 32" "0 \<le> cl" "cl < 2 ^ 31"
  shows "(word_of_nat n :: u32) < word_of_int cl \<longleftrightarrow> int n < cl"
proof -
  obtain k where k: "cl = int k" using assms(2) by (rule nonneg_int_cases)
  with assms show ?thesis by (simp add: word_less_nat_alt unat_count)
qed

lemma read_loop_step:
  assumes "valid_read r" "1 \<le> bytes r" "length d = n" "n + length (stored r) + 1024 < 2 ^ 32"
    and "0 \<le> cl" "cl < 2 ^ 31"
  shows "read_loop cl (r # rs) att (word_of_nat n) d =
    (if int n + bytes r < cl \<or> pending r
     then read_loop cl rs att (word_of_nat (n + length (stored r))) (d @ stored r)
     else finish_read (n + 1024) (word_of_nat (n + length (stored r))) (d @ stored r))"
proof -
  let ?m = "length (stored r)"
  have m: "int ?m = bytes r" "?m \<le> 1024" using assms(1,2) by (auto simp: valid_read_def)
  then have b: "(word_of_int (bytes r) :: u32) = word_of_nat ?m" by (metis of_int_of_nat_eq)
  have "unat (word_of_nat (n + 1024) :: u32) = n + 1024" using assms(4) by (intro unat_count) linarith
  then have cap: "unat (word_of_nat n + 1024 :: u32) = n + 1024" by simp
  have n: "unat (word_of_nat n :: u32) = n" using assms(4) by (intro unat_count) linarith
  have sum: "(word_of_nat n :: u32) + word_of_int (bytes r) = word_of_nat (n + ?m)" by (simp add: b)
  have less: "(word_of_nat (n + ?m) :: u32) < word_of_int cl \<longleftrightarrow> int n + bytes r < cl"
    using count_less_int [of "n + ?m" cl] assms(4-6) m by simp
  show ?thesis
    using m assms(2,3) unfolding read_loop.simps Let_def cap n sum less by auto
qed

lemma finish_read_complete:
  assumes "length d = i" "0 < i" "i + 1 < 2 ^ 32" "i \<le> cap"
  shows "finish_read cap (word_of_nat i) d =
    (if i mod 1024 \<noteq> 0 \<and> i = cap then Undefined else Ret (Some (d @ [NUL])))"
proof -
  have u: "unat (word_of_nat i :: u32) = i" using assms(3) by (intro unat_count) linarith
  have u1: "unat (word_of_nat i + 1 :: u32) = i + 1"
    using unat_count [of "i + 1"] assms(3) by (simp add: add.commute)
  have m: "(word_of_nat i :: u32) mod 1024 = 0 \<longleftrightarrow> i mod 1024 = 0"
    by (simp add: word_eq_iff_unsigned unat_mod u flip: unat_eq_0)
  have "\<not> (word_of_nat i :: u32) < 1" using u assms(2) by (simp add: word_less_nat_alt)
  then show ?thesis using assms(1,4) by (auto simp: finish_read_def Let_def u u1 m)
qed

lemma read_loop_complete:
  assumes "complete_reads cl n rs" "length d = n" "0 \<le> cl" "cl < 2 ^ 31"
    and "n + length (received rs) + 1024 < 2 ^ 32"
  shows "read_loop cl rs att (word_of_nat n) d =
    (if (n + length (received rs)) mod 1024 \<noteq> 0 \<and> bytes (last rs) = 1024 then Undefined
     else Ret (Some (d @ received rs @ [NUL])))"
  using assms
proof (induction cl n rs arbitrary: d att rule: complete_reads.induct)
  case (1 cl n)
  then show ?case by simp
next
  case (2 cl n r)
  then have v: "valid_read r" "1 \<le> bytes r" and stop: "\<not> (int n + bytes r < cl \<or> pending r)"
    and len: "n + length (stored r) + 1024 < 2 ^ 32" by (auto simp: received_def)
  have m: "int (length (stored r)) = bytes r" "bytes r \<le> 1024" using v by (auto simp: valid_read_def)
  have "finish_read (n + 1024) (word_of_nat (n + length (stored r))) (d @ stored r) =
      (if (n + length (stored r)) mod 1024 \<noteq> 0 \<and> n + length (stored r) = n + 1024 then Undefined
       else Ret (Some ((d @ stored r) @ [NUL])))"
    using len m v(2) "2.prems"(2) by (intro finish_read_complete) auto
  with read_loop_step [OF v "2.prems"(2) len "2.prems"(3,4), of "[]" att] stop m show ?case
    by (auto simp: received_def simp del: read_loop.simps)
next
  case (3 cl n r r' rs)
  let ?rs = "r' # rs"
  have v: "valid_read r" "1 \<le> bytes r" and go: "int n + bytes r < cl \<or> pending r"
    and len: "n + length (stored r) + 1024 < 2 ^ 32" using "3.prems" by (auto simp: received_def)
  have m: "nat (bytes r) = length (stored r)" using v by (auto simp: valid_read_def)
  have "read_loop cl ?rs att (word_of_nat (n + length (stored r))) (d @ stored r) =
    (if (n + length (stored r) + length (received ?rs)) mod 1024 \<noteq> 0 \<and> bytes (last ?rs) = 1024 then Undefined
     else Ret (Some ((d @ stored r) @ received ?rs @ [NUL])))"
    using "3.prems" m unfolding m [symmetric]
    by (intro "3.IH") (auto simp: received_def m)
  with read_loop_step [OF v "3.prems"(2) len "3.prems"(3,4), of ?rs att] go show ?case
    by (simp add: received_def add.assoc del: read_loop.simps)
qed

lemma read_bytes_complete:
  assumes "complete_reads contentLength 0 rs" "0 \<le> contentLength" "contentLength < 2 ^ 31"
    and "length (received rs) + 1024 < 2 ^ 32"
  shows "read_incoming_bytes rs contentLength =
    (if length (received rs) mod 1024 \<noteq> 0 \<and> bytes (last rs) = 1024 then Undefined
     else Ret (Some (received rs @ [NUL])))"
  using read_loop_complete [OF assms(1) list.size(3) assms(2,3), of 0] assms(4)
  by (simp add: read_incoming_bytes_def)

text \<open>
  C25: a request that arrives completely is returned byte for byte with its terminator, except
  when the last \<open>SSL_read\<close> fills its 1024 bytes and the total is not a multiple of 1024: the
  terminator is then written one byte behind the allocation. (The code tests the total against
  1024; after a shorter earlier read the allocation ends elsewhere.)
\<close>

theorem read_incoming_bytes_complete:
  assumes "complete_reads contentLength 0 rs" "0 \<le> contentLength" "contentLength < 2 ^ 31"
    and "length (received rs) + 1024 < 2 ^ 32"
  shows "read_incoming_bytes rs contentLength =
    (if length (received rs) mod 1024 \<noteq> 0 \<and> bytes (last rs) = 1024 then Undefined
     else Ret (Some (received rs @ [NUL])))"
  by (rule read_bytes_complete [OF assms])

definition read_of :: "string \<Rightarrow> bool \<Rightarrow> ssl_read" where
  "read_of s p = \<lparr>bytes = int (length s), stored = s, pending = p\<rparr>"

theorem read_incoming_bytes_complete_witness:
  "read_incoming_bytes [read_of ''GE'' True, read_of ''T'' False] 0 = Ret (Some (''GET'' @ [NUL])) \<and>
   read_incoming_bytes [read_of ''GET'' True, read_of (replicate 1024 SPC) False] 0 = Undefined"
  using read_incoming_bytes_complete [of 0 "[read_of ''GE'' True, read_of ''T'' False]"]
    read_incoming_bytes_complete [of 0 "[read_of ''GET'' True, read_of (replicate 1024 SPC) False]"]
  by (simp add: read_of_def valid_read_def received_def)

text \<open>
  A first \<open>SSL_read\<close> that fails with -1 (the client sent nothing before the socket's
  time-out, or the connection broke) runs into undefined behaviour, whatever follows: the unsigned
  counter wraps from 0 to the largest value, is not below 1, and the terminator goes to that index.
\<close>

theorem read_incoming_bytes_first_error:
  assumes "valid_read r" "bytes r = -1"
  shows "read_incoming_bytes (r # rs) contentLength = Undefined"
proof -
  have "stored r = []" using assms by (simp add: valid_read_def)
  with assms(2) show ?thesis
    by (simp add: read_incoming_bytes_def finish_read_def SSL_READ_ATTEMPTS_def Let_def
      unsigned_minus_1_eq_mask mask_eq_exp_minus_1)
qed

theorem read_incoming_bytes_first_error_witness:
  "read_incoming_bytes [\<lparr>bytes = -1, stored = [], pending = False\<rparr>] 0 = Undefined"
  by (rule read_incoming_bytes_first_error) (simp_all add: valid_read_def)

end
