(* ===== verification/Maps.thy ===== *)
theory Maps
  imports Prelude
begin

text \<open>
  \<open>std::map<char *, V, cmp_key>\<close>: the map keyed by C strings that holds the registered users
  (\<open>user_infos\<close>) and the accounts of one user. \<open>cmp_key\<close> orders keys with \<open>strcmp\<close>, so
  a key is its text, and iteration goes through the keys in the order of their bytes. The locale
  \<open>cpp_map\<close> is the interface its clients use; the model behind it is a list of pairs sorted by
  key, and the interpretation \<open>smap\<close> proves the laws for it.
\<close>

section \<open>The interface\<close>

locale cpp_map =
  fixes empty :: "'m"
    and lookup :: "'m \<Rightarrow> string \<Rightarrow> 'v option"
    and emplace :: "string \<Rightarrow> 'v \<Rightarrow> 'm \<Rightarrow> 'm"
    and assign :: "string \<Rightarrow> 'v \<Rightarrow> 'm \<Rightarrow> 'm"
    and erase :: "string \<Rightarrow> 'm \<Rightarrow> 'm"
    and entries :: "'m \<Rightarrow> (string \<times> 'v) list"
    and inv :: "'m \<Rightarrow> bool"
  assumes inv_empty: "inv empty"
    and inv_emplace: "inv m \<Longrightarrow> inv (emplace k v m)"
    and inv_assign: "inv m \<Longrightarrow> inv (assign k v m)"
    and inv_erase: "inv m \<Longrightarrow> inv (erase k m)"
    and lookup_empty: "lookup empty k = None"
    and lookup_emplace: "inv m \<Longrightarrow>
      lookup (emplace k v m) k' = (if k' = k \<and> lookup m k = None then Some v else lookup m k')"
    and lookup_assign: "inv m \<Longrightarrow> lookup (assign k v m) k' = (if k' = k then Some v else lookup m k')"
    and lookup_erase: "inv m \<Longrightarrow> lookup (erase k m) k' = (if k' = k then None else lookup m k')"
    and map_of_entries: "inv m \<Longrightarrow> map_of (entries m) = lookup m"
    and distinct_entries: "inv m \<Longrightarrow> distinct (map fst (entries m))"
    and sorted_entries: "inv m \<Longrightarrow> sorted (map fst (entries m))"
begin

lemmas invs = inv_empty inv_emplace inv_assign inv_erase

lemmas lookups = lookup_empty lookup_emplace lookup_assign lookup_erase

lemma entries_iff: "inv m \<Longrightarrow> (k, v) \<in> set (entries m) \<longleftrightarrow> lookup m k = Some v"
  using map_of_entries [of m] distinct_entries [of m] by (metis map_of_eq_Some_iff)

lemma inv_erase_all: "inv m \<Longrightarrow> inv (fold erase ks m)"
  by (induction ks arbitrary: m) (simp_all add: inv_erase)

lemma lookup_erase_all:
  "inv m \<Longrightarrow> lookup (fold erase ks m) k = (if k \<in> set ks then None else lookup m k)"
  by (induction ks arbitrary: m) (auto simp: inv_erase lookup_erase)

text \<open>Filling a map with \<open>emplace\<close> keeps the first entry of each key.\<close>

lemma inv_emplace_all: "inv m \<Longrightarrow> inv (fold (\<lambda>(k, v). emplace k v) kvs m)"
  by (induction kvs arbitrary: m) (auto simp: inv_emplace)

lemma lookup_emplace_all:
  "inv m \<Longrightarrow> lookup (fold (\<lambda>(k, v). emplace k v) kvs m) k =
     (case lookup m k of None \<Rightarrow> map_of kvs k | Some v \<Rightarrow> Some v)"
  by (induction kvs arbitrary: m) (auto simp: inv_emplace lookup_emplace split: option.splits)

text \<open>Two maps with the same lookups list the same entries.\<close>

lemma entries_determined:
  assumes "inv m" "inv m'" "\<And>k. lookup m k = lookup m' k"
  shows "entries m = entries m'"
proof (rule map_sorted_distinct_set_unique [where f = fst])
  show "set (entries m) = set (entries m')"
    using assms entries_iff by (metis (no_types, lifting) subrelI subset_antisym)
  then show "inj_on fst (set (entries m) \<union> set (entries m'))"
    using distinct_entries [OF assms(1)] by (simp add: distinct_map)
qed (use assms distinct_entries sorted_entries in auto)

end

section \<open>The model: a list of pairs sorted by key\<close>

type_synonym 'v smap = "(string \<times> 'v) list"

definition smap_inv :: "'v smap \<Rightarrow> bool" where
  "smap_inv m \<longleftrightarrow> sorted_wrt (<) (map fst m)"

fun map_assign :: "string \<Rightarrow> 'v \<Rightarrow> 'v smap \<Rightarrow> 'v smap" where
  "map_assign k v [] = [(k, v)]"
| "map_assign k v ((k', v') # m) =
     (if k < k' then (k, v) # (k', v') # m
      else if k = k' then (k, v) # m
      else (k', v') # map_assign k v m)"

definition map_emplace :: "string \<Rightarrow> 'v \<Rightarrow> 'v smap \<Rightarrow> 'v smap" where
  "map_emplace k v m = (if map_of m k = None then map_assign k v m else m)"

definition map_erase :: "string \<Rightarrow> 'v smap \<Rightarrow> 'v smap" where
  "map_erase k m = filter (\<lambda>(k', v). k' \<noteq> k) m"

lemma map_of_assign: "map_of (map_assign k v m) k' = (if k' = k then Some v else map_of m k')"
  by (induction k v m rule: map_assign.induct) auto

lemma keys_assign: "fst ` set (map_assign k v m) = insert k (fst ` set m)"
  by (induction k v m rule: map_assign.induct) auto

lemma smap_inv_assign: "smap_inv m \<Longrightarrow> smap_inv (map_assign k v m)"
  by (induction k v m rule: map_assign.induct) (auto simp: smap_inv_def keys_assign)

lemma map_of_erase: "map_of (map_erase k m) k' = (if k' = k then None else map_of m k')"
  by (induction m) (auto simp: map_erase_def)

interpretation smap: cpp_map "[]" map_of map_emplace map_assign map_erase "\<lambda>m. m" smap_inv
proof unfold_locales
  fix m :: "'v smap" and k k' :: string and v :: 'v
  show "smap_inv ([] :: 'v smap)" by (simp add: smap_inv_def)
  show "map_of ([] :: 'v smap) k = None" by simp
  assume m: "smap_inv m"
  show "smap_inv (map_assign k v m)" using m by (rule smap_inv_assign)
  then show "smap_inv (map_emplace k v m)" using m by (simp add: map_emplace_def)
  show "smap_inv (map_erase k m)"
    using m by (simp add: smap_inv_def map_erase_def sorted_wrt_map sorted_wrt_filter)
  show "map_of (map_emplace k v m) k' = (if k' = k \<and> map_of m k = None then Some v else map_of m k')"
    by (simp add: map_emplace_def map_of_assign)
  show "map_of (map_assign k v m) k' = (if k' = k then Some v else map_of m k')"
    by (rule map_of_assign)
  show "map_of (map_erase k m) k' = (if k' = k then None else map_of m k')"
    by (rule map_of_erase)
  show "map_of m = map_of m" ..
  show "distinct (map fst m)" using m by (simp add: smap_inv_def strict_sorted_iff)
  show "sorted (map fst m)" using m by (simp add: smap_inv_def strict_sorted_iff)
qed

text \<open>\<open>count\<close> of a key, as the sources test it: \<open>count (k) > 0\<close>, \<open>count (k) < 1\<close>.\<close>

definition map_count :: "string \<Rightarrow> 'v smap \<Rightarrow> nat" where
  "map_count k m = (if map_of m k = None then 0 else 1)"

end
