(* ===== verification/ConfigFile.thy ===== *)
theory ConfigFile
  imports CStrings
begin

text \<open>
  \<open>Config\<close>: the settings, their defaults, and the reader of the configuration file. A field
  the constructor does not initialise and the file does not set, \<open>storeType\<close>, is None: its
  value in the program is indeterminate. The file is the string of its bytes; \<open>fgets\<close> cuts it
  into lines of at most 1022 bytes.
\<close>

section \<open>The settings\<close>

datatype store_type = postgres_store | redis_store

record config =
  bind_address :: string
  bind_port :: int
  service_threads :: int
  max_service_threads :: int
  ssl_enabled :: bool
  server_cert :: string
  server_key :: string
  server_max_connections :: int
  server_keep_alive :: int
  server_use_keep_alive_cleaner :: bool
  server_tcp_back_log :: int
  max_account_pending_ops :: int
  db_server :: string
  db_port :: string
  db_password :: string
  db_username :: string
  db_name :: string
  db_min_connections :: int
  db_max_connections :: int
  db_cleaner :: bool
  db_cleaner_interval :: int
  db_cleaner_purge_days :: int
  db_cleaner_history_purge_days :: int
  redis_server :: string
  redis_port :: int
  redis_username :: string
  redis_password :: string
  redis_min_connections :: int
  redis_max_connections :: int
  redis_cleaner :: bool
  redis_cleaner_interval :: int
  redis_cleaner_purge_days :: int
  redis_cleaner_history_purge_days :: int
  storeType :: "store_type option"

definition default_config :: config where
  "default_config = \<lparr>
     bind_address = ''ALL'',
     bind_port = 9999,
     service_threads = 10,
     max_service_threads = 10,
     ssl_enabled = True,
     server_cert = ''cert.pem'',
     server_key = ''key.pem'',
     server_max_connections = 200,
     server_keep_alive = 30,
     server_use_keep_alive_cleaner = False,
     server_tcp_back_log = 100,
     max_account_pending_ops = 3,
     db_server = ''localhost'',
     db_port = ''5432'',
     db_password = ''password'',
     db_username = ''user'',
     db_name = ''passvault'',
     db_min_connections = 10,
     db_max_connections = 100,
     db_cleaner = True,
     db_cleaner_interval = 1,
     db_cleaner_purge_days = 30,
     db_cleaner_history_purge_days = 30,
     redis_server = ''redis'',
     redis_port = 6379,
     redis_username = ''redis'',
     redis_password = ''redis'',
     redis_min_connections = 10,
     redis_max_connections = 200,
     redis_cleaner = True,
     redis_cleaner_interval = 1,
     redis_cleaner_purge_days = 30,
     redis_cleaner_history_purge_days = 30,
     storeType = None\<rparr>"

section \<open>One assignment\<close>

definition known_keys :: "string list" where
  "known_keys =
    [''bind_address'', ''bind_port'', ''service_threads'',
     ''max_service_threads'', ''ssl'', ''server_cert'',
     ''server_key'', ''db_server'', ''db_port'',
     ''db_password'', ''db_username'', ''db_name'',
     ''db_cleaner'', ''db_cleaner_interval'', ''db_cleaner_purge_days'',
     ''db_cleaner_history_purge_days'', ''server_max_connections'', ''server_keep_alive'',
     ''server_use_keep_alive_cleaner'', ''server_tcp_back_log'', ''max_account_pending_ops'',
     ''db_max_connections'', ''db_min_connections'', ''redis_server'',
     ''redis_port'', ''redis_username'', ''redis_password'',
     ''redis_min_connections'', ''redis_max_connections'', ''redis_cleaner'',
     ''redis_cleaner_interval'', ''redis_cleaner_purge_days'', ''redis_cleaner_history_purge_days'']"

definition set_known :: "config \<Rightarrow> string \<Rightarrow> string \<Rightarrow> config" where
  "set_known c key v =
     (if key = ''bind_address'' then c\<lparr>bind_address := v\<rparr>
      else if key = ''bind_port'' then c\<lparr>bind_port := atoi v\<rparr>
      else if key = ''service_threads'' then c\<lparr>service_threads := atoi v\<rparr>
      else if key = ''max_service_threads'' then c\<lparr>max_service_threads := atoi v\<rparr>
      else if key = ''ssl'' then c\<lparr>ssl_enabled := (v = ''true'')\<rparr>
      else if key = ''server_cert'' then c\<lparr>server_cert := v\<rparr>
      else if key = ''server_key'' then c\<lparr>server_key := v\<rparr>
      else if key = ''db_server'' then c\<lparr>db_server := v, storeType := Some postgres_store\<rparr>
      else if key = ''db_port'' then c\<lparr>db_port := v\<rparr>
      else if key = ''db_password'' then c\<lparr>db_password := v\<rparr>
      else if key = ''db_username'' then c\<lparr>db_username := v\<rparr>
      else if key = ''db_name'' then c\<lparr>db_name := v\<rparr>
      else if key = ''db_cleaner'' then c\<lparr>db_cleaner := (v = ''true'')\<rparr>
      else if key = ''db_cleaner_interval'' then c\<lparr>db_cleaner_interval := atoi v\<rparr>
      else if key = ''db_cleaner_purge_days'' then c\<lparr>db_cleaner_purge_days := atoi v\<rparr>
      else if key = ''db_cleaner_history_purge_days'' then c\<lparr>db_cleaner_history_purge_days := atoi v\<rparr>
      else if key = ''server_max_connections'' then c\<lparr>server_max_connections := atoi v\<rparr>
      else if key = ''server_keep_alive'' then c\<lparr>server_keep_alive := atoi v\<rparr>
      else if key = ''server_use_keep_alive_cleaner'' then c\<lparr>server_use_keep_alive_cleaner := (v = ''true'')\<rparr>
      else if key = ''server_tcp_back_log'' then c\<lparr>server_tcp_back_log := atoi v\<rparr>
      else if key = ''max_account_pending_ops'' then c\<lparr>max_account_pending_ops := atoi v\<rparr>
      else if key = ''db_max_connections'' then c\<lparr>db_max_connections := atoi v\<rparr>
      else if key = ''db_min_connections'' then c\<lparr>db_min_connections := atoi v\<rparr>
      else if key = ''redis_server'' then c\<lparr>redis_server := v, storeType := Some redis_store\<rparr>
      else if key = ''redis_port'' then c\<lparr>redis_port := atoi v\<rparr>
      else if key = ''redis_username'' then c\<lparr>redis_username := v\<rparr>
      else if key = ''redis_password'' then c\<lparr>redis_password := v\<rparr>
      else if key = ''redis_min_connections'' then c\<lparr>redis_min_connections := atoi v\<rparr>
      else if key = ''redis_max_connections'' then c\<lparr>redis_max_connections := atoi v\<rparr>
      else if key = ''redis_cleaner'' then c\<lparr>redis_cleaner := (v = ''true'')\<rparr>
      else if key = ''redis_cleaner_interval'' then c\<lparr>redis_cleaner_interval := atoi v\<rparr>
      else if key = ''redis_cleaner_purge_days'' then c\<lparr>redis_cleaner_purge_days := atoi v\<rparr>
      else if key = ''redis_cleaner_history_purge_days'' then c\<lparr>redis_cleaner_history_purge_days := atoi v\<rparr>
      else c)"

text \<open>
  \<open>setKeyValue\<close> with a null value: a branch that matches passes the null pointer to
  \<open>std::string\<close>, \<open>atoi\<close> or \<open>strcmp\<close>; a key no branch matches leaves it alone.
\<close>

definition setKeyValue :: "config \<Rightarrow> string \<Rightarrow> string option \<Rightarrow> (unit, config) outcome" where
  "setKeyValue c key v =
     (case v of
        Some v' \<Rightarrow> Ret (set_known c key v')
      | None \<Rightarrow> if key \<in> set known_keys then Undefined else Ret c)"

section \<open>Reading the file\<close>

text \<open>\<open>fgets\<close> into a buffer that takes \<open>n\<close> characters.\<close>

fun fgets_line :: "nat \<Rightarrow> string \<Rightarrow> string" where
  "fgets_line 0 s = []"
| "fgets_line (Suc n) [] = []"
| "fgets_line (Suc n) (c # cs) = (if c = LF then [c] else c # fgets_line n cs)"

lemma fgets_line_progress: "s \<noteq> [] \<Longrightarrow> 0 < n \<Longrightarrow> fgets_line n s \<noteq> []"
  by (cases n; cases s) auto

function fgets_all :: "string \<Rightarrow> string list" where
  "fgets_all s =
     (if s = [] then []
      else fgets_line 1022 s # fgets_all (drop (length (fgets_line 1022 s)) s))"
  by pat_completeness auto
termination
  by (relation "measure length") (auto simp: fgets_line_progress)

declare fgets_all.simps [simp del]

text \<open>
  The body of the loop: \<open>strtok (line, "=")\<close> is the key, \<open>strtok (NULL, "\n")\<close> what follows
  it up to the end of the line.
\<close>

definition process_line :: "config \<Rightarrow> string \<Rightarrow> (unit, config) outcome" where
  "process_line c line =
     (if strstr line ''='' = None then Ret c
      else case next_tok CHR ''='' line of
             None \<Rightarrow> Ret c
           | Some (key, rest) \<Rightarrow> setKeyValue c key (map_option fst (next_tok LF rest)))"

fun process_lines :: "config \<Rightarrow> string list \<Rightarrow> (unit, config) outcome" where
  "process_lines c [] = Ret c"
| "process_lines c (l # ls) =
     (case process_line c l of Ret c' \<Rightarrow> process_lines c' ls | r \<Rightarrow> r)"

text \<open>The constructor; a file that cannot be opened leaves the defaults.\<close>

definition Config :: "string option \<Rightarrow> (unit, config) outcome" where
  "Config file =
     (case file of
        None \<Rightarrow> Ret default_config
      | Some content \<Rightarrow> process_lines default_config (fgets_all content))"

section \<open>Files as lists of lines\<close>

text \<open>
  The abstract view: a file is a list of assignments and of lines without \<open>=\<close>. A comment that
  holds an \<open>=\<close> is an assignment to a key no branch matches.
\<close>

datatype config_line = Assign string string | Other string

fun render_line :: "config_line \<Rightarrow> string" where
  "render_line (Assign k v) = k @ CHR ''='' # v @ [LF]"
| "render_line (Other l) = l @ [LF]"

fun wf_line :: "config_line \<Rightarrow> bool" where
  "wf_line (Assign k v) \<longleftrightarrow> k \<noteq> [] \<and> v \<noteq> [] \<and> CHR ''='' \<notin> set k \<and> LF \<notin> set k \<and> LF \<notin> set v \<and>
     is_cstring k \<and> is_cstring v \<and> length k + length v + 2 \<le> 1022"
| "wf_line (Other l) \<longleftrightarrow> CHR ''='' \<notin> set l \<and> LF \<notin> set l \<and> is_cstring l \<and> length l + 1 \<le> 1022"

fun apply_line :: "config_line \<Rightarrow> config \<Rightarrow> config" where
  "apply_line (Assign k v) c = set_known c k v"
| "apply_line (Other l) c = c"

lemma fgets_line_LF:
  "LF \<notin> set l \<Longrightarrow> length l < n \<Longrightarrow> fgets_line n (l @ LF # s) = l @ [LF]"
  by (induction n l rule: fgets_line.induct) auto

lemma fgets_all_LF:
  assumes "LF \<notin> set l" "length l + 1 \<le> 1022"
  shows "fgets_all (l @ LF # s) = (l @ [LF]) # fgets_all s"
  using fgets_line_LF [of l 1022 s] assms by (subst fgets_all.simps) simp

lemma fgets_all_render:
  assumes "wf_line l"
  shows "fgets_all (render_line l @ s) = render_line l # fgets_all s"
proof (cases l)
  case (Assign k v)
  with assms show ?thesis using fgets_all_LF [of "k @ CHR ''='' # v" s] by simp
next
  case (Other x)
  with assms show ?thesis using fgets_all_LF [of x s] by simp
qed

lemma next_tok_value: "v \<noteq> [] \<Longrightarrow> LF \<notin> set v \<Longrightarrow> next_tok LF (v @ [LF]) = Some (v, [])"
  using next_tok_front(1) [of v LF "[]"] by simp

lemma process_render:
  assumes "wf_line l"
  shows "process_line c (render_line l) = Ret (apply_line l c)"
proof (cases l)
  case (Assign k v)
  with assms show ?thesis
    using next_tok_front(1) [of k "CHR ''=''" "v @ [LF]"] next_tok_value [of v]
    by (simp add: process_line_def strstr_char setKeyValue_def)
next
  case (Other x)
  with assms show ?thesis by (simp add: process_line_def strstr_char)
qed

lemma process_lines_render:
  "list_all wf_line ls \<Longrightarrow>
    process_lines c (fgets_all (concat (map render_line ls))) = Ret (fold apply_line ls c)"
proof (induction ls arbitrary: c)
  case Nil
  then show ?case by (simp add: fgets_all.simps)
next
  case (Cons l ls)
  then show ?case by (simp add: fgets_all_render process_render)
qed

lemma set_known_unknown: "key \<notin> set known_keys \<Longrightarrow> set_known c key v = c"
  by (simp add: set_known_def known_keys_def)

lemma storeType_set_known:
  "storeType (set_known c key v) =
     (if key = ''db_server'' then Some postgres_store
      else if key = ''redis_server'' then Some redis_store else storeType c)"
  by (simp add: set_known_def)

text \<open>The store a file selects: the one of its last \<open>db_server\<close> or \<open>redis_server\<close> line.\<close>

fun selects :: "config_line \<Rightarrow> store_type option" where
  "selects (Assign k v) =
     (if k = ''db_server'' then Some postgres_store
      else if k = ''redis_server'' then Some redis_store else None)"
| "selects (Other l) = None"

lemma storeType_fold:
  "storeType (fold apply_line ls c) =
     (case List.map_filter selects ls of [] \<Rightarrow> storeType c | ts \<Rightarrow> Some (last ts))"
proof (induction ls arbitrary: c)
  case Nil
  then show ?case by (simp add: map_filter_simps)
next
  case (Cons l ls)
  have "storeType (apply_line l c) = (case selects l of None \<Rightarrow> storeType c | Some t \<Rightarrow> Some t)"
    by (cases l) (simp_all add: storeType_set_known)
  with Cons.IH [of "apply_line l c"] show ?case
    by (auto simp: map_filter_simps split: option.splits list.splits)
qed

text \<open>
  C35: reading a configuration file is the left-to-right application of its assignments to the
  defaults: each well-formed line (at most 1022 bytes, a non-empty value) is taken whole, comments
  and lines without an equals sign change nothing, and no other branch is reached.
\<close>

theorem Config_applies_lines:
  assumes "list_all wf_line ls"
  shows "Config (Some (concat (map render_line ls))) = Ret (fold apply_line ls default_config)"
  using process_lines_render [OF assms] by (simp add: Config_def)

theorem Config_applies_lines_witness:
  "Config (Some (''#bind_port=1'' @ [LF] @ ''bind_port=8443'' @ [LF, LF])) =
     Ret (default_config\<lparr>bind_port := 8443\<rparr>)"
proof -
  have w: "list_all wf_line [Assign ''#bind_port'' ''1'', Assign ''bind_port'' ''8443'', Other []]"
    by simp
  have v: "atoi ''8443'' = 8443"
    by (simp add: atoi_def atol_def is_space_def is_digit_def digit_val_def clamp_long_def)
  from Config_applies_lines [OF w] v show ?thesis by (simp add: set_known_def)
qed

text \<open>
  The store type after start-up is the one of the last \<open>db_server\<close> or \<open>redis_server\<close>
  line; a file with neither leaves it indeterminate, whatever else it sets, although every other
  setting then has its default.
\<close>

theorem Config_store_type:
  assumes "list_all wf_line ls" "Config (Some (concat (map render_line ls))) = Ret c"
  shows "storeType c = (case List.map_filter selects ls of [] \<Rightarrow> None | ts \<Rightarrow> Some (last ts))"
  using process_lines_render [OF assms(1), of default_config] assms(2)
  by (auto simp: Config_def storeType_fold default_config_def split: list.splits)

theorem Config_store_type_witness:
  "storeType (fold apply_line [Assign ''db_port'' ''1''] default_config) = None \<and>
   storeType (fold apply_line [Assign ''db_server'' ''a'', Assign ''redis_server'' ''b''] default_config)
     = Some redis_store"
proof -
  have w: "list_all wf_line [Assign ''db_port'' ''1'']"
    "list_all wf_line [Assign ''db_server'' ''a'', Assign ''redis_server'' ''b'']" by simp_all
  show ?thesis
    using Config_store_type [OF w(1)] Config_store_type [OF w(2)]
      process_lines_render [OF w(1), of default_config] process_lines_render [OF w(2), of default_config]
    by (simp add: Config_def map_filter_simps)
qed

end
