(* ===== verification/DataStore.thy ===== *)
theory DataStore
  imports Maps ConfigFile
begin

text \<open>
  \<open>IDataStore.h\<close> and the data types of \<open>Config.h\<close>: users, accounts, the virtual
  operations of a data store as a record of functions (the vtable), the chained heap that account
  strings are copied to, the thread that shrinks the connection pool, and the schedule of the data
  cleaner. The operations may throw a C string, so each returns an outcome with the new state.
\<close>

section \<open>Data\<close>

record account =
  account_name :: string
  account_uuid :: string
  user_name :: string
  password :: string
  old_password :: string
  url :: string
  update_time :: int
  deleted :: bool

record User =
  User_uuid :: string
  User_password :: string
  User_last_sync :: int

record User_info =
  user :: User
  lock_time :: int
  cv_vector :: "nat list"

type_synonym ('s, 'a) store_op = "'s \<Rightarrow> (string, 'a) outcome \<times> 's"

record 's IDataStore =
  getAllUsers :: "('s, User list) store_op"
  createUser :: "User \<Rightarrow> ('s, bool) store_op"
  delete_user_op :: "User \<Rightarrow> ('s, bool) store_op"
  get_accounts_for_user :: "string \<Rightarrow> ('s, account smap) store_op"
  upsert_accounts_for_user :: "string \<Rightarrow> account list \<Rightarrow> ('s, bool) store_op"
  update_last_sync_for_user :: "string \<Rightarrow> int \<Rightarrow> ('s, bool) store_op"

text \<open>Going on after a call that returned; anything else ends the caller as well.\<close>

definition seq_op :: "(string, 'a) outcome \<times> 's \<Rightarrow> ('a \<Rightarrow> ('s, 'b) store_op) \<Rightarrow> (string, 'b) outcome \<times> 's" where
  "seq_op r k =
     (case r of
        (Ret x, s) \<Rightarrow> k x s
      | (Throw e, s) \<Rightarrow> (Throw e, s)
      | (Blocked, s) \<Rightarrow> (Blocked, s)
      | (Undefined, s) \<Rightarrow> (Undefined, s))"

lemma seq_op_simps [simp]:
  "seq_op (Ret x, s) k = k x s"
  "seq_op (Throw e, s) k = (Throw e, s)"
  "seq_op (Blocked, s) k = (Blocked, s)"
  "seq_op (Undefined, s) k = (Undefined, s)"
  by (simp_all add: seq_op_def)

section \<open>The chained heap of account strings\<close>

text \<open>
  \<open>Heap_List\<close>: the sizes of its nodes, the current (last) one first, with the bytes \<open>sz\<close>
  that the code believes the current node to have and the next free index in it.
\<close>

record heap_list =
  nodes :: "nat list"
  sz :: u32
  indx :: u32

definition increase_list_buffer :: "u32 \<Rightarrow> heap_list \<Rightarrow> heap_list" where
  "increase_list_buffer needed h =
     (if needed + 20 > sz h - indx h
      then h\<lparr>nodes := 1024 # nodes h, sz := 1024, indx := 0\<rparr>
      else h)"

text \<open>\<open>strcpy (&heap[indx], val[j]); indx += len[j] + 1;\<close> for each string of a row.\<close>

fun copy_strings :: "string list \<Rightarrow> heap_list \<Rightarrow> (unit, heap_list) outcome" where
  "copy_strings [] h = Ret h"
| "copy_strings (s # ss) h =
     (case nodes h of
        [] \<Rightarrow> Undefined
      | n # ns \<Rightarrow>
          if unat (indx h) + length s + 1 \<le> n
          then copy_strings ss (h\<lparr>indx := indx h + word_of_nat (length s) + 1\<rparr>)
          else Undefined)"

text \<open>
  The loop of \<open>get_accounts_for_user\<close> over the rows of a query: the head node has 256 bytes
  per row, each row makes room for its strings and copies them.
\<close>

definition row_length :: "string list \<Rightarrow> nat" where
  "row_length row = sum_list (map length row)"

definition copy_row :: "string list \<Rightarrow> heap_list \<Rightarrow> (unit, heap_list) outcome" where
  "copy_row row h = copy_strings row (increase_list_buffer (word_of_nat (row_length row)) h)"

fun copy_rows :: "string list list \<Rightarrow> heap_list \<Rightarrow> (unit, heap_list) outcome" where
  "copy_rows [] h = Ret h"
| "copy_rows (row # rows) h =
     (case copy_row row h of Ret h' \<Rightarrow> copy_rows rows h' | r \<Rightarrow> r)"

definition rows_heap :: "nat \<Rightarrow> heap_list" where
  "rows_heap cnt = \<lparr>nodes = [unat (word_of_nat cnt * 256 :: u32)], sz = word_of_nat cnt * 256, indx = 0\<rparr>"

text \<open>What keeps the heap consistent: the index is within the believed size, that within the node.\<close>

definition heap_ok :: "heap_list \<Rightarrow> bool" where
  "heap_ok h \<longleftrightarrow> (\<exists>n ns. nodes h = n # ns \<and> unat (sz h) \<le> n) \<and> indx h \<le> sz h"

lemma copy_strings_fits:
  assumes "nodes h = n # ns" "unat (indx h) + row_length row + length row \<le> n"
    and "unat (indx h) + row_length row + length row < 2 ^ 32"
  shows "copy_strings row h = Ret (h\<lparr>indx := indx h + word_of_nat (row_length row + length row)\<rparr>)"
  using assms
proof (induction row arbitrary: h)
  case Nil
  then show ?case by (simp add: row_length_def)
next
  case (Cons s row)
  let ?h = "h\<lparr>indx := indx h + word_of_nat (length s + 1)\<rparr>"
  have i: "unat (indx ?h) = unat (indx h) + (length s + 1)"
    using Cons.prems unat_add_count [of "indx h" "length s + 1"] by (simp add: row_length_def)
  have "copy_strings row ?h = Ret (?h\<lparr>indx := indx ?h + word_of_nat (row_length row + length row)\<rparr>)"
    using Cons.prems i by (intro Cons.IH) (simp_all add: row_length_def)
  with Cons.prems i show ?case by (simp add: row_length_def algebra_simps)
qed

text \<open>Room for a row: \<open>increase_list_buffer\<close> promises it when a fresh node can hold the row.\<close>

lemma increase_list_buffer_room:
  assumes "heap_ok h" "needed + 20 \<le> 1024 + 20" "needed + k \<le> 1024" "k \<le> 20"
  shows "\<exists>n ns. nodes (increase_list_buffer (word_of_nat needed) h) = n # ns \<and>
    unat (sz (increase_list_buffer (word_of_nat needed) h)) \<le> n \<and>
    unat (indx (increase_list_buffer (word_of_nat needed) h)) + needed + k
      \<le> unat (sz (increase_list_buffer (word_of_nat needed) h))"
proof -
  obtain n ns where n: "nodes h = n # ns" "unat (sz h) \<le> n" and le: "indx h \<le> sz h"
    using assms(1) by (auto simp: heap_ok_def)
  have nd: "unat (word_of_nat needed + 20 :: u32) = needed + 20"
    using unat_count [of "needed + 20"] assms(2) by simp
  show ?thesis
  proof (cases "word_of_nat needed + 20 > sz h - indx h")
    case True
    then show ?thesis using assms(3) by (simp add: increase_list_buffer_def)
  next
    case False
    then have "needed + 20 \<le> unat (sz h) - unat (indx h)"
      using nd unat_diff_le [OF le] by (simp add: not_less word_le_nat_alt)
    then show ?thesis using n False assms(4) by (simp add: increase_list_buffer_def)
  qed
qed

lemma copy_row_ok:
  assumes "heap_ok h" "row_length row + length row \<le> 1024" "length row \<le> 20"
  shows "\<exists>h'. copy_row row h = Ret h' \<and> heap_ok h'"
proof -
  define g where "g = increase_list_buffer (word_of_nat (row_length row)) h"
  obtain n ns where g: "nodes g = n # ns" "unat (sz g) \<le> n"
    "unat (indx g) + row_length row + length row \<le> unat (sz g)"
    using increase_list_buffer_room [OF assms(1), of "row_length row" "length row"] assms(2,3)
    by (auto simp: g_def)
  have "unat (sz g) < 2 ^ 32" using unsigned_less [of "sz g"] by simp
  with g(2,3) have fits: "copy_row row h = Ret (g\<lparr>indx := indx g + word_of_nat (row_length row + length row)\<rparr>)"
    unfolding copy_row_def g_def [symmetric] by (intro copy_strings_fits [OF g(1)]) linarith+
  have "unat (indx g + word_of_nat (row_length row + length row)) = unat (indx g) + (row_length row + length row)"
    using g(3) \<open>unat (sz g) < 2 ^ 32\<close> by (intro unat_add_count) linarith
  with fits g show ?thesis by (auto simp: heap_ok_def word_le_nat_alt)
qed

lemma copy_rows_ok:
  "heap_ok h \<Longrightarrow> list_all (\<lambda>row. row_length row + length row \<le> 1024 \<and> length row \<le> 20) rows \<Longrightarrow>
    \<exists>h'. copy_rows rows h = Ret h' \<and> heap_ok h'"
proof (induction rows arbitrary: h)
  case Nil
  then show ?case by simp
next
  case (Cons row rows)
  then obtain h' where "copy_row row h = Ret h'" "heap_ok h'" using copy_row_ok [of h row] by auto
  with Cons show ?case by auto
qed

lemma rows_heap_ok: "heap_ok (rows_heap cnt)"
  by (simp add: heap_ok_def rows_heap_def)

lemma copy_strings_overflow:
  "nodes h = n # ns \<Longrightarrow> unat (indx h) \<le> n \<Longrightarrow> n < unat (indx h) + row_length row + length row \<Longrightarrow>
     n < 2 ^ 31 \<Longrightarrow> copy_strings row h = Undefined"
proof (induction row arbitrary: h)
  case Nil
  then show ?case by (simp add: row_length_def)
next
  case (Cons s row)
  show ?case
  proof (cases "unat (indx h) + length s + 1 \<le> n")
    case True
    let ?h = "h\<lparr>indx := indx h + word_of_nat (length s + 1)\<rparr>"
    have "unat (indx ?h) = unat (indx h) + (length s + 1)"
      using True Cons.prems(4) unat_add_count [of "indx h" "length s + 1"] by simp
    with Cons.prems True have "copy_strings row ?h = Undefined"
      by (intro Cons.IH) (auto simp: row_length_def)
    with Cons.prems(1) True show ?thesis by (simp add: algebra_simps)
  next
    case False
    with Cons.prems(1) show ?thesis by simp
  qed
qed

text \<open>
  Copying the accounts of a query is memory safe for any number of rows, provided the strings
  of each row with their terminators fit into one fresh 1024-byte node.
\<close>

theorem copy_rows_memory_safe:
  assumes "list_all (\<lambda>row. row_length row + length row \<le> 1024 \<and> length row \<le> 6) rows"
  shows "\<exists>h. copy_rows rows (rows_heap (length rows)) = Ret h"
proof -
  have "list_all (\<lambda>row. row_length row + length row \<le> 1024 \<and> length row \<le> 20) rows"
    using assms by (rule list.pred_mono_strong) simp
  from copy_rows_ok [OF rows_heap_ok this] show ?thesis by blast
qed

theorem copy_rows_memory_safe_witness:
  "\<exists>h. copy_rows (replicate 3 (replicate 6 (replicate 160 SPC))) (rows_heap 3) = Ret h"
  using copy_rows_memory_safe [of "replicate 3 (replicate 6 (replicate 160 SPC))"]
  by (simp add: row_length_def sum_list_replicate numeral_3_eq_3)

text \<open>
  The proviso of the previous property is needed: \<open>increase_list_buffer\<close> always allocates
  1024 bytes, whatever is needed, so a single account whose strings need more than 1024 bytes (and
  fewer than the 32-bit range) is copied past the end of its node.
\<close>

theorem copy_rows_overflow:
  assumes "1024 < row_length row + length row" "length row \<le> 6" "row_length row + 20 < 2 ^ 32"
  shows "copy_rows (row # rows) (rows_heap 1) = Undefined"
proof -
  have "unat (word_of_nat (row_length row) + 20 :: u32) = row_length row + 20"
    using unat_count [OF assms(3)] by simp
  with assms(1,2) have "word_of_nat (row_length row) + 20 > (256 :: u32)"
    by (simp add: word_less_nat_alt)
  then have "nodes (increase_list_buffer (word_of_nat (row_length row)) (rows_heap 1)) = [1024, 256]"
    "indx (increase_list_buffer (word_of_nat (row_length row)) (rows_heap 1)) = 0"
    by (simp_all add: increase_list_buffer_def rows_heap_def)
  then have "copy_row row (rows_heap 1) = Undefined"
    unfolding copy_row_def using assms(1) by (intro copy_strings_overflow) auto
  then show ?thesis by simp
qed

theorem copy_rows_overflow_witness:
  "copy_rows [[''mail'', ''me'', replicate 1100 (CHR ''x''), [], []]] (rows_heap 1) = Undefined"
  by (rule copy_rows_overflow) (simp_all add: row_length_def)

end
