(* ===== verification/Maintenance.thy ===== *)
theory Maintenance
  imports DataStore
begin

text \<open>
  The two background threads of \<open>IDataStore.h\<close>: the connection manager, which shrinks the pool
  of a store when few of its connections are in use, and the data cleaner, of which the schedule
  and the cut-off time are modelled here (what it deletes belongs to the stores). The arithmetic
  on \<open>double\<close> in the manager is written on integers: \<open>0.2 * curr\<close> and \<open>0.4 * d\<close> are
  within half a unit in the last place of \<open>curr / 5\<close> and \<open>2 * d / 5\<close>, so comparing with and
  truncating to integers gives what exact fractions give.
\<close>

section \<open>The pool\<close>

text \<open>The idle connections, the back of the vector first, and the count of all connections.\<close>

record 'c conn_pool =
  connections :: "'c list"
  currentConnections :: int

definition in_use :: "('c, 'z) conn_pool_scheme \<Rightarrow> int" where
  "in_use p = currentConnections p - int (length (connections p))"

section \<open>The connection manager\<close>

definition CONNECTION_THREAD_MAGIC :: int where
  "CONNECTION_THREAD_MAGIC = 2"

text \<open>How many connections a shrinking cycle closes.\<close>

definition to_close :: "int \<Rightarrow> int \<Rightarrow> int" where
  "to_close cur minConn =
     (let n = ((cur - minConn) * 2) div 5 in if n < 1 then cur - minConn else n)"

text \<open>
  One cycle of the thread: the new counter, the new pool and the connections it closes.
  \<open>back ()\<close> and \<open>pop_back ()\<close> on an empty vector are undefined.
\<close>

definition connection_manager_cycle ::
  "int \<Rightarrow> int \<Rightarrow> 'c conn_pool \<Rightarrow> (unit, int \<times> 'c conn_pool \<times> 'c list) outcome" where
  "connection_manager_cycle minConn counter p =
     (let cur = currentConnections p; used = cur - int (length (connections p))
      in if cur < minConn then Ret (counter, p, [])
         else if cur = minConn \<or> 5 * used > cur then Ret (0, p, [])
         else if counter + 1 \<ge> CONNECTION_THREAD_MAGIC then
           (let n = nat (to_close cur minConn)
            in if length (connections p) < n then Undefined
               else Ret (if n = 0 then counter + 1 else 0,
                         p\<lparr>connections := drop n (connections p), currentConnections := cur - int n\<rparr>,
                         take n (connections p)))
         else Ret (counter + 1, p, []))"

text \<open>Cycles one after the other; \<open>env\<close> is what the other threads do to the pool in between.\<close>

fun connection_manager ::
  "int \<Rightarrow> int \<Rightarrow> ('c conn_pool \<Rightarrow> 'c conn_pool) list \<Rightarrow> 'c conn_pool \<Rightarrow> (unit, int \<times> 'c conn_pool) outcome" where
  "connection_manager minConn counter [] p = Ret (counter, p)"
| "connection_manager minConn counter (env # envs) p =
     (case connection_manager_cycle minConn counter (env p) of
        Ret (counter', p', closed) \<Rightarrow> connection_manager minConn counter' envs p'
      | Throw e \<Rightarrow> Throw e | Blocked \<Rightarrow> Blocked | Undefined \<Rightarrow> Undefined)"

definition pool_consistent :: "int \<Rightarrow> 'c conn_pool \<Rightarrow> bool" where
  "pool_consistent minConn p \<longleftrightarrow> 0 \<le> minConn \<and> 0 \<le> in_use p"

lemma to_close_bounds:
  assumes "minConn < cur" "0 \<le> minConn" "5 * (cur - k) \<le> cur" "k \<le> cur"
  shows "1 \<le> to_close cur minConn \<and> to_close cur minConn \<le> cur - minConn \<and> to_close cur minConn \<le> k"
  using assms unfolding to_close_def Let_def by (auto split: if_splits)

text \<open>
  C32: a cycle of the connection manager on a pool whose count is not below its idle connections
  never pops an empty vector. It keeps the number of connections in use, never shrinks the pool
  below the configured minimum, and closes only connections that were idle; it closes some exactly
  when the pool is above the minimum, at most a fifth of it is in use, and the condition held in
  the cycle before.
\<close>

theorem connection_manager_cycle_safe:
  assumes "pool_consistent minConn p"
  shows "\<exists>counter' p' closed. connection_manager_cycle minConn counter p = Ret (counter', p', closed) \<and>
    in_use p' = in_use p \<and> connections p = closed @ connections p' \<and>
    (minConn \<le> currentConnections p \<longrightarrow> minConn \<le> currentConnections p') \<and>
    (closed \<noteq> [] \<longleftrightarrow> minConn < currentConnections p \<and> 5 * in_use p \<le> currentConnections p \<and> 1 \<le> counter)"
proof -
  let ?cur = "currentConnections p" and ?k = "int (length (connections p))"
  have b: "1 \<le> to_close ?cur minConn \<and> to_close ?cur minConn \<le> ?cur - minConn \<and> to_close ?cur minConn \<le> ?k"
    if "minConn < ?cur" "5 * (?cur - ?k) \<le> ?cur"
    using that assms by (intro to_close_bounds) (auto simp: pool_consistent_def in_use_def)
  show ?thesis
  proof (cases "minConn < ?cur \<and> 5 * (?cur - ?k) \<le> ?cur \<and> 1 \<le> counter")
    case True
    let ?n = "nat (to_close ?cur minConn)"
    have n: "1 \<le> ?n" "int ?n \<le> ?cur - minConn" "?n \<le> length (connections p)" using b True by linarith+
    have "connection_manager_cycle minConn counter p = Ret (0,
        p\<lparr>connections := drop ?n (connections p), currentConnections := ?cur - int ?n\<rparr>, take ?n (connections p))"
      using True n by (auto simp: connection_manager_cycle_def Let_def CONNECTION_THREAD_MAGIC_def)
    with True n show ?thesis by (auto simp: in_use_def)
  next
    case False
    then show ?thesis
      by (auto simp: connection_manager_cycle_def Let_def CONNECTION_THREAD_MAGIC_def in_use_def)
  qed
qed

theorem connection_manager_cycle_safe_witness:
  "\<exists>counter' p' closed. connection_manager_cycle 2 1 \<lparr>connections = [1, 2, 3, 4 :: nat], currentConnections = 5\<rparr>
     = Ret (counter', p', closed) \<and> closed \<noteq> []"
  using connection_manager_cycle_safe [of 2 "\<lparr>connections = [1, 2, 3, 4 :: nat], currentConnections = 5\<rparr>" 1]
  by (auto simp: pool_consistent_def in_use_def)

section \<open>The schedule of the data cleaner\<close>

definition DAY_SEC :: int where "DAY_SEC = 86400"

definition DAY_MIN :: int where "DAY_MIN = 1440"

text \<open>\<open>get_next_run\<close> at local time \<open>hour:min\<close>, in minutes.\<close>

definition get_next_run :: "int \<Rightarrow> int \<Rightarrow> int" where
  "get_next_run tm_hour tm_min = (59 - tm_min) + (23 - tm_hour) * 60 + 2"

text \<open>The wait after a run of the cleaner, which \<open>sleep_for\<close> skips when it is not positive.\<close>

definition next_cleaner_run :: "int \<Rightarrow> int \<Rightarrow> int \<Rightarrow> int" where
  "next_cleaner_run interval tm_hour tm_min = get_next_run tm_hour tm_min + DAY_MIN * (1 - interval)"

text \<open>
  The time below which accounts and history are deleted. \<open>history_days * DAY_SEC\<close> is an \<open>int\<close>
  product: out of its range the behaviour is undefined. Both deletions get this value; the number
  of purge days is read from the configuration and not used.
\<close>

definition cleaner_cutoff :: "int \<Rightarrow> int \<Rightarrow> int \<Rightarrow> (unit, int \<times> int) outcome" where
  "cleaner_cutoff curr_sec days history_days =
     (if - (2 ^ 31) \<le> history_days * DAY_SEC \<and> history_days * DAY_SEC < 2 ^ 31
      then Ret (curr_sec - history_days * DAY_SEC, curr_sec - history_days * DAY_SEC)
      else Undefined)"

text \<open>
  The first run of the cleaner, and every next one with an interval of one day, starts at
  00:01 of the following day (not two minutes past midnight): between 2 and 1441 minutes ahead.
  With an interval of three days or more the computed wait is negative at every time of day, and
  with two days it is positive only at 00:00 (the cleaner wakes up at 00:01), so a longer interval
  makes the cleaner run again at once instead of less often.
\<close>

theorem cleaner_schedule:
  assumes "0 \<le> h" "h < 24" "0 \<le> m" "m < 60"
  shows "h * 60 + m + get_next_run h m = DAY_MIN + 1 \<and>
    2 \<le> next_cleaner_run 1 h m \<and> next_cleaner_run 1 h m \<le> DAY_MIN + 1 \<and>
    (0 < next_cleaner_run 2 h m \<longleftrightarrow> h = 0 \<and> m = 0) \<and>
    (\<forall>interval. 3 \<le> interval \<longrightarrow> next_cleaner_run interval h m < 0)"
proof -
  have "next_cleaner_run interval h m < 0" if "3 \<le> interval" for interval
  proof -
    have "DAY_MIN * (1 - interval) \<le> DAY_MIN * (- 2)"
      using that by (intro mult_left_mono) (simp_all add: DAY_MIN_def)
    moreover have "get_next_run h m \<le> 1441" using assms by (simp add: get_next_run_def)
    ultimately show ?thesis by (simp add: next_cleaner_run_def DAY_MIN_def)
  qed
  with assms show ?thesis by (auto simp: next_cleaner_run_def get_next_run_def DAY_MIN_def)
qed

theorem cleaner_schedule_witness:
  "next_cleaner_run 2 0 1 = 0 \<and> next_cleaner_run 7 12 30 < 0 \<and> get_next_run 23 59 = 2"
  using cleaner_schedule [of 12 30] by (simp add: next_cleaner_run_def get_next_run_def DAY_MIN_def)

end
