(* ===== verification/Credentials.thy ===== *)
theory Credentials
  imports DataStore ConfigHttp
begin

text \<open>
  The checks \<open>sync_handler\<close> makes on what a client sends: \<open>verify_email\<close>,
  \<open>hash_password\<close> and \<open>verify_password\<close>. The digest is OpenSSL's SHA3-512; it is a
  parameter \<open>digest\<close>, None where one of the \<open>EVP\<close> calls fails.
\<close>

section \<open>E-mail addresses\<close>

text \<open>A \<open>char\<close> compared as a signed number.\<close>

definition schar :: "char \<Rightarrow> int" where
  "schar c = (let n = (of_char c :: int) in if n < 128 then n else n - 256)"

definition char_between :: "char \<Rightarrow> char \<Rightarrow> char \<Rightarrow> bool" where
  "char_between lo hi c \<longleftrightarrow> schar lo \<le> schar c \<and> schar c \<le> schar hi"

definition email_char :: "char \<Rightarrow> bool" where
  "email_char c \<longleftrightarrow>
     char_between (CHR '']'') (CHR ''~'') c \<or> char_between (CHR ''?'') (CHR ''['') c \<or>
     c = CHR ''!'' \<or> c = CHR ''='' \<or> char_between (CHR ''#'') (CHR 0x27) c \<or>
     char_between (CHR ''*'') (CHR ''+'') c \<or> char_between (CHR ''-'') (CHR ''9'') c"

definition is_alpha :: "char \<Rightarrow> bool" where
  "is_alpha c \<longleftrightarrow> char_between (CHR ''a'') (CHR ''z'') c \<or> char_between (CHR ''A'') (CHR ''Z'') c"

text \<open>
  The first loop, over the local part: None where the code returns false, otherwise
  \<open>local_valid\<close> and what follows the \<open>@\<close> (nothing when there is none).
\<close>

fun local_loop :: "string \<Rightarrow> nat \<Rightarrow> char \<Rightarrow> bool \<Rightarrow> (bool \<times> string) option" where
  "local_loop [] i last_char local_valid = Some (local_valid, [])"
| "local_loop (c # cs) i last_char local_valid =
     (if c = CHR ''@'' then
        (if last_char = CHR ''.'' then None else Some (local_valid, cs))
      else if (c = CHR ''.'' \<and> last_char = CHR ''.'') \<or> i \<ge> 64 then None
      else if email_char c then local_loop cs (i + 1) c True
      else None)"

text \<open>The second loop, over the domain, and the test behind it.\<close>

fun domain_loop :: "string \<Rightarrow> nat \<Rightarrow> nat \<Rightarrow> char \<Rightarrow> bool \<Rightarrow> bool \<Rightarrow> bool" where
  "domain_loop [] domain_length label_length last_char domain_valid all_alpha \<longleftrightarrow>
     domain_valid \<and> all_alpha"
| "domain_loop (c # cs) domain_length label_length last_char domain_valid all_alpha \<longleftrightarrow>
     (if domain_length > 253 \<or> label_length > 63 \<or> c = CHR ''@'' then False
      else if c = CHR ''.'' then
        (if last_char = CHR ''.'' \<or> last_char = CHR ''-'' then False
         else domain_loop cs (domain_length + 1) (0 + 1) c False True)
      else if c = CHR ''-'' then
        (if last_char = CHR ''.'' \<or> last_char = CHR ''-'' then False
         else domain_loop cs (domain_length + 1) (label_length + 1) c False False)
      else if email_char c then
        domain_loop cs (domain_length + 1) (label_length + 1) c True (if is_alpha c then all_alpha else False)
      else False)"

definition verify_email :: "string \<Rightarrow> bool" where
  "verify_email email =
     (case local_loop email 0 (CHR ''.'') False of
        None \<Rightarrow> False
      | Some (local_valid, rest) \<Rightarrow>
          if \<not> local_valid then False
          else domain_loop rest 0 0 (CHR ''.'') False True)"

subsection \<open>The grammar it accepts\<close>

definition local_ok :: "string \<Rightarrow> bool" where
  "local_ok l \<longleftrightarrow> l \<noteq> [] \<and> length l \<le> 64 \<and> hd l \<noteq> CHR ''.'' \<and> last l \<noteq> CHR ''.'' \<and>
     successively (\<lambda>a b. \<not> (a = CHR ''.'' \<and> b = CHR ''.'')) l \<and> list_all email_char l"

definition label_ok :: "string \<Rightarrow> bool" where
  "label_ok x \<longleftrightarrow> x \<noteq> [] \<and> hd x \<noteq> CHR ''-'' \<and>
     successively (\<lambda>a b. \<not> (a = CHR ''-'' \<and> b = CHR ''-'')) x \<and>
     list_all (\<lambda>c. email_char c \<and> c \<noteq> CHR ''@'') x"

text \<open>
  Labels, where \<open>base\<close> is 0 for the first and 1 for the others: the counter of the code is not
  reset at the start of a label but at the dot before it, and it is tested at the dot behind it.
\<close>

fun labels_ok :: "nat \<Rightarrow> string list \<Rightarrow> bool" where
  "labels_ok base [] = False"
| "labels_ok base [x] \<longleftrightarrow> label_ok x \<and> list_all is_alpha x \<and> base + length x \<le> 64"
| "labels_ok base (x # y # zs) \<longleftrightarrow>
     label_ok x \<and> last x \<noteq> CHR ''-'' \<and> base + length x \<le> 63 \<and> labels_ok 1 (y # zs)"

fun split_dots :: "string \<Rightarrow> string list" where
  "split_dots [] = [[]]"
| "split_dots (c # cs) =
     (if c = CHR ''.'' then [] # split_dots cs
      else (c # hd (split_dots cs)) # tl (split_dots cs))"

definition email_spec :: "string \<Rightarrow> bool" where
  "email_spec e \<longleftrightarrow>
     (let l = takeWhile (\<lambda>c. c \<noteq> CHR ''@'') e; d = drop 1 (dropWhile (\<lambda>c. c \<noteq> CHR ''@'') e)
      in local_ok l \<and> length d \<le> 254 \<and> labels_ok 0 (split_dots d))"

lemma split_dots_nonempty [simp]: "split_dots s \<noteq> []"
  by (cases s) auto

lemma is_alpha_not_dash: "is_alpha c \<Longrightarrow> c \<noteq> CHR ''-'' \<and> c \<noteq> CHR ''.'' \<and> email_char c"
  by (auto simp: is_alpha_def email_char_def char_between_def schar_def)

subsection \<open>The domain loop\<close>

text \<open>The state of the loop after reading the start \<open>x\<close> of a label.\<close>

definition label_start :: "nat \<Rightarrow> string \<Rightarrow> bool" where
  "label_start base x \<longleftrightarrow> base + length x \<le> 64 \<and> (x \<noteq> [] \<longrightarrow> label_ok x)"

definition last_of :: "string \<Rightarrow> char" where
  "last_of x = (if x = [] then CHR ''.'' else last x)"

lemma last_of_snoc [simp]: "last_of (x @ [c]) = c" "last_of [] = CHR ''.''"
  by (simp_all add: last_of_def)

lemma label_ok_snoc:
  "c \<noteq> CHR ''.'' \<Longrightarrow> (x \<noteq> [] \<longrightarrow> CHR ''.'' \<notin> set x) \<Longrightarrow>
   label_ok (x @ [c]) \<longleftrightarrow> (x \<noteq> [] \<longrightarrow> label_ok x) \<and> email_char c \<and> c \<noteq> CHR ''@'' \<and>
     (c = CHR ''-'' \<longrightarrow> x \<noteq> [] \<and> last x \<noteq> CHR ''-'')"
  by (cases "x = []") (auto simp: label_ok_def successively_append_iff)

lemma label_ok_prefix: "label_ok (x @ y) \<Longrightarrow> x \<noteq> [] \<Longrightarrow> label_ok x"
  by (simp add: label_ok_def successively_append_iff)

lemma labels_ok_prefix:
  assumes "labels_ok base ((x @ y) # zs)"
  shows "x \<noteq> [] \<Longrightarrow> label_ok x" "base + length x \<le> 64"
proof -
  have l: "label_ok (x @ y)" "base + length (x @ y) \<le> 64"
    using assms by (cases zs; simp)+
  then show "base + length x \<le> 64" by simp
  show "x \<noteq> [] \<Longrightarrow> label_ok x" using label_ok_prefix [OF l(1)] .
qed

lemma labels_ok_dot:
  "labels_ok base (x # split_dots cs) \<longleftrightarrow>
     label_ok x \<and> last x \<noteq> CHR ''-'' \<and> base + length x \<le> 63 \<and> labels_ok 1 (split_dots cs)"
  by (cases "split_dots cs") (use split_dots_nonempty in auto)

lemma last_of_dot: "CHR ''.'' \<notin> set x \<Longrightarrow> last_of x = CHR ''.'' \<longleftrightarrow> x = []"
  unfolding last_of_def using last_in_set by metis

text \<open>One more character of a label.\<close>

lemma domain_loop_char:
  assumes "label_start base x" "CHR ''.'' \<notin> set x" "c \<noteq> CHR ''.''"
  shows "domain_loop (c # cs) dl (base + length x) (last_of x) dv aa \<longleftrightarrow>
    dl \<le> 253 \<and> label_start base (x @ [c]) \<and>
    domain_loop cs (dl + 1) (base + length (x @ [c])) c (c \<noteq> CHR ''-'') (aa \<and> is_alpha c)"
proof -
  have s: "label_start base (x @ [c]) \<longleftrightarrow> base + length x \<le> 63 \<and> email_char c \<and> c \<noteq> CHR ''@'' \<and>
      (c = CHR ''-'' \<longrightarrow> x \<noteq> [] \<and> last x \<noteq> CHR ''-'')"
    using assms by (auto simp: label_start_def label_ok_snoc)
  note l = last_of_dot [OF assms(2)]
  have d: "email_char (CHR ''-'')" "\<not> is_alpha (CHR ''-'')"
    by (simp_all add: email_char_def is_alpha_def char_between_def schar_def)
  show ?thesis
    unfolding s using assms(3) l d by (auto simp: last_of_def)
qed

lemma domain_loop_spec:
  assumes "label_start base x" "CHR ''.'' \<notin> set x"
  shows "domain_loop cs dl (base + length x) (last_of x) (x \<noteq> [] \<and> last x \<noteq> CHR ''-'') (list_all is_alpha x) \<longleftrightarrow>
    (cs = [] \<or> dl + length cs \<le> 254) \<and> labels_ok base ((x @ hd (split_dots cs)) # tl (split_dots cs))"
  using assms
proof (induction cs arbitrary: dl base x)
  case Nil
  have "list_all is_alpha x \<Longrightarrow> x \<noteq> [] \<Longrightarrow> last x \<noteq> CHR ''-''"
    using is_alpha_not_dash by (auto simp: list_all_iff)
  with Nil show ?case by (auto simp: label_start_def label_ok_def)
next
  case (Cons c cs)
  show ?case
  proof (cases "c = CHR ''.''")
    case True
    have l: "last_of x = CHR ''.'' \<longleftrightarrow> x = []" "x \<noteq> [] \<Longrightarrow> last_of x = last x"
      using last_of_dot [OF Cons.prems(2)] by (simp_all add: last_of_def)
    have ih: "domain_loop cs (dl + 1) 1 (CHR ''.'') False True \<longleftrightarrow>
      (cs = [] \<or> dl + 1 + length cs \<le> 254) \<and> labels_ok 1 (split_dots cs)"
      using Cons.IH [of 1 "[]" "dl + 1"] by (simp add: label_start_def)
    have "x \<noteq> [] \<longrightarrow> label_ok x" using Cons.prems(1) by (simp add: label_start_def)
    moreover have "label_ok x \<longrightarrow> x \<noteq> []" by (simp add: label_ok_def)
    ultimately show ?thesis using True l ih by (auto simp: labels_ok_dot)
  next
    case False
    note char = domain_loop_char [OF Cons.prems False]
    let ?y = "hd (split_dots cs)" and ?zs = "tl (split_dots cs)"
    have sd: "x @ hd (split_dots (c # cs)) = (x @ [c]) @ ?y" "tl (split_dots (c # cs)) = ?zs"
      using False by simp_all
    show ?thesis
    proof (cases "label_start base (x @ [c])")
      case True
      have "domain_loop cs (dl + 1) (base + length (x @ [c])) (last_of (x @ [c]))
          (x @ [c] \<noteq> [] \<and> last (x @ [c]) \<noteq> CHR ''-'') (list_all is_alpha (x @ [c])) \<longleftrightarrow>
        (cs = [] \<or> dl + 1 + length cs \<le> 254) \<and> labels_ok base (((x @ [c]) @ ?y) # ?zs)"
        using True Cons.prems(2) False by (intro Cons.IH) auto
      with char True show ?thesis unfolding sd by auto
    next
      case False
      then have "\<not> labels_ok base (((x @ [c]) @ ?y) # ?zs)"
        using labels_ok_prefix [of base "x @ [c]" ?y ?zs] by (auto simp: label_start_def)
      with char False show ?thesis unfolding sd by blast
    qed
  qed
qed

subsection \<open>The local part\<close>

definition local_start :: "string \<Rightarrow> bool" where
  "local_start p \<longleftrightarrow> length p \<le> 64 \<and> (p \<noteq> [] \<longrightarrow> hd p \<noteq> CHR ''.'') \<and>
     successively (\<lambda>a b. \<not> (a = CHR ''.'' \<and> b = CHR ''.'')) p \<and> list_all email_char p"

lemma local_start_snoc:
  "local_start (p @ [c]) \<longleftrightarrow>
     local_start p \<and> length p < 64 \<and> email_char c \<and> \<not> (c = CHR ''.'' \<and> last_of p = CHR ''.'')"
  by (cases "p = []") (auto simp: local_start_def successively_append_iff last_of_def)

lemma local_ok_start: "local_ok l \<longleftrightarrow> local_start l \<and> last_of l \<noteq> CHR ''.''"
  by (cases "l = []") (auto simp: local_ok_def local_start_def last_of_def)

lemma local_start_prefix: "local_start (p @ q) \<Longrightarrow> local_start p"
  by (cases "p = []") (auto simp: local_start_def successively_append_iff)

lemma local_loop_at:
  assumes "local_start p" "CHR ''@'' \<in> set cs"
  shows "local_loop cs (length p) (last_of p) (p \<noteq> []) =
    (if local_ok (p @ takeWhile (\<lambda>c. c \<noteq> CHR ''@'') cs)
     then Some (True, drop 1 (dropWhile (\<lambda>c. c \<noteq> CHR ''@'') cs)) else None)"
  using assms
proof (induction cs arbitrary: p)
  case Nil
  then show ?case by simp
next
  case (Cons c cs)
  show ?case
  proof (cases "c = CHR ''@''")
    case True
    with Cons.prems(1) show ?thesis by (auto simp: local_ok_start last_of_def)
  next
    case False
    show ?thesis
    proof (cases "local_start (p @ [c])")
      case True
      with Cons.IH [OF True] Cons.prems(2) False show ?thesis
        by (auto simp: local_start_snoc)
    next
      case no: False
      then have "\<not> local_ok (p @ takeWhile (\<lambda>c. c \<noteq> CHR ''@'') (c # cs))"
        using local_start_prefix [of "p @ [c]"] False by (auto simp: local_ok_start)
      with no Cons.prems(1) False show ?thesis by (auto simp: local_start_snoc)
    qed
  qed
qed

lemma local_loop_no_at:
  "CHR ''@'' \<notin> set cs \<Longrightarrow> local_loop cs i lc lv = Some (b, r) \<Longrightarrow> r = []"
  by (induction cs arbitrary: i lc lv) (auto split: if_splits)

text \<open>
  C28: \<open>verify_email\<close> decides exactly this grammar. The local part has 1 to 64 characters of
  the accepted set, does not start or end with a dot and has no two dots in a row. The domain has
  at most 254 characters; its labels are not empty, hold accepted characters without \<open>@\<close>, do not
  start with a hyphen and have no two in a row; a label before a dot does not end with a hyphen,
  and the last label is alphabetic. The length limits are those the counters give: 64 for a single
  label, else 63 for the first and the last and 62 for the ones between.
\<close>

theorem verify_email_spec: "verify_email e = email_spec e"
proof (cases "CHR ''@'' \<in> set e")
  case True
  have l: "local_loop e 0 (CHR ''.'') False =
    (if local_ok (takeWhile (\<lambda>c. c \<noteq> CHR ''@'') e)
     then Some (True, drop 1 (dropWhile (\<lambda>c. c \<noteq> CHR ''@'') e)) else None)"
    using local_loop_at [OF _ True, of "[]"] by (simp add: local_start_def)
  have d: "domain_loop d 0 0 (CHR ''.'') False True \<longleftrightarrow> length d \<le> 254 \<and> labels_ok 0 (split_dots d)" for d
    using domain_loop_spec [of 0 "[]" d 0] by (auto simp: label_start_def)
  show ?thesis by (simp add: verify_email_def email_spec_def l d Let_def)
next
  case False
  then have n: "dropWhile (\<lambda>c. c \<noteq> CHR ''@'') e = []" by (auto simp: dropWhile_eq_Nil_conv)
  have "\<not> email_spec e" unfolding email_spec_def Let_def n by (simp add: label_ok_def)
  moreover have "\<not> verify_email e"
  proof (cases "local_loop e 0 (CHR ''.'') False")
    case (Some p)
    then obtain lv r where p: "local_loop e 0 (CHR ''.'') False = Some (lv, r)" by (cases p) auto
    then have "r = []" by (rule local_loop_no_at [OF False])
    with p show ?thesis by (simp add: verify_email_def)
  qed (simp add: verify_email_def)
  ultimately show ?thesis by simp
qed

lemma in_split_dots: "c \<in> set d \<Longrightarrow> c \<noteq> CHR ''.'' \<Longrightarrow> \<exists>x \<in> set (split_dots d). c \<in> set x"
proof (induction d)
  case (Cons a d)
  obtain y zs where s: "split_dots d = y # zs" by (cases "split_dots d") auto
  with Cons show ?case by (cases "a = CHR ''.''") auto
qed simp

lemma labels_ok_label: "labels_ok base xs \<Longrightarrow> x \<in> set xs \<Longrightarrow> label_ok x"
  by (induction base xs rule: labels_ok.induct) auto

lemma domain_chars:
  assumes "labels_ok base (split_dots d)" "c \<in> set d"
  shows "email_char c \<and> c \<noteq> CHR ''@''"
proof (cases "c = CHR ''.''")
  case True
  then show ?thesis by (simp add: email_char_def char_between_def schar_def)
next
  case False
  from in_split_dots [OF assms(2) False] labels_ok_label [OF assms(1)]
  show ?thesis by (auto simp: label_ok_def list_all_iff)
qed

text \<open>
  An accepted address has exactly one \<open>@\<close>, at most 319 characters, and only characters of
  the accepted set: printable ASCII without space, double quote, backslash, comma, semicolon,
  colon, parentheses and angle brackets. The single quote is in the set, in both parts.
\<close>

theorem verify_email_accepts:
  assumes "verify_email e"
  shows "count_list e (CHR ''@'') = 1 \<and> length e \<le> 319 \<and>
    (\<forall>c. c \<in> set e \<longrightarrow> email_char c \<and> 32 < (of_char c :: nat) \<and> (of_char c :: nat) < 127 \<and>
       c \<notin> set (QUOT # CHR 0x5C # '',;:()<>''))"
proof -
  define l where "l = takeWhile (\<lambda>c. c \<noteq> CHR ''@'') e"
  define d where "d = drop 1 (dropWhile (\<lambda>c. c \<noteq> CHR ''@'') e)"
  have ok: "local_ok l" "length d \<le> 254" "labels_ok 0 (split_dots d)"
    using assms by (auto simp: verify_email_spec email_spec_def l_def d_def Let_def)
  have "dropWhile (\<lambda>c. c \<noteq> CHR ''@'') e \<noteq> []"
  proof
    assume "dropWhile (\<lambda>c. c \<noteq> CHR ''@'') e = []"
    then have "d = []" unfolding d_def by (metis drop_Nil)
    with ok(3) show False by (simp add: label_ok_def)
  qed
  then obtain x xs where x: "dropWhile (\<lambda>c. c \<noteq> CHR ''@'') e = x # xs" by (meson neq_Nil_conv)
  then have "x = CHR ''@''" using hd_dropWhile_stop by fastforce
  with x have e: "e = l @ CHR ''@'' # d" unfolding l_def d_def
    by (metis One_nat_def drop0 drop_Suc_Cons takeWhile_dropWhile_id)
  have lc: "c \<in> set l \<Longrightarrow> c \<noteq> CHR ''@'' \<and> email_char c" for c
    using ok(1) set_takeWhileD [of c "\<lambda>c. c \<noteq> CHR ''@''" e] by (auto simp: l_def local_ok_def list_all_iff)
  have cnt: "count_list l (CHR ''@'') = 0" "count_list d (CHR ''@'') = 0"
    using lc domain_chars [OF ok(3)] by (auto simp: count_list_0_iff)
  have at: "email_char (CHR ''@'')" by (simp add: email_char_def char_between_def schar_def)
  have char: "email_char c" if "c \<in> set e" for c
    using that lc at domain_chars [OF ok(3)] by (auto simp: e)
  have range: "32 < (of_char c :: nat) \<and> (of_char c :: nat) < 127 \<and> c \<notin> set (QUOT # CHR 0x5C # '',;:()<>'')"
    if "email_char c" for c
  proof (intro conjI)
    have n: "(of_char c :: int) = int (of_char c :: nat)" by (rule of_nat_of_char [symmetric])
    have u: "(of_char c :: int) < 256" unfolding n using nat_of_char_less_256 [of c] by linarith
    have i: "32 < (of_char c :: int) \<and> (of_char c :: int) < 127"
      using that u by (auto simp: email_char_def char_between_def schar_def Let_def split: if_splits)
    show "32 < (of_char c :: nat)" "(of_char c :: nat) < 127" using i unfolding n by linarith+
    show "c \<notin> set (QUOT # CHR 0x5C # '',;:()<>'')"
      using that by (auto simp: email_char_def char_between_def schar_def)
  qed
  have "length l \<le> 64" using ok(1) by (simp add: local_ok_def)
  with ok(2) cnt char range show ?thesis by (auto simp: e)
qed

theorem verify_email_accepts_witness:
  "verify_email (''o'' @ [CHR 0x27] @ ''neil@mail.example.com'') \<and> length (''o'' @ [CHR 0x27] @ ''neil@mail.example.com'') \<le> 319"
proof -
  have "verify_email (''o'' @ [CHR 0x27] @ ''neil@mail.example.com'')" by code_simp
  from verify_email_accepts [OF this] this show ?thesis by blast
qed

section \<open>Passwords\<close>

text \<open>
  \<open>hash_password\<close>: None where it returns false. The caller's buffer holds 1024 bytes; a digest
  whose hexadecimal form and terminator do not fit would be written past it.
\<close>

definition hexdig :: string where
  "hexdig = ''0123456789abcdef''"

fun hex_encode :: "8 word list \<Rightarrow> string" where
  "hex_encode [] = []"
| "hex_encode (p # ps) =
     hexdig ! unat (and (drop_bit 4 p) 0xf) # hexdig ! unat (and p 0xf) # hex_encode ps"

definition hash_password :: "(string \<Rightarrow> 8 word list option) \<Rightarrow> string \<Rightarrow> ('e, string option) outcome" where
  "hash_password digest pass =
     (case digest pass of
        None \<Rightarrow> Ret None
      | Some d \<Rightarrow> if 2 * length d + 1 \<le> 1024 then Ret (Some (hex_encode d)) else Undefined)"

text \<open>
  \<open>verify_password\<close>. A null \<open>user\<close> is harmless only in an empty map, where \<open>count\<close> compares
  nothing; a null password is read by \<open>strlen\<close>.
\<close>

definition verify_password ::
  "(string \<Rightarrow> 8 word list option) \<Rightarrow> User_info smap \<Rightarrow> string option \<Rightarrow> string option \<Rightarrow> ('e, bool) outcome"
  where
  "verify_password digest user_infos usr pw =
     (case usr of
        None \<Rightarrow> if user_infos = [] then Ret False else Undefined
      | Some u \<Rightarrow>
          (case map_of user_infos u of
             None \<Rightarrow> Ret False
           | Some info \<Rightarrow>
               (case pw of
                  None \<Rightarrow> Undefined
                | Some p \<Rightarrow>
                    (case hash_password digest p of
                       Ret None \<Rightarrow> Ret False
                     | Ret (Some hashed) \<Rightarrow> Ret (User_password (user info) = hashed)
                     | Throw e \<Rightarrow> Throw e
                     | Blocked \<Rightarrow> Blocked
                     | Undefined \<Rightarrow> Undefined))))"

lemma nibbles:
  fixes p q :: "8 word"
  assumes "and (drop_bit 4 p) 0xf = and (drop_bit 4 q) 0xf" "and p 0xf = and q 0xf"
  shows "p = q"
proof (rule bit_word_eqI)
  fix n assume n: "n < LENGTH(8)"
  have m: "bit (0xf :: 8 word) k \<longleftrightarrow> k < 4" for k
    using bit_mask_iff [of 4 k, where 'a = "8 word"] by (auto simp: mask_eq_exp_minus_1 bit_imp_le_length)
  have lo: "bit (and p 0xf) k = bit (and q 0xf) k" and
    hi: "bit (and (drop_bit 4 p) 0xf) k = bit (and (drop_bit 4 q) 0xf) k" for k
    using assms by simp_all
  show "bit p n \<longleftrightarrow> bit q n"
  proof (cases "n < 4")
    case True
    then have "bit (0xf :: 8 word) n" using m [of n] by blast
    then show ?thesis using lo [of n] unfolding bit_and_iff by blast
  next
    case False
    then have "bit (0xf :: 8 word) (n - 4)" using m [of "n - 4"] n by simp
    then show ?thesis using hi [of "n - 4"] False unfolding bit_and_iff bit_drop_bit_eq by simp
  qed
qed

lemma nibble_less: "unat (and (w :: 8 word) 0xf) < 16"
  using word_and_le1 [of w "0xf"] by (simp add: word_le_nat_alt)

lemma hexdig_inj:
  assumes "hexdig ! unat (and (v :: 8 word) 0xf) = hexdig ! unat (and (w :: 8 word) 0xf)"
  shows "and v 0xf = and w 0xf"
proof -
  have "distinct hexdig" "length hexdig = 16" by (simp_all add: hexdig_def)
  then have "unat (and v 0xf) = unat (and w 0xf)"
    using assms nibble_less nth_eq_iff_index_eq by metis
  then show ?thesis by (rule word_unat_eq_iff [THEN iffD2])
qed

lemma hex_encode_length [simp]: "length (hex_encode d) = 2 * length d"
  by (induction d) simp_all

lemma hex_encode_inj: "hex_encode d = hex_encode d' \<Longrightarrow> d = d'"
proof (induction d arbitrary: d')
  case Nil
  then show ?case by (cases d') auto
next
  case (Cons p d)
  then obtain q e where d': "d' = q # e" by (cases d') auto
  with Cons.prems have "p = q" by (auto intro: nibbles hexdig_inj)
  with Cons d' show ?case by auto
qed

lemma hex_encode_chars: "set (hex_encode d) \<subseteq> set hexdig"
proof (induction d)
  case (Cons p d)
  have "hexdig ! unat (and w 0xf) \<in> set hexdig" for w :: "8 word"
    using nibble_less [of w] by (intro nth_mem) (simp add: hexdig_def)
  with Cons show ?case by simp
qed simp

text \<open>
  With a digest of 64 bytes (SHA3-512), \<open>hash_password\<close> stays inside its caller's buffer
  and returns 128 lower-case hexadecimal digits, the same for two passwords exactly when their
  digests are the same.
\<close>

theorem hash_password_hex:
  assumes "\<And>p d. digest p = Some d \<Longrightarrow> length d = 64" and "digest pw = Some d"
  shows "(hash_password digest pw :: ('e, string option) outcome) = Ret (Some (hex_encode d)) \<and>
    length (hex_encode d) = 128 \<and> set (hex_encode d) \<subseteq> set ''0123456789abcdef'' \<and>
    (\<forall>pw'. (hash_password digest pw' :: ('e, string option) outcome) = Ret (Some (hex_encode d)) \<longleftrightarrow>
      digest pw' = Some d)"
proof (intro conjI allI)
  fix pw'
  have l: "length d = 64" by (rule assms(1) [OF assms(2)])
  show "(hash_password digest pw :: ('e, string option) outcome) = Ret (Some (hex_encode d))"
    "length (hex_encode d) = 128"
    using l assms(2) by (simp_all add: hash_password_def)
  show "set (hex_encode d) \<subseteq> set ''0123456789abcdef''"
    using hex_encode_chars unfolding hexdig_def .
  show "(hash_password digest pw' :: ('e, string option) outcome) = Ret (Some (hex_encode d)) \<longleftrightarrow>
      digest pw' = Some d"
    using l hex_encode_inj [of _ d] by (auto simp: hash_password_def split: option.splits if_splits)
qed

theorem hash_password_hex_witness:
  "(hash_password (\<lambda>p. Some (replicate 64 (word_of_nat (length p)))) ''xyz'' :: (string, string option) outcome)
     = Ret (Some (concat (replicate 64 ''03'')))"
proof -
  have "hex_encode (replicate 64 (word_of_nat (length ''xyz''))) = concat (replicate 64 ''03'')"
    by code_simp
  with hash_password_hex [of "\<lambda>p. Some (replicate 64 (word_of_nat (length p)))" "''xyz''"
      "replicate 64 (word_of_nat (length ''xyz''))", where 'e = string]
  show ?thesis by simp
qed

text \<open>
  A password is accepted for a user exactly when the user is registered, the digest can be
  computed, and its hexadecimal form is the stored one; the check never reads or writes outside
  its buffers, whatever it is given, as long as neither string is missing in the request.
\<close>

theorem verify_password_iff:
  assumes "\<And>p d. digest p = Some d \<Longrightarrow> length d = 64"
  shows "(verify_password digest user_infos (Some u) (Some pw) :: ('e, bool) outcome) =
    Ret (\<exists>info d. map_of user_infos u = Some info \<and> digest pw = Some d \<and>
      User_password (user info) = hex_encode d)"
proof -
  have "hash_password digest pw = (Ret (map_option hex_encode (digest pw)) :: ('e, string option) outcome)"
    using assms [of pw] by (auto simp: hash_password_def split: option.splits)
  then show ?thesis
    by (auto simp: verify_password_def split: option.splits)
qed

theorem verify_password_iff_witness:
  "(verify_password (\<lambda>p. Some (replicate 64 (word_of_nat (length p))))
      [(''a@b.c'', \<lparr>user = \<lparr>User_uuid = ''a@b.c'', User_password = concat (replicate 64 ''03''), User_last_sync = 1\<rparr>,
         lock_time = 0, cv_vector = []\<rparr>)] (Some ''a@b.c'') (Some ''xyz'') :: (string, bool) outcome) = Ret True"
proof -
  have "hex_encode (replicate 64 (word_of_nat (length ''xyz''))) = concat (replicate 64 ''03'')"
    by code_simp
  then show ?thesis
    using verify_password_iff [of "\<lambda>p. Some (replicate 64 (word_of_nat (length p)))", where 'e = string]
    by simp
qed

end
