(* ===== verification/SyncHandler.thy ===== *)
theory SyncHandler
  imports Credentials Request
begin

text \<open>
  \<open>sync_handler\<close>: the handlers behind the four operations of the service. A handler works on
  the map of registered users, shared by all service threads, and on a data store, reached through
  the virtual operations of \<open>IDataStore\<close>. The JSON library, the digest and the clock are
  parameters. The mutex around single accesses to the map is a member of each handler, so it orders
  nothing between two of them; the model is that of handlers whose accesses do not overlap.
\<close>

section \<open>The JSON library\<close>

text \<open>
  What the handlers use of \<open>jsonP\<close>. \<open>parse\<close> and the calls without an error argument give
  None where they throw \<open>jsonP_exception\<close>; the string getters give None for a null pointer.
  \<open>array_elements\<close> is the sequence that repeated calls of \<open>get_next_array_element\<close> yield.
\<close>

datatype element = Object_elem nat | Other_elem

record 'd jsonP =
  parse :: "string \<Rightarrow> 'd option"
  get_string_value :: "'d \<Rightarrow> string \<Rightarrow> string option"
  get_long_value :: "'d \<Rightarrow> string \<Rightarrow> int"
  get_elements_count :: "'d \<Rightarrow> string \<Rightarrow> nat option"
  get_object_id :: "'d \<Rightarrow> string \<Rightarrow> nat option"
  array_elements :: "'d \<Rightarrow> nat \<Rightarrow> element list option"
  string_member :: "'d \<Rightarrow> string \<Rightarrow> nat \<Rightarrow> string option"
  long_member :: "'d \<Rightarrow> string \<Rightarrow> nat \<Rightarrow> int"
  bool_member :: "'d \<Rightarrow> string \<Rightarrow> nat \<Rightarrow> bool"

text \<open>A document built for a reply, its members in the order they were added.\<close>

datatype json =
    JString string
  | JLong int
  | JBool bool
  | JArray "json list"
  | JObject "(string \<times> json) list"

record 'd env =
  json_lib :: "'d jsonP"
  stringify :: "json \<Rightarrow> string"
  sha3_512 :: "string \<Rightarrow> 8 word list option"
  server_config :: config

section \<open>Constants\<close>

definition account_deleted :: string where
  "account_deleted = ''{ msg: '' @ [QUOT] @ ''Account has been deleted'' @ [QUOT] @ '' }''"

definition sync_final_resp :: string where
  "sync_final_resp = ''{ msg : '' @ [QUOT] @ ''Sync Final Complete'' @ [QUOT] @ '' }''"

definition invalid_email :: string where
  "invalid_email = ''{ error: '' @ [QUOT] @ ''Invalid Email'' @ [QUOT] @ '' }''"

definition sync_path :: string where
  "sync_path = ''PassvaultServiceRegistration/service/sync-accounts''"

definition account_path :: "nat \<Rightarrow> string \<Rightarrow> string" where
  "account_path i member = ''/accounts/'' @ show_int (int i) @ ''/'' @ member"

section \<open>State and errors\<close>

record 's sync_state =
  user_infos :: "User_info smap"
  data :: 's

datatype handler_error = Reply register_server_exception | CString string

type_synonym ('s, 'a) handler = "'s sync_state \<Rightarrow> (handler_error, 'a) outcome \<times> 's sync_state"

definition throw_reply :: "http_status \<Rightarrow> string option \<Rightarrow> (handler_error, 'a) outcome" where
  "throw_reply status msg = Throw (Reply (new_exception (reply_text (build_reply status close_con msg))))"

text \<open>A call of a virtual operation: what it throws is a C string.\<close>

definition call_store :: "('s, 'a) store_op \<Rightarrow> ('s, 'a) handler" where
  "call_store f st =
     (case f (data st) of
        (r, s') \<Rightarrow>
          (case r of Ret x \<Rightarrow> Ret x | Throw e \<Rightarrow> Throw (CString e) | Blocked \<Rightarrow> Blocked | Undefined \<Rightarrow> Undefined,
           st\<lparr>data := s'\<rparr>))"

definition on_ret ::
  "(handler_error, 'a) outcome \<times> 's sync_state \<Rightarrow> ('a \<Rightarrow> ('s, 'b) handler) \<Rightarrow>
   (handler_error, 'b) outcome \<times> 's sync_state" where
  "on_ret r k =
     (case r of
        (Ret x, st) \<Rightarrow> k x st
      | (Throw e, st) \<Rightarrow> (Throw e, st)
      | (Blocked, st) \<Rightarrow> (Blocked, st)
      | (Undefined, st) \<Rightarrow> (Undefined, st))"

section \<open>The handlers\<close>

text \<open>
  The constructor: the first handler of the process loads the users, under \<open>call_once\<close>; the
  flag is set only when the loading returns.
\<close>

definition sync_handler :: "'s IDataStore \<Rightarrow> bool \<Rightarrow> 's sync_state \<Rightarrow> (handler_error, bool) outcome \<times> 's sync_state" where
  "sync_handler V onceFlag st =
     (if onceFlag then (Ret True, st)
      else on_ret (call_store (getAllUsers V) st) (\<lambda>users st.
        (Ret True, st\<lparr>user_infos :=
           fold (\<lambda>x. map_assign (User_uuid x) \<lparr>user = x, lock_time = 0, cv_vector = []\<rparr>) users (user_infos st)\<rparr>)))"

definition service_json :: "'d env \<Rightarrow> string \<Rightarrow> string \<Rightarrow> json" where
  "service_json E email pass =
     JObject [(''bucket'', JString sync_path), (''port'', JLong (bind_port (server_config E))),
       (''protocol'', JString ''https''), (''userName'', JString email), (''password'', JString pass),
       (''server'', JString (bind_address (server_config E)))]"

text \<open>
  The second half of \<open>handle_register\<close>, from the check of the map on. The user enters the map
  before the store is asked to create it.
\<close>

definition register_user ::
  "'s IDataStore \<Rightarrow> 'd env \<Rightarrow> int \<Rightarrow> string \<Rightarrow> string \<Rightarrow> string \<Rightarrow> ('s, string) handler" where
  "register_user V E current_t email pass hashedPassword st =
     (let usr = \<lparr>User_uuid = email, User_password = hashedPassword, User_last_sync = 1\<rparr> in
      if map_count email (user_infos st) < 1 then
        on_ret
          (call_store (createUser V usr)
             (st\<lparr>user_infos := map_assign email \<lparr>user = usr, lock_time = current_t, cv_vector = []\<rparr> (user_infos st)\<rparr>))
          (\<lambda>created st.
             if \<not> created then
               (throw_reply HTTP_500 None, st\<lparr>user_infos := map_erase email (user_infos st)\<rparr>)
             else (Ret (stringify E (service_json E email pass)), st))
      else (throw_reply HTTP_500 None, st))"

text \<open>
  A missing member is a null pointer, which \<open>strlen\<close> reads. When hashing fails the handler goes
  on with the uninitialised buffer, whose contents the model does not give.
\<close>

definition handle_register ::
  "'s IDataStore \<Rightarrow> 'd env \<Rightarrow> int \<Rightarrow> string \<Rightarrow> ('s, string) handler" where
  "handle_register V E current_t request st =
     (case parse (json_lib E) request of
        None \<Rightarrow> (throw_reply HTTP_400 None, st)
      | Some pDoc \<Rightarrow>
          (case get_string_value (json_lib E) pDoc ''/email'' of
             None \<Rightarrow> (Undefined, st)
           | Some email \<Rightarrow>
               if \<not> verify_email email then (throw_reply HTTP_400 (Some invalid_email), st)
               else
                 (case get_string_value (json_lib E) pDoc ''/password'' of
                    None \<Rightarrow> (Undefined, st)
                  | Some pass \<Rightarrow>
                      (case (hash_password (sha3_512 E) pass :: (handler_error, string option) outcome) of
                         Ret (Some hashedPassword) \<Rightarrow> register_user V E current_t email pass hashedPassword st
                       | _ \<Rightarrow> (Undefined, st)))))"

definition handle_config :: "'d env \<Rightarrow> ('s, string) handler" where
  "handle_config E st = (Ret (stringify E (service_json E ''xxx@xxx.com'' ''xxx'')), st)"

text \<open>
  What the three other handlers start with: parse the request (answering \<open>parse_error\<close> when it
  does not parse), read user and password, and check them.
\<close>

definition authenticate ::
  "'d env \<Rightarrow> http_status \<Rightarrow> string \<Rightarrow> ('d \<Rightarrow> string \<Rightarrow> ('s, string) handler) \<Rightarrow> ('s, string) handler" where
  "authenticate E parse_error request k st =
     (case parse (json_lib E) request of
        None \<Rightarrow> (throw_reply parse_error None, st)
      | Some pDoc \<Rightarrow>
          (let email = get_string_value (json_lib E) pDoc ''/user'';
               pass = get_string_value (json_lib E) pDoc ''/password''
           in case verify_password (sha3_512 E) (user_infos st) email pass of
                Ret ok \<Rightarrow>
                  if \<not> ok then (throw_reply HTTP_403 None, st)
                  else (case email of None \<Rightarrow> (Undefined, st) | Some e \<Rightarrow> k pDoc e st)
              | Throw e \<Rightarrow> (Throw e, st)
              | Blocked \<Rightarrow> (Blocked, st)
              | Undefined \<Rightarrow> (Undefined, st)))"

definition delete_account :: "'s IDataStore \<Rightarrow> string \<Rightarrow> ('s, string) handler" where
  "delete_account V email st =
     (case map_of (user_infos st) email of
        None \<Rightarrow> (Undefined, st)
      | Some info \<Rightarrow>
          on_ret (call_store (delete_user_op V (user info)) st) (\<lambda>ok st.
            if \<not> ok then (throw_reply HTTP_500 None, st)
            else (Ret account_deleted, st\<lparr>user_infos := map_erase email (user_infos st)\<rparr>)))"

definition handle_delete :: "'s IDataStore \<Rightarrow> 'd env \<Rightarrow> string \<Rightarrow> ('s, string) handler" where
  "handle_delete V E request = authenticate E HTTP_400 request (\<lambda>pDoc email. delete_account V email)"

subsection \<open>Synchronisation\<close>

definition account_json :: "string \<Rightarrow> account \<Rightarrow> json" where
  "account_json nm a =
     JObject [(''accountName'', JString nm), (''deleted'', JBool (deleted a)),
       (''password'', JString (password a)), (''oldPassword'', JString (old_password a)),
       (''updateTime'', JLong (update_time a)), (''userName'', JString (user_name a)),
       (''url'', JString (url a))]"

text \<open>
  The loop over the accounts of the client: the accounts of the store not yet met, and the two
  arrays of the reply. A null account name is compared by the map or copied by the library.
\<close>

record sync_work =
  accounts :: "account smap"
  sendAccountsToServerList :: "string list"
  accountsToSendBackToClient :: "json list"

definition sync_account :: "string \<Rightarrow> int \<Rightarrow> sync_work \<Rightarrow> sync_work" where
  "sync_account nm client_time w =
     (case map_of (accounts w) nm of
        Some a \<Rightarrow>
          (let w' =
             (if client_time > update_time a then
                w\<lparr>sendAccountsToServerList := sendAccountsToServerList w @ [nm]\<rparr>
              else if client_time < update_time a then
                w\<lparr>accountsToSendBackToClient := accountsToSendBackToClient w @ [account_json nm a]\<rparr>
              else w)
           in w'\<lparr>accounts := map_erase nm (accounts w)\<rparr>)
      | None \<Rightarrow> w\<lparr>sendAccountsToServerList := sendAccountsToServerList w @ [nm]\<rparr>)"

fun sync_loop :: "'d jsonP \<Rightarrow> 'd \<Rightarrow> nat list \<Rightarrow> sync_work \<Rightarrow> (handler_error, sync_work) outcome" where
  "sync_loop J pDoc [] w = Ret w"
| "sync_loop J pDoc (i # is) w =
     (case get_string_value J pDoc (account_path i ''accountName'') of
        None \<Rightarrow> Undefined
      | Some nm \<Rightarrow>
          sync_loop J pDoc is (sync_account nm (get_long_value J pDoc (account_path i ''updateTime'')) w))"

text \<open>The last loop: whatever is left in the map goes to the client.\<close>

definition rest_json :: "account smap \<Rightarrow> json list" where
  "rest_json m = map (\<lambda>(k, a). account_json (account_name a) a) m"

definition sync_reply :: "int \<Rightarrow> sync_work \<Rightarrow> json" where
  "sync_reply cts w =
     JObject [(''responseCode'', JLong 0), (''lockTime'', JLong cts),
       (''sendAccountsToServerList'', JArray (map JString (sendAccountsToServerList w))),
       (''accountsToSendBackToClient'', JArray (accountsToSendBackToClient w @ rest_json (accounts w)))]"

definition sync_accounts ::
  "'s IDataStore \<Rightarrow> 'd env \<Rightarrow> int \<Rightarrow> 'd \<Rightarrow> string \<Rightarrow> ('s, string) handler" where
  "sync_accounts V E cts pDoc email st =
     on_ret (call_store (get_accounts_for_user V email) st) (\<lambda>accts st.
       (case get_elements_count (json_lib E) pDoc ''accounts'' of
          None \<Rightarrow> (throw_reply HTTP_400 None, st)
        | Some mem_cnt \<Rightarrow>
            (case sync_loop (json_lib E) pDoc [0..<mem_cnt]
                    \<lparr>accounts = accts, sendAccountsToServerList = [], accountsToSendBackToClient = []\<rparr> of
               Ret w \<Rightarrow> (Ret (stringify E (sync_reply cts w)), st)
             | Throw e \<Rightarrow> (Throw e, st)
             | Blocked \<Rightarrow> (Blocked, st)
             | Undefined \<Rightarrow> (Undefined, st))))"

definition handle_sync_initial ::
  "'s IDataStore \<Rightarrow> 'd env \<Rightarrow> int \<Rightarrow> string \<Rightarrow> ('s, string) handler" where
  "handle_sync_initial V E cts request = authenticate E HTTP_400 request (sync_accounts V E cts)"

text \<open>
  The accounts of a \<open>sync-final\<close> request: the elements up to the first that is not an object,
  each with the e-mail address of the sender as its owner. A missing string member is a null
  pointer in the account, which the store reads.
\<close>

definition read_account :: "'d jsonP \<Rightarrow> 'd \<Rightarrow> string \<Rightarrow> nat \<Rightarrow> account option" where
  "read_account J pDoc email i =
     (case (string_member J pDoc ''accountName'' i, string_member J pDoc ''userName'' i,
            string_member J pDoc ''password'' i, string_member J pDoc ''oldPassword'' i,
            string_member J pDoc ''url'' i) of
        (Some n, Some u, Some p, Some oldp, Some l) \<Rightarrow>
          Some \<lparr>account_name = n, account_uuid = email, user_name = u, password = p, old_password = oldp,
                url = l, update_time = long_member J pDoc ''updateTime'' i,
                deleted = bool_member J pDoc ''deleted'' i\<rparr>
      | _ \<Rightarrow> None)"

fun read_accounts :: "'d jsonP \<Rightarrow> 'd \<Rightarrow> string \<Rightarrow> element list \<Rightarrow> account list option" where
  "read_accounts J pDoc email (Object_elem i # es) =
     (case read_account J pDoc email i of
        None \<Rightarrow> None
      | Some a \<Rightarrow> map_option ((#) a) (read_accounts J pDoc email es))"
| "read_accounts J pDoc email (Other_elem # es) = Some []"
| "read_accounts J pDoc email [] = Some []"

definition store_accounts :: "'s IDataStore \<Rightarrow> int \<Rightarrow> string \<Rightarrow> account list \<Rightarrow> ('s, string) handler" where
  "store_accounts V relockTime email accts st =
     on_ret (call_store (upsert_accounts_for_user V email accts) st) (\<lambda>ok st.
       if ok then
         on_ret (call_store (update_last_sync_for_user V email relockTime) st) (\<lambda>ok st.
           if \<not> ok then (throw_reply HTTP_500 None, st) else (Ret sync_final_resp, st))
       else (throw_reply HTTP_500 None, st))"

definition receive_accounts ::
  "'s IDataStore \<Rightarrow> 'd env \<Rightarrow> int \<Rightarrow> 'd \<Rightarrow> string \<Rightarrow> ('s, string) handler" where
  "receive_accounts V E relockTime pDoc email st =
     (case get_object_id (json_lib E) pDoc ''/accounts'' of
        None \<Rightarrow> (throw_reply HTTP_403 None, st)
      | Some i \<Rightarrow>
          (case array_elements (json_lib E) pDoc i of
             None \<Rightarrow> (throw_reply HTTP_403 None, st)
           | Some es \<Rightarrow>
               (case read_accounts (json_lib E) pDoc email es of
                  None \<Rightarrow> (Undefined, st)
                | Some accts \<Rightarrow> store_accounts V relockTime email accts st)))"

definition handle_sync_final ::
  "'s IDataStore \<Rightarrow> 'd env \<Rightarrow> int \<Rightarrow> string \<Rightarrow> ('s, string) handler" where
  "handle_sync_final V E relockTime request =
     authenticate E HTTP_403 request (receive_accounts V E relockTime)"

section \<open>Dispatch\<close>

text \<open>
  \<open>handle_request\<close>: a C string thrown by the store becomes a 500 reply. A GET has no request
  text, and \<open>verify_request\<close> lets it through for \<open>register_config\<close> only. The last branch of
  the code, for none of the four operations, is not reached.
\<close>

definition dispatch ::
  "'s IDataStore \<Rightarrow> 'd env \<Rightarrow> int \<Rightarrow> operation_type \<Rightarrow> string option \<Rightarrow> request_type \<Rightarrow> ('s, string) handler" where
  "dispatch V E now op_type request http_type =
     (case op_type of
        register_config \<Rightarrow>
          (if http_type = POST
           then (\<lambda>st. case request of None \<Rightarrow> (Undefined, st) | Some r \<Rightarrow> handle_register V E now r st)
           else handle_config E)
      | delete_user \<Rightarrow>
          (\<lambda>st. case request of None \<Rightarrow> (Undefined, st) | Some r \<Rightarrow> handle_delete V E r st)
      | sync_initial \<Rightarrow>
          (\<lambda>st. case request of None \<Rightarrow> (Undefined, st) | Some r \<Rightarrow> handle_sync_initial V E now r st)
      | sync_final \<Rightarrow>
          (\<lambda>st. case request of None \<Rightarrow> (Undefined, st) | Some r \<Rightarrow> handle_sync_final V E now r st))"

definition handle_request ::
  "'s IDataStore \<Rightarrow> 'd env \<Rightarrow> int \<Rightarrow> operation_type \<Rightarrow> string option \<Rightarrow> request_type \<Rightarrow> ('s, string) handler" where
  "handle_request V E now op_type request http_type st =
     (case dispatch V E now op_type request http_type st of
        (Throw (CString e), st') \<Rightarrow> (throw_reply HTTP_500 None, st')
      | r \<Rightarrow> r)"

end
