(* ===== verification/Samples.thy ===== *)
theory Samples
  imports SyncHandler
begin

text \<open>
  Concrete parameters for the witnesses of the handler properties: a data store held in memory,
  the stores that answer every call in one way, and an environment whose JSON library knows one
  document.
\<close>

section \<open>A store in memory\<close>

text \<open>
  Users by name and accounts by owner. \<open>upsert\<close> keeps the newer version, as the SQL statement
  of the Postgres store asks for.
\<close>

record mem_db =
  mem_users :: "User smap"
  mem_accounts :: "account smap smap"

definition accounts_of :: "mem_db \<Rightarrow> string \<Rightarrow> account smap" where
  "accounts_of s e = (case map_of (mem_accounts s) e of None \<Rightarrow> [] | Some m \<Rightarrow> m)"

definition newer_assign :: "account \<Rightarrow> account smap \<Rightarrow> account smap" where
  "newer_assign a m =
     (case map_of m (account_name a) of
        None \<Rightarrow> map_assign (account_name a) a m
      | Some b \<Rightarrow> if update_time a > update_time b then map_assign (account_name a) a m else m)"

definition mem_store :: "mem_db IDataStore" where
  "mem_store = \<lparr>
     getAllUsers = (\<lambda>s. (Ret (map snd (mem_users s)), s)),
     createUser = (\<lambda>u s.
       if map_of (mem_users s) (User_uuid u) = None
       then (Ret True, s\<lparr>mem_users := map_assign (User_uuid u) u (mem_users s)\<rparr>)
       else (Throw ''Error in ::createUser'', s)),
     delete_user_op = (\<lambda>u s.
       (Ret True, s\<lparr>mem_users := map_erase (User_uuid u) (mem_users s),
                    mem_accounts := map_erase (User_uuid u) (mem_accounts s)\<rparr>)),
     get_accounts_for_user = (\<lambda>e s. (Ret (accounts_of s e), s)),
     upsert_accounts_for_user = (\<lambda>e as s.
       (Ret True, s\<lparr>mem_accounts := map_assign e (fold newer_assign as (accounts_of s e)) (mem_accounts s)\<rparr>)),
     update_last_sync_for_user = (\<lambda>e t s.
       (Ret True, s\<lparr>mem_users :=
          (case map_of (mem_users s) e of
             None \<Rightarrow> mem_users s
           | Some u \<Rightarrow> map_assign e (u\<lparr>User_last_sync := t\<rparr>) (mem_users s))\<rparr>))\<rparr>"

text \<open>A store whose operations all fail, by returning false or by throwing.\<close>

definition failing_store :: "bool \<Rightarrow> 's IDataStore" where
  "failing_store throws = \<lparr>
     getAllUsers = (\<lambda>s. (Ret [], s)),
     createUser = (\<lambda>u s. (if throws then Throw ''Error in ::createUser'' else Ret False, s)),
     delete_user_op = (\<lambda>u s. (if throws then Throw ''Error in ::delete_user'' else Ret False, s)),
     get_accounts_for_user = (\<lambda>e s. (if throws then Throw ''Error in ::get_accounts_for_user'' else Ret [], s)),
     upsert_accounts_for_user = (\<lambda>e as s. (if throws then Throw ''Error in ::upsert_accounts_for_user'' else Ret False, s)),
     update_last_sync_for_user = (\<lambda>e t s. (Ret False, s))\<rparr>"

section \<open>An environment\<close>

record sample_doc =
  strings :: "(string \<times> string) list"
  longs :: "(string \<times> int) list"
  objects :: "((string \<times> string) list \<times> int) list"

definition sample_json :: "sample_doc \<Rightarrow> sample_doc jsonP" where
  "sample_json d = \<lparr>
     parse = (\<lambda>r. if r = [] then None else Some d),
     get_string_value = (\<lambda>d p. map_of (strings d) p),
     get_long_value = (\<lambda>d p. case map_of (longs d) p of None \<Rightarrow> 0 | Some n \<Rightarrow> n),
     get_elements_count = (\<lambda>d p. Some (length (longs d))),
     get_object_id = (\<lambda>d p. Some 0),
     array_elements = (\<lambda>d i. Some (map Object_elem [0..<length (objects d)])),
     string_member = (\<lambda>d k i. map_of (fst (objects d ! i)) k),
     long_member = (\<lambda>d k i. snd (objects d ! i)),
     bool_member = (\<lambda>d k i. False)\<rparr>"

fun json_text :: "json \<Rightarrow> string" where
  "json_text (JString s) = [QUOT] @ s @ [QUOT]"
| "json_text (JLong n) = show_int n"
| "json_text (JBool b) = (if b then ''true'' else ''false'')"
| "json_text (JArray js) = ''['' @ concat (map (\<lambda>j. json_text j @ '','') js) @ '']''"
| "json_text (JObject ms) = ''{'' @ concat (map (\<lambda>(k, j). [QUOT] @ k @ [QUOT] @ '':'' @ json_text j @ '','') ms) @ ''}''"

definition sample_digest :: "string \<Rightarrow> 8 word list option" where
  "sample_digest p = Some (replicate 64 (if p = ''secret'' then 1 else 2))"

lemma sample_digest_64 [simp]: "sample_digest p = Some d \<Longrightarrow> length d = 64"
  by (auto simp: sample_digest_def)

lemma hex_encode_replicate:
  "hex_encode (replicate n p) = concat (replicate n (hex_encode [p]))"
  by (induction n) simp_all

definition hashed_secret :: string where
  "hashed_secret = concat (replicate 64 ''01'')"

definition hashed_other :: string where
  "hashed_other = concat (replicate 64 ''02'')"

lemma hashed_distinct [simp]: "hashed_other \<noteq> hashed_secret" "hashed_secret \<noteq> hashed_other"
  by code_simp+

lemma hash_sample [simp]:
  "hash_password sample_digest p = Ret (Some (if p = ''secret'' then hashed_secret else hashed_other))"
  by (simp add: hash_password_def sample_digest_def hex_encode_replicate hexdig_def
      hashed_secret_def hashed_other_def)

definition sample_env :: "sample_doc \<Rightarrow> sample_doc env" where
  "sample_env d = \<lparr>json_lib = sample_json d, stringify = json_text, sha3_512 = sample_digest,
     server_config = default_config\<rparr>"

text \<open>A registration, and the state of a server with one user.\<close>

definition sample_registration :: sample_doc where
  "sample_registration =
     \<lparr>strings = [(''/email'', ''ann@example.com''), (''/password'', ''secret'')], longs = [], objects = []\<rparr>"

definition empty_server :: "mem_db sync_state" where
  "empty_server = \<lparr>user_infos = [], data = \<lparr>mem_users = [], mem_accounts = []\<rparr>\<rparr>"

definition ann :: User where
  "ann = \<lparr>User_uuid = ''ann@example.com'', User_password = hashed_secret, User_last_sync = 1\<rparr>"

definition ann_server :: "account smap \<Rightarrow> mem_db sync_state" where
  "ann_server m = \<lparr>user_infos = [(''ann@example.com'', \<lparr>user = ann, lock_time = 0, cv_vector = []\<rparr>)],
     data = \<lparr>mem_users = [(''ann@example.com'', ann)], mem_accounts = [(''ann@example.com'', m)]\<rparr>\<rparr>"

definition ann_request :: "string \<Rightarrow> (string \<times> int) list \<Rightarrow> ((string \<times> string) list \<times> int) list \<Rightarrow> sample_doc" where
  "ann_request pass entries objs =
     \<lparr>strings = (''/user'', ''ann@example.com'') # (''/password'', pass) #
        map (\<lambda>i. (account_path i ''accountName'', fst (entries ! i))) [0..<length entries],
      longs = map (\<lambda>i. (account_path i ''updateTime'', snd (entries ! i))) [0..<length entries],
      objects = objs\<rparr>"

definition sample_account :: "string \<Rightarrow> int \<Rightarrow> account" where
  "sample_account n t = \<lparr>account_name = n, account_uuid = ''ann@example.com'', user_name = ''ann'',
     password = ''pw'', old_password = ''old'', url = ''http://'' @ n, update_time = t, deleted = False\<rparr>"


named_theorems sample_simps "the concrete parameters"

lemmas sample_unfold [sample_simps] =
  sample_env_def sample_json_def sample_registration_def empty_server_def ann_def ann_server_def
  ann_request_def sample_account_def mem_store_def failing_store_def accounts_of_def newer_assign_def

lemmas handler_unfold [handler_simps] =
  handle_request_def dispatch_def handle_register_def register_user_def handle_config_def
  authenticate_def verify_password_def handle_delete_def delete_account_def handle_sync_initial_def
  sync_accounts_def sync_account_def handle_sync_final_def receive_accounts_def read_account_def
  store_accounts_def call_store_def on_ret_def map_count_def map_emplace_def map_erase_def Let_def

lemma ann_email [simp]: "verify_email ''ann@example.com''"
  by code_simp

end
