(* ===== verification/Sessions.thy ===== *)
theory Sessions
  imports Samples
begin

text \<open>
  What the handlers guarantee about users: every error is one of the HTTP replies, a request
  touches the user it names only, nothing happens without the right password, and registering,
  authenticating and deleting fit together. The data store is any vtable here.
\<close>

section \<open>The small steps of the handlers\<close>

lemma call_store_infos [simp]: "user_infos (snd (call_store f st)) = user_infos st"
  by (simp add: call_store_def split: prod.splits)

lemma call_store_cases:
  "call_store f st =
     (case f (data st) of
        (Ret x, s') \<Rightarrow> (Ret x, st\<lparr>data := s'\<rparr>)
      | (Throw e, s') \<Rightarrow> (Throw (CString e), st\<lparr>data := s'\<rparr>)
      | (Blocked, s') \<Rightarrow> (Blocked, st\<lparr>data := s'\<rparr>)
      | (Undefined, s') \<Rightarrow> (Undefined, st\<lparr>data := s'\<rparr>))"
  by (simp add: call_store_def split: prod.splits outcome.splits)

lemma on_ret_simps [simp]:
  "on_ret (Ret x, st) k = k x st"
  "on_ret (Throw e, st) k = (Throw e, st)"
  "on_ret (Blocked, st) k = (Blocked, st)"
  "on_ret (Undefined, st) k = (Undefined, st)"
  by (simp_all add: on_ret_def)

lemma build_reply_error:
  assumes "status \<noteq> HTTP_200"
  shows "\<exists>cap text. build_reply status con msg = Ret (cap, text) \<and> reply_text (build_reply status con msg) = text"
  using assms
  by (cases status; cases msg) (auto simp: build_reply_def reply_text_def Let_def)

section \<open>Errors\<close>

text \<open>An error of a handler: a C string of the store, or an HTTP error reply that closes the connection.\<close>

definition reply_error :: "handler_error \<Rightarrow> bool" where
  "reply_error e \<longleftrightarrow>
     (\<exists>status msg cap text. status \<in> {HTTP_400, HTTP_403, HTTP_500} \<and>
        build_reply status close_con msg = Ret (cap, text) \<and> e = Reply (new_exception text))"

definition tidy :: "(handler_error, 'a) outcome \<times> 's sync_state \<Rightarrow> bool" where
  "tidy r \<longleftrightarrow> (\<forall>e. fst r = Throw e \<longrightarrow> reply_error e \<or> (\<exists>c. e = CString c))"

named_theorems tidy_intros "errors of handlers"

lemma tidy_value [tidy_intros]: "tidy (Ret x, st)" "tidy (Blocked, st)" "tidy (Undefined, st)"
  by (simp_all add: tidy_def)

lemma reply_error_status:
  assumes "status \<in> {HTTP_400, HTTP_403, HTTP_500}"
  shows "reply_error (Reply (new_exception (reply_text (build_reply status close_con msg))))"
proof -
  have "status \<noteq> HTTP_200" using assms by auto
  then obtain cap txt' where t: "build_reply status close_con msg = Ret (cap, txt')"
    "reply_text (build_reply status close_con msg) = txt'"
    using build_reply_error by blast
  have "reply_error (Reply (new_exception txt'))"
    unfolding reply_error_def
    by (intro exI [of _ status] exI [of _ msg] exI [of _ cap] exI [of _ txt'] conjI assms t(1) refl)
  then show ?thesis unfolding t(2) .
qed

lemma tidy_throw_reply [tidy_intros]:
  "tidy (throw_reply HTTP_400 msg, st)" "tidy (throw_reply HTTP_403 msg, st)" "tidy (throw_reply HTTP_500 msg, st)"
  by (simp_all add: tidy_def throw_reply_def reply_error_status)

lemma tidy_call: "tidy (call_store f st)"
  by (auto simp: tidy_def call_store_cases split: prod.splits outcome.splits)

lemma tidy_on_ret [tidy_intros]:
  assumes "tidy r" "\<And>x st. tidy (k x st)"
  shows "tidy (on_ret r k)"
proof (cases r)
  case (Pair a b)
  then show ?thesis using assms by (cases a) (auto simp: tidy_def)
qed

lemma tidy_verify:
  "\<exists>b. (verify_password h m u p :: (handler_error, bool) outcome) = Ret b \<or>
       (verify_password h m u p :: (handler_error, bool) outcome) = Undefined"
  by (auto simp: verify_password_def hash_password_def split: option.splits)

lemma tidy_authenticate [tidy_intros]:
  assumes "status \<in> {HTTP_400, HTTP_403}" "\<And>d e st. tidy (k d e st)"
  shows "tidy (authenticate E status request k st)"
proof (cases "parse (json_lib E) request")
  case None
  then show ?thesis using assms(1) tidy_throw_reply by (auto simp: authenticate_def)
next
  case (Some d)
  show ?thesis
    using tidy_verify [of "sha3_512 E" "user_infos st" "get_string_value (json_lib E) d ''/user''"
        "get_string_value (json_lib E) d ''/password''"] Some assms(2) tidy_throw_reply(2) tidy_value
    by (auto simp: authenticate_def Let_def split: option.splits)
qed

lemma sync_loop_no_throw [simp]: "sync_loop J d is w \<noteq> Throw e"
  by (induction J d "is" w rule: sync_loop.induct) (auto split: option.splits)

lemma tidy_dispatch: "tidy (dispatch V E now op_type request http_type st)"
proof -
  have "tidy (register_user V E now e p h st)" for e p h and st :: "'a sync_state"
    by (auto simp: register_user_def Let_def intro!: tidy_intros tidy_call)
  then have r: "tidy (handle_register V E now q st)" for q
    by (auto simp: handle_register_def intro!: tidy_intros split: option.splits outcome.splits)
  have d: "tidy (handle_delete V E q st)" for q
    by (auto simp: handle_delete_def delete_account_def intro!: tidy_intros tidy_call split: option.splits)
  have i: "tidy (handle_sync_initial V E now q st)" for q
    by (auto simp: handle_sync_initial_def sync_accounts_def intro!: tidy_intros tidy_call
        split: option.splits outcome.splits )
  have f: "tidy (handle_sync_final V E now q st)" for q
    by (auto simp: handle_sync_final_def receive_accounts_def store_accounts_def
        intro!: tidy_intros tidy_call split: option.splits)
  show ?thesis
    using r d i f
    by (auto simp: dispatch_def handle_config_def tidy_value split: operation_type.splits option.splits)
qed

lemma handle_request_reply:
  assumes "fst (handle_request V E now op_type request http_type st) = Throw e"
  shows "reply_error e"
proof -
  obtain r st' where r: "dispatch V E now op_type request http_type st = (r, st')" by (cases "dispatch V E now op_type request http_type st")
  show ?thesis
  proof (cases "\<exists>c. r = Throw (CString c)")
    case True
    with assms r have "(Throw e :: (handler_error, string) outcome) = throw_reply HTTP_500 None"
      by (auto simp: handle_request_def)
    then show ?thesis using tidy_throw_reply(3) [of None st] by (auto simp: tidy_def throw_reply_def)
  next
    case False
    with assms r have "r = Throw e"
      by (auto simp: handle_request_def split: outcome.splits handler_error.splits)
    with tidy_dispatch [of V E now op_type request http_type st] False r show ?thesis
      by (auto simp: tidy_def)
  qed
qed

text \<open>
  C16: whatever the store does, a handler ends with a reply or with one of the HTTP errors 400, 403
  and 500 as a complete reply that closes the connection: a C string thrown by the store never
  reaches the service thread, which catches \<open>register_server_exception\<close> only.
\<close>

theorem handle_request_errors:
  assumes "fst (handle_request V E now op_type request http_type st) = Throw e"
  shows "\<exists>status msg cap text. status \<in> {HTTP_400, HTTP_403, HTTP_500} \<and>
    build_reply status close_con msg = Ret (cap, text) \<and> e = Reply (new_exception text)"
  using handle_request_reply [OF assms] unfolding reply_error_def .

theorem handle_request_errors_witness:
  "fst (handle_request (failing_store True) (sample_env sample_registration) 5 register_config (Some ''{}'') POST
        empty_server) = throw_reply HTTP_500 None \<and>
   (\<exists>status msg cap t. status \<in> {HTTP_400, HTTP_403, HTTP_500} \<and>
      build_reply status close_con msg = Ret (cap, t) \<and>
      Reply (new_exception (reply_text (build_reply HTTP_500 close_con None))) = Reply (new_exception t))"
proof -
  have e: "fst (handle_request (failing_store True) (sample_env sample_registration) 5 register_config (Some ''{}'') POST
        empty_server) = throw_reply HTTP_500 None"
    by (simp add: handler_simps sample_simps)
  show ?thesis
    using handle_request_errors [OF e [unfolded throw_reply_def]] e by blast
qed

section \<open>Authentication\<close>

text \<open>What a request of the three authenticated operations is checked against.\<close>

definition authentic :: "'d env \<Rightarrow> string \<Rightarrow> 's sync_state \<Rightarrow> bool" where
  "authentic E request st \<longleftrightarrow>
     (\<exists>pDoc. parse (json_lib E) request = Some pDoc \<and>
        (verify_password (sha3_512 E) (user_infos st)
           (get_string_value (json_lib E) pDoc ''/user'') (get_string_value (json_lib E) pDoc ''/password'')
           :: (handler_error, bool) outcome) = Ret True)"

lemma authenticate_unauthentic:
  "\<not> authentic E request st \<Longrightarrow> snd (authenticate E status request k st) = st \<and>
     (\<forall>r. fst (authenticate E status request k st) \<noteq> Ret r)"
  by (auto simp: authenticate_def authentic_def throw_reply_def Let_def split: option.splits outcome.splits)

lemma handle_request_dispatch:
  "snd (handle_request V E now op_type request http_type st) = snd (dispatch V E now op_type request http_type st)"
  "fst (handle_request V E now op_type request http_type st) = Ret r \<longleftrightarrow>
     fst (dispatch V E now op_type request http_type st) = Ret r"
  by (auto simp: handle_request_def throw_reply_def split: prod.splits outcome.splits handler_error.splits)

text \<open>
  C12: without the right password nothing happens. A delete or a synchronisation whose request
  does not parse, or whose user and password are not accepted, leaves the users and the data store
  as they were (the store is not called) and is not answered with a success.
\<close>

theorem unauthenticated_no_effect:
  assumes "op_type \<noteq> register_config" and "\<not> authentic E request st"
  shows "snd (handle_request V E now op_type (Some request) http_type st) = st \<and>
    (\<forall>r. fst (handle_request V E now op_type (Some request) http_type st) \<noteq> Ret r)"
  unfolding handle_request_dispatch
  using assms
  by (cases op_type)
    (auto simp: dispatch_def handle_delete_def handle_sync_initial_def handle_sync_final_def
      authenticate_unauthentic)

theorem unauthenticated_no_effect_witness:
  "snd (handle_request mem_store (sample_env (ann_request ''guess'' [] [])) 5 delete_user (Some ''{}'') POST
     (ann_server [])) = ann_server []"
proof -
  have "\<not> authentic (sample_env (ann_request ''guess'' [] [])) ''{}'' (ann_server [])"
    by (simp add: authentic_def verify_password_def sample_simps)
  from unauthenticated_no_effect [OF _ this, of delete_user mem_store 5 POST] show ?thesis by simp
qed

section \<open>Isolation\<close>

text \<open>The address a request speaks for.\<close>

definition request_user :: "'d env \<Rightarrow> operation_type \<Rightarrow> string \<Rightarrow> string option" where
  "request_user E op_type request =
     (case parse (json_lib E) request of
        None \<Rightarrow> None
      | Some pDoc \<Rightarrow>
          get_string_value (json_lib E) pDoc (if op_type = register_config then ''/email'' else ''/user''))"

definition keeps_others :: "string option \<Rightarrow> 's sync_state \<Rightarrow> 's sync_state \<Rightarrow> bool" where
  "keeps_others e st st' \<longleftrightarrow>
     (\<forall>u. Some u \<noteq> e \<longrightarrow> map_of (user_infos st') u = map_of (user_infos st) u)"

lemma keeps_others_same: "user_infos st' = user_infos st \<Longrightarrow> keeps_others e st st'"
  by (simp add: keeps_others_def)

lemma on_ret_infos:
  "user_infos (snd (on_ret r k)) =
     (case r of (Ret x, st) \<Rightarrow> user_infos (snd (k x st)) | (_, st) \<Rightarrow> user_infos st)"
  by (simp add: on_ret_def split: prod.splits outcome.splits)

lemma register_user_others: "keeps_others (Some email) st (snd (register_user V E now email p h st))"
  by (auto simp: keeps_others_def register_user_def Let_def on_ret_def call_store_cases map_of_assign map_of_erase
      split: prod.splits outcome.splits)

lemma delete_account_others: "keeps_others (Some email) st (snd (delete_account V email st))"
  by (auto simp: keeps_others_def delete_account_def on_ret_def call_store_cases map_of_erase
      split: prod.splits outcome.splits option.splits)

lemma sync_infos:
  "user_infos (snd (sync_accounts V E now d email st)) = user_infos st"
  "user_infos (snd (receive_accounts V E now d email st)) = user_infos st"
  by (auto simp: sync_accounts_def receive_accounts_def store_accounts_def on_ret_def call_store_cases
      split: prod.splits outcome.splits option.splits)

lemma authenticate_others:
  assumes "op_type \<noteq> register_config" "\<And>d e. keeps_others (Some e) st (snd (k d e st))"
  shows "keeps_others (request_user E op_type request) st (snd (authenticate E status request k st))"
proof (cases "parse (json_lib E) request")
  case (Some d)
  show ?thesis
  proof (cases "get_string_value (json_lib E) d ''/user''")
    case None
    with Some show ?thesis
      by (auto simp: authenticate_def Let_def keeps_others_def split: outcome.splits)
  next
    case e: (Some e)
    with assms(2) [of e d] Some assms(1) show ?thesis
      by (auto simp: authenticate_def Let_def request_user_def keeps_others_def split: outcome.splits)
  qed
qed (simp add: authenticate_def keeps_others_def)

text \<open>
  A request touches the map of registered users at the address it names only: the entry of
  every other user is what it was, whatever the operation, its outcome and the store.
\<close>

theorem handle_request_other_users:
  assumes "Some u \<noteq> request_user E op_type request"
  shows "map_of (user_infos (snd (handle_request V E now op_type (Some request) http_type st))) u =
    map_of (user_infos st) u"
proof -
  have r: "keeps_others (request_user E register_config request) st (snd (handle_register V E now request st))"
    using register_user_others
    by (auto simp: handle_register_def request_user_def keeps_others_same split: option.splits outcome.splits)
  have "keeps_others (request_user E op_type request) st (snd (dispatch V E now op_type (Some request) http_type st))"
    using r
    by (cases op_type)
      (auto simp: dispatch_def handle_config_def keeps_others_same handle_delete_def handle_sync_initial_def
        handle_sync_final_def sync_infos intro!: authenticate_others delete_account_others)
  with assms show ?thesis by (simp add: handle_request_dispatch keeps_others_def)
qed

theorem handle_request_other_users_witness:
  "map_of (user_infos (snd (handle_request mem_store (sample_env sample_registration) 5 register_config (Some ''{}'') POST
     (empty_server\<lparr>user_infos := [(''bob@example.com'', \<lparr>user = ann, lock_time = 0, cv_vector = []\<rparr>)]\<rparr>)))) ''bob@example.com'' =
   Some \<lparr>user = ann, lock_time = 0, cv_vector = []\<rparr>"
proof -
  have "Some ''bob@example.com'' \<noteq> request_user (sample_env sample_registration) register_config ''{}''"
    by (simp add: request_user_def sample_simps)
  then show ?thesis by (subst handle_request_other_users) simp_all
qed

section \<open>The life of a user\<close>

lemma register_success:
  assumes "fst (handle_register V E now request st) = Ret r"
  obtains pDoc email pass h where "parse (json_lib E) request = Some pDoc"
    "get_string_value (json_lib E) pDoc ''/email'' = Some email"
    "get_string_value (json_lib E) pDoc ''/password'' = Some pass"
    "(hash_password (sha3_512 E) pass :: (handler_error, string option) outcome) = Ret (Some h)"
    "verify_email email" "fst (register_user V E now email pass h st) = Ret r"
    "handle_register V E now request st = register_user V E now email pass h st"
  using assms
  by (auto simp: handle_register_def throw_reply_def split: option.splits outcome.splits if_splits)

lemma register_user_success:
  assumes "fst (register_user V E now email pass h st) = Ret r"
  shows "map_of (user_infos st) email = None"
    "r = stringify E (service_json E email pass)"
    "createUser V \<lparr>User_uuid = email, User_password = h, User_last_sync = 1\<rparr> (data st) =
       (Ret True, data (snd (register_user V E now email pass h st)))"
    "map_of (user_infos (snd (register_user V E now email pass h st))) email =
       Some \<lparr>user = \<lparr>User_uuid = email, User_password = h, User_last_sync = 1\<rparr>, lock_time = now, cv_vector = []\<rparr>"
  using assms
  by (auto simp: register_user_def Let_def call_store_cases on_ret_def map_count_def map_of_assign throw_reply_def
      split: if_splits prod.splits outcome.splits option.splits)

lemma verify_registered:
  assumes "(hash_password digest pass :: (handler_error, string option) outcome) = Ret (Some h)"
    and "map_of infos email = Some info" "User_password (user info) = h"
  shows "(verify_password digest infos (Some email) (Some pass) :: (handler_error, bool) outcome) = Ret True"
  using assms by (simp add: verify_password_def)

text \<open>
  C13: a registration that is answered with a success was for a valid address that was not
  registered, the store created exactly that user, with the hash of the password and 1 as its last
  synchronisation, and the password is accepted for the address from then on.
\<close>

theorem register_then_authenticate:
  assumes "handle_request V E now register_config (Some request) POST st = (Ret r, st')"
  shows "\<exists>pDoc email pass h.
    parse (json_lib E) request = Some pDoc \<and>
    get_string_value (json_lib E) pDoc ''/email'' = Some email \<and>
    get_string_value (json_lib E) pDoc ''/password'' = Some pass \<and>
    verify_email email \<and> map_of (user_infos st) email = None \<and>
    createUser V \<lparr>User_uuid = email, User_password = h, User_last_sync = 1\<rparr> (data st) = (Ret True, data st') \<and>
    (verify_password (sha3_512 E) (user_infos st') (Some email) (Some pass) :: (handler_error, bool) outcome) = Ret True"
proof -
  have f: "fst (handle_register V E now request st) = Ret r" and s: "snd (handle_register V E now request st) = st'"
    using assms handle_request_dispatch [of V E now register_config "Some request" POST st]
    by (auto simp: dispatch_def)
  obtain pDoc email pass h where d: "parse (json_lib E) request = Some pDoc"
    "get_string_value (json_lib E) pDoc ''/email'' = Some email"
    "get_string_value (json_lib E) pDoc ''/password'' = Some pass"
    "(hash_password (sha3_512 E) pass :: (handler_error, string option) outcome) = Ret (Some h)"
    "verify_email email" "fst (register_user V E now email pass h st) = Ret r"
    "handle_register V E now request st = register_user V E now email pass h st"
    using f by (rule register_success)
  note u = register_user_success [OF d(6), unfolded d(7) [symmetric] s]
  have "(verify_password (sha3_512 E) (user_infos st') (Some email) (Some pass) :: (handler_error, bool) outcome) = Ret True"
    by (rule verify_registered [OF d(4) u(4)]) simp
  with d u show ?thesis by blast
qed

theorem register_then_authenticate_witness:
  "\<exists>st'. handle_request mem_store (sample_env sample_registration) 5 register_config (Some ''{}'') POST empty_server =
     (Ret (json_text (service_json (sample_env sample_registration) ''ann@example.com'' ''secret'')), st') \<and>
   (verify_password sample_digest (user_infos st') (Some ''ann@example.com'') (Some ''secret'') :: (handler_error, bool) outcome) = Ret True"
proof -
  let ?r = "json_text (service_json (sample_env sample_registration) ''ann@example.com'' ''secret'')"
  obtain st' where st': "handle_request mem_store (sample_env sample_registration) 5 register_config (Some ''{}'') POST empty_server =
     (Ret ?r, st')"
    by (simp add: handler_simps sample_simps)
  from register_then_authenticate [OF this] st' show ?thesis by (auto simp: sample_simps)
qed

text \<open>
  When the store refuses to create the user by returning false, the registration is undone:
  the client gets the 500 reply and the map of users answers every lookup as before.
\<close>

theorem register_rollback:
  assumes "parse (json_lib E) request = Some pDoc"
    and "get_string_value (json_lib E) pDoc ''/email'' = Some email" "verify_email email"
    and "get_string_value (json_lib E) pDoc ''/password'' = Some pass"
    and "(hash_password (sha3_512 E) pass :: (handler_error, string option) outcome) = Ret (Some h)"
    and "map_of (user_infos st) email = None"
    and "createUser V \<lparr>User_uuid = email, User_password = h, User_last_sync = 1\<rparr> (data st) = (Ret False, s')"
  shows "fst (handle_request V E now register_config (Some request) POST st) = throw_reply HTTP_500 None \<and>
    map_of (user_infos (snd (handle_request V E now register_config (Some request) POST st))) = map_of (user_infos st)"
proof -
  have "map_of (map_erase email (map_assign email i (user_infos st))) = map_of (user_infos st)" for i
    using assms(6) by (auto simp: fun_eq_iff map_of_erase map_of_assign)
  then show ?thesis
    using assms by (simp add: handler_simps throw_reply_def del: not_None_eq map_of_eq_None_iff)
qed

theorem register_rollback_witness:
  "map_of (user_infos (snd (handle_request (failing_store False) (sample_env sample_registration) 5 register_config
     (Some ''{}'') POST empty_server))) ''ann@example.com'' = None"
  using register_rollback [of "sample_env sample_registration" "''{}''" sample_registration "''ann@example.com''"
      "''secret''" hashed_secret empty_server "failing_store False" "data empty_server" 5]
  by (simp add: sample_simps)

text \<open>
  When the store refuses by throwing, as the Postgres store does on every failure, the
  registration is not undone. The client gets the same 500 reply, but the address stays in the map
  of users: its password is accepted, and registering again, with any store, fails with 500.
\<close>

theorem register_ghost_user:
  assumes "parse (json_lib E) request = Some pDoc"
    and "get_string_value (json_lib E) pDoc ''/email'' = Some email" "verify_email email"
    and "get_string_value (json_lib E) pDoc ''/password'' = Some pass"
    and "(hash_password (sha3_512 E) pass :: (handler_error, string option) outcome) = Ret (Some h)"
    and "map_of (user_infos st) email = None"
    and "createUser V \<lparr>User_uuid = email, User_password = h, User_last_sync = 1\<rparr> (data st) = (Throw e, s')"
  shows "fst (handle_request V E now register_config (Some request) POST st) = throw_reply HTTP_500 None \<and>
    (verify_password (sha3_512 E) (user_infos (snd (handle_request V E now register_config (Some request) POST st)))
       (Some email) (Some pass) :: (handler_error, bool) outcome) = Ret True \<and>
    handle_request W E later register_config (Some request) POST
      (snd (handle_request V E now register_config (Some request) POST st)) =
      (throw_reply HTTP_500 None, snd (handle_request V E now register_config (Some request) POST st))"
proof -
  let ?i = "\<lparr>user = \<lparr>User_uuid = email, User_password = h, User_last_sync = 1\<rparr>, lock_time = now, cv_vector = []\<rparr>"
  let ?st = "st\<lparr>user_infos := map_assign email ?i (user_infos st), data := s'\<rparr>"
  have r: "handle_request V E now register_config (Some request) POST st = (throw_reply HTTP_500 None, ?st)"
    using assms by (simp add: handler_simps throw_reply_def del: not_None_eq map_of_eq_None_iff)
  have l: "map_of (user_infos ?st) email = Some ?i" by (simp add: map_of_assign)
  have "(verify_password (sha3_512 E) (user_infos ?st) (Some email) (Some pass) :: (handler_error, bool) outcome) = Ret True"
    by (rule verify_registered [OF assms(5) l]) simp
  moreover have "handle_request W E later register_config (Some request) POST ?st = (throw_reply HTTP_500 None, ?st)"
    using assms l by (simp add: handler_simps throw_reply_def)
  ultimately show ?thesis unfolding r by simp
qed

theorem register_ghost_user_witness:
  "handle_request mem_store (sample_env sample_registration) 6 register_config (Some ''{}'') POST
     (snd (handle_request (failing_store True) (sample_env sample_registration) 5 register_config (Some ''{}'') POST empty_server)) =
   (throw_reply HTTP_500 None,
    snd (handle_request (failing_store True) (sample_env sample_registration) 5 register_config (Some ''{}'') POST empty_server))"
  using register_ghost_user [of "sample_env sample_registration" "''{}''" sample_registration "''ann@example.com''"
      "''secret''" hashed_secret empty_server "failing_store True" "''Error in ::createUser''" "data empty_server"
      5 mem_store 6]
  by (simp add: sample_simps)

lemma delete_account_success:
  assumes "fst (delete_account V email st) = Ret r"
  shows "\<exists>info. map_of (user_infos st) email = Some info \<and>
    delete_user_op V (user info) (data st) = (Ret True, data (snd (delete_account V email st))) \<and>
    r = account_deleted \<and>
    user_infos (snd (delete_account V email st)) = map_erase email (user_infos st)"
proof (cases "map_of (user_infos st) email")
  case None
  with assms show ?thesis by (simp add: delete_account_def)
next
  case (Some info)
  obtain o' s' where d: "delete_user_op V (user info) (data st) = (o', s')" by fastforce
  with Some assms show ?thesis
    by (cases o') (simp_all add: delete_account_def call_store_def throw_reply_def split: if_splits)
qed

lemma delete_reaches_store:
  assumes "handle_request V E now delete_user (Some request) POST st = (Ret r, st')"
  obtains email info where "request_user E delete_user request = Some email" "map_of (user_infos st) email = Some info"
    "delete_user_op V (user info) (data st) = (Ret True, data st')" "r = account_deleted"
    "user_infos st' = map_erase email (user_infos st)"
proof -
  have f: "fst (handle_delete V E request st) = Ret r" and s: "snd (handle_delete V E request st) = st'"
    using assms handle_request_dispatch [of V E now delete_user "Some request" POST st]
    by (auto simp: dispatch_def)
  obtain pDoc email where d: "parse (json_lib E) request = Some pDoc"
    "get_string_value (json_lib E) pDoc ''/user'' = Some email"
    "handle_delete V E request st = delete_account V email st"
    using f by (auto simp: handle_delete_def authenticate_def throw_reply_def Let_def
        split: option.splits outcome.splits if_splits)
  then have g: "fst (delete_account V email st) = Ret r" "snd (delete_account V email st) = st'"
    using f s by simp_all
  obtain info where i: "map_of (user_infos st) email = Some info"
    "delete_user_op V (user info) (data st) = (Ret True, data st')" "r = account_deleted"
    "user_infos st' = map_erase email (user_infos st)"
    using delete_account_success [OF g(1)] g(2) by blast
  have "request_user E delete_user request = Some email" using d by (simp add: request_user_def)
  with i that show ?thesis by blast
qed

text \<open>
  C14: a delete that is answered with a success deleted the stored user in the data store, after
  which no password is accepted for the address until it registers again.
\<close>

theorem delete_then_rejected:
  assumes "handle_request V E now delete_user (Some request) POST st = (Ret r, st')"
  shows "\<exists>email info. request_user E delete_user request = Some email \<and>
    map_of (user_infos st) email = Some info \<and>
    delete_user_op V (user info) (data st) = (Ret True, data st') \<and> r = account_deleted \<and>
    (\<forall>pass. (verify_password (sha3_512 E) (user_infos st') (Some email) pass :: (handler_error, bool) outcome) = Ret False)"
proof -
  obtain email info where i: "request_user E delete_user request = Some email" "map_of (user_infos st) email = Some info"
    "delete_user_op V (user info) (data st) = (Ret True, data st')" "r = account_deleted"
    "user_infos st' = map_erase email (user_infos st)"
    by (rule delete_reaches_store [OF assms])
  have "map_of (user_infos st') email = None" unfolding i(5) by (simp only: map_of_erase simp_thms if_True)
  then have "(verify_password (sha3_512 E) (user_infos st') (Some email) pass :: (handler_error, bool) outcome) = Ret False" for pass
    by (simp add: verify_password_def del: map_of_eq_None_iff)
  with i show ?thesis by blast
qed

theorem delete_then_rejected_witness:
  "\<exists>st'. handle_request mem_store (sample_env (ann_request ''secret'' [] [])) 5 delete_user (Some ''{}'') POST (ann_server []) =
     (Ret account_deleted, st') \<and>
     (verify_password sample_digest (user_infos st') (Some ''ann@example.com'') (Some ''secret'') :: (handler_error, bool) outcome) = Ret False"
proof -
  obtain st' where st': "handle_request mem_store (sample_env (ann_request ''secret'' [] [])) 5 delete_user (Some ''{}'') POST
      (ann_server []) = (Ret account_deleted, st')"
    by (simp add: handler_simps sample_simps)
  from delete_then_rejected [OF this] st' show ?thesis by (auto simp: request_user_def sample_simps)
qed

end
