(* ===== verification/Synchronisation.thy ===== *)
theory Synchronisation
  imports Sessions
begin

text \<open>
  What the two synchronisation requests achieve: which accounts \<open>sync-initial\<close> sends to whom,
  that both sides hold the newest version of every account when each takes what it is sent, and
  what \<open>sync-final\<close> writes to the store.
\<close>

section \<open>The loop over the accounts of the client\<close>

text \<open>The request lists these names and times, in this order.\<close>

definition presents :: "'d jsonP \<Rightarrow> 'd \<Rightarrow> (string \<times> int) list \<Rightarrow> bool" where
  "presents J pDoc vs \<longleftrightarrow>
     get_elements_count J pDoc ''accounts'' = Some (length vs) \<and>
     (\<forall>i < length vs. get_string_value J pDoc (account_path i ''accountName'') = Some (fst (vs ! i)) \<and>
        get_long_value J pDoc (account_path i ''updateTime'') = snd (vs ! i))"

definition client_newer :: "account smap \<Rightarrow> string \<times> int \<Rightarrow> bool" where
  "client_newer m v \<longleftrightarrow> (case map_of m (fst v) of None \<Rightarrow> True | Some a \<Rightarrow> snd v > update_time a)"

definition server_newer :: "account smap \<Rightarrow> string \<times> int \<Rightarrow> bool" where
  "server_newer m v \<longleftrightarrow> (case map_of m (fst v) of None \<Rightarrow> False | Some a \<Rightarrow> snd v < update_time a)"

text \<open>The reference: who sends what, for the accounts of the store and the versions of the client.\<close>

definition to_server :: "account smap \<Rightarrow> (string \<times> int) list \<Rightarrow> string list" where
  "to_server m vs = map fst (filter (client_newer m) vs)"

definition to_client :: "account smap \<Rightarrow> (string \<times> int) list \<Rightarrow> (string \<times> account) list" where
  "to_client m vs =
     map (\<lambda>v. (fst v, the (map_of m (fst v)))) (filter (server_newer m) vs) @
     filter (\<lambda>(k, a). k \<notin> fst ` set vs) m"

lemma sync_loop_shift:
  assumes "\<forall>i < length vs. get_string_value J pDoc (account_path (n + i) ''accountName'') = Some (fst (vs ! i)) \<and>
        get_long_value J pDoc (account_path (n + i) ''updateTime'') = snd (vs ! i)"
  shows "sync_loop J pDoc [n..<n + length vs] w = Ret (fold (\<lambda>v. sync_account (fst v) (snd v)) vs w)"
  using assms
proof (induction vs arbitrary: n w)
  case (Cons v vs)
  have "[n..<n + length (v # vs)] = n # [Suc n..<Suc n + length vs]" by (simp add: upt_rec)
  moreover have "get_string_value J pDoc (account_path n ''accountName'') = Some (fst v) \<and>
      get_long_value J pDoc (account_path n ''updateTime'') = snd v"
    using Cons.prems [rule_format, of 0] by simp
  moreover have "\<forall>i < length vs. get_string_value J pDoc (account_path (Suc n + i) ''accountName'') = Some (fst (vs ! i)) \<and>
        get_long_value J pDoc (account_path (Suc n + i) ''updateTime'') = snd (vs ! i)"
  proof (intro allI impI)
    fix i assume "i < length vs"
    with Cons.prems [rule_format, of "Suc i"] show
      "get_string_value J pDoc (account_path (Suc n + i) ''accountName'') = Some (fst (vs ! i)) \<and>
        get_long_value J pDoc (account_path (Suc n + i) ''updateTime'') = snd (vs ! i)" by simp
  qed
  ultimately show ?case using Cons.IH [of "Suc n"] by simp
qed simp

lemma sync_loop_presents:
  "presents J pDoc vs \<Longrightarrow>
     sync_loop J pDoc [0..<length vs] w = Ret (fold (\<lambda>v. sync_account (fst v) (snd v)) vs w)"
  using sync_loop_shift [of vs J pDoc 0 w] by (simp add: presents_def)

lemma newer_erase:
  assumes "k \<notin> fst ` set vs" "v \<in> set vs"
  shows "client_newer (map_erase k m) v = client_newer m v" "server_newer (map_erase k m) v = server_newer m v"
    "map_of (map_erase k m) (fst v) = map_of m (fst v)"
  using assms by (auto simp: client_newer_def server_newer_def map_of_erase image_iff)

lemma sync_account_step:
  "sync_account k t w =
     \<lparr>accounts = map_erase k (accounts w),
      sendAccountsToServerList = sendAccountsToServerList w @ (if client_newer (accounts w) (k, t) then [k] else []),
      accountsToSendBackToClient = accountsToSendBackToClient w @
        (if server_newer (accounts w) (k, t) then [account_json k (the (map_of (accounts w) k))] else [])\<rparr>"
proof -
  have e: "map_erase k m = m" if "map_of m k = None" for m :: "account smap"
    using that by (auto simp: map_erase_def map_of_eq_None_iff image_iff intro!: filter_True)
  show ?thesis
    by (cases "map_of (accounts w) k")
      (auto simp: sync_account_def client_newer_def server_newer_def Let_def e simp del: map_of_eq_None_iff)
qed

lemma fold_sync_account:
  assumes "distinct (map fst vs)"
  shows "fold (\<lambda>v. sync_account (fst v) (snd v)) vs w =
    \<lparr>accounts = filter (\<lambda>(k, a). k \<notin> fst ` set vs) (accounts w),
     sendAccountsToServerList = sendAccountsToServerList w @ to_server (accounts w) vs,
     accountsToSendBackToClient = accountsToSendBackToClient w @
       map (\<lambda>v. account_json (fst v) (the (map_of (accounts w) (fst v)))) (filter (server_newer (accounts w)) vs)\<rparr>"
  using assms
proof (induction vs arbitrary: w)
  case Nil
  then show ?case by (simp add: to_server_def)
next
  case (Cons v vs)
  have k: "fst v \<notin> fst ` set vs" and d: "distinct (map fst vs)" using Cons.prems by auto
  note n = newer_erase [OF k, of _ "accounts w"]
  have f: "filter (client_newer (map_erase (fst v) (accounts w))) vs = filter (client_newer (accounts w)) vs"
    "filter (server_newer (map_erase (fst v) (accounts w))) vs = filter (server_newer (accounts w)) vs"
    using n by (auto intro: filter_cong)
  have g: "map (\<lambda>v'. account_json (fst v') (the (map_of (map_erase (fst v) (accounts w)) (fst v')))) (filter P vs) =
     map (\<lambda>v'. account_json (fst v') (the (map_of (accounts w) (fst v')))) (filter P vs)" for P
    using n(3) by simp
  have h: "filter (\<lambda>(k, a). k \<notin> fst ` set vs) (map_erase (fst v) (accounts w)) =
      filter (\<lambda>(k, a). k \<notin> fst ` set (v # vs)) (accounts w)"
    by (auto simp: map_erase_def intro: filter_cong)
  show ?case
    by (simp add: Cons.IH [OF d] sync_account_step [of "fst v" "snd v" w] to_server_def f g h del: set_simps)
qed

text \<open>The store names every account by its key.\<close>

definition keyed :: "account smap \<Rightarrow> bool" where
  "keyed m \<longleftrightarrow> (\<forall>(k, a) \<in> set m. account_name a = k)"

lemma sync_reply_reference:
  assumes "presents J pDoc vs" "distinct (map fst vs)" "keyed m"
  shows "\<exists>w. sync_loop J pDoc [0..<length vs]
      \<lparr>accounts = m, sendAccountsToServerList = [], accountsToSendBackToClient = []\<rparr> = Ret w \<and>
    sendAccountsToServerList w = to_server m vs \<and>
    accountsToSendBackToClient w @ rest_json (accounts w) = map (\<lambda>(k, a). account_json k a) (to_client m vs)"
proof -
  have "map (\<lambda>(k, a). account_json (account_name a) a) (filter P m) = map (\<lambda>(k, a). account_json k a) (filter P m)" for P
    using assms(3) by (auto simp: keyed_def)
  then show ?thesis
    by (simp add: sync_loop_presents [OF assms(1)] fold_sync_account [OF assms(2)] to_client_def rest_json_def comp_def)
qed

text \<open>
  C5: the reply to \<open>sync-initial\<close> is the reference reconciliation. For an authenticated
  request that lists each account once, the client is asked for exactly the accounts the store
  does not have or has an older version of, in the order of the request; it is sent the accounts
  of which the store has a newer version, in that order, then those it did not list, in the order
  of their names; accounts with equal times are in neither list. The users stay as they are.
\<close>

theorem sync_initial_reconciles:
  assumes "parse (json_lib E) request = Some pDoc"
    and "get_string_value (json_lib E) pDoc ''/user'' = Some email"
    and "authentic E request st"
    and "get_accounts_for_user V email (data st) = (Ret m, s')" and "keyed m"
    and "presents (json_lib E) pDoc vs" "distinct (map fst vs)"
  shows "handle_request V E now sync_initial (Some request) POST st =
    (Ret (stringify E (JObject
       [(''responseCode'', JLong 0), (''lockTime'', JLong now),
        (''sendAccountsToServerList'', JArray (map JString (to_server m vs))),
        (''accountsToSendBackToClient'', JArray (map (\<lambda>(k, a). account_json k a) (to_client m vs)))])),
     st\<lparr>data := s'\<rparr>)"
proof -
  obtain w where w: "sync_loop (json_lib E) pDoc [0..<length vs]
      \<lparr>accounts = m, sendAccountsToServerList = [], accountsToSendBackToClient = []\<rparr> = Ret w"
    "sendAccountsToServerList w = to_server m vs"
    "accountsToSendBackToClient w @ rest_json (accounts w) = map (\<lambda>(k, a). account_json k a) (to_client m vs)"
    using sync_reply_reference [OF assms(6,7,5)] by blast
  have "get_elements_count (json_lib E) pDoc ''accounts'' = Some (length vs)"
    using assms(6) by (simp add: presents_def)
  then have "sync_accounts V E now pDoc email st =
      (Ret (stringify E (sync_reply now w)), st\<lparr>data := s'\<rparr>)"
    using assms(4) w(1) by (simp add: sync_accounts_def call_store_def)
  then have "dispatch V E now sync_initial (Some request) POST st =
      (Ret (stringify E (sync_reply now w)), st\<lparr>data := s'\<rparr>)"
    using assms(1-3) by (simp add: dispatch_def handle_sync_initial_def authenticate_def authentic_def)
  then show ?thesis by (simp add: handle_request_def sync_reply_def w(2,3))
qed

theorem sync_initial_reconciles_witness:
  "handle_request mem_store (sample_env (ann_request ''secret'' [(''a'', 3), (''b'', 1), (''z'', 1)] [])) 5
     sync_initial (Some ''{}'') POST
     (ann_server [(''a'', sample_account ''a'' 1), (''b'', sample_account ''b'' 4), (''c'', sample_account ''c'' 4)]) =
   (Ret (json_text (JObject
       [(''responseCode'', JLong 0), (''lockTime'', JLong 5),
        (''sendAccountsToServerList'', JArray [JString ''a'', JString ''z'']),
        (''accountsToSendBackToClient'', JArray
           [account_json ''b'' (sample_account ''b'' 4), account_json ''c'' (sample_account ''c'' 4)])])),
    ann_server [(''a'', sample_account ''a'' 1), (''b'', sample_account ''b'' 4), (''c'', sample_account ''c'' 4)])"
proof -
  let ?d = "ann_request ''secret'' [(''a'', 3), (''b'', 1), (''z'', 1)] []"
  let ?m = "[(''a'', sample_account ''a'' 1), (''b'', sample_account ''b'' 4), (''c'', sample_account ''c'' 4)]"
  let ?vs = "[(''a'', 3), (''b'', 1), (''z'', 1)] :: (string \<times> int) list"
  have p: "account_path 0 x = ''/accounts/0/'' @ x" "account_path (Suc 0) x = ''/accounts/1/'' @ x"
    "account_path (Suc (Suc 0)) x = ''/accounts/2/'' @ x" for x
  proof -
    have "show_int 0 = ''0''" "show_int 1 = ''1''" "show_int 2 = ''2''" by code_simp+
    then show "account_path 0 x = ''/accounts/0/'' @ x" "account_path (Suc 0) x = ''/accounts/1/'' @ x"
      "account_path (Suc (Suc 0)) x = ''/accounts/2/'' @ x" by (simp_all add: account_path_def)
  qed
  have pr: "presents (json_lib (sample_env ?d)) ?d ?vs"
    by (simp add: presents_def sample_simps p All_less_Suc)
  have au: "authentic (sample_env ?d) ''{}'' (ann_server ?m)"
    by (simp add: authentic_def verify_password_def sample_simps)
  have "to_server ?m ?vs = [''a'', ''z'']" "to_client ?m ?vs = [(''b'', sample_account ''b'' 4), (''c'', sample_account ''c'' 4)]"
    by (simp_all add: to_server_def to_client_def client_newer_def server_newer_def sample_account_def)
  moreover have "keyed ?m" by (simp add: keyed_def sample_account_def)
  ultimately show ?thesis
    using sync_initial_reconciles [OF _ _ au _ _ pr, of "''ann@example.com''" mem_store ?m "data (ann_server ?m)" 5]
    by (simp add: sample_env_def sample_json_def ann_request_def mem_store_def ann_server_def accounts_of_def)
qed

section \<open>Both sides end with the newest version\<close>

lemma map_of_filter_keys: "map_of (filter (\<lambda>(k, a). k \<notin> S) m) k = (if k \<in> S then None else map_of m k)"
  by (induction m) auto

lemma to_server_iff:
  assumes "distinct (map fst vs)"
  shows "k \<in> set (to_server m vs) \<longleftrightarrow>
    (case map_of vs k of None \<Rightarrow> False | Some t \<Rightarrow> client_newer m (k, t))"
proof -
  have "k \<in> set (to_server m vs) \<longleftrightarrow> (\<exists>t. (k, t) \<in> set vs \<and> client_newer m (k, t))"
    by (auto simp: to_server_def image_iff)
  then show ?thesis by (auto simp flip: map_of_eq_Some_iff [OF assms] split: option.splits)
qed

lemma to_client_iff:
  assumes "distinct (map fst vs)" "smap_inv m"
  shows "(k, a) \<in> set (to_client m vs) \<longleftrightarrow> map_of m k = Some a \<and>
    (case map_of vs k of None \<Rightarrow> True | Some t \<Rightarrow> t < update_time a)"
proof -
  have m: "(k, a) \<in> set m \<longleftrightarrow> map_of m k = Some a" by (rule smap.entries_iff [OF assms(2)])
  have l: "(k, a) \<in> (\<lambda>v. (fst v, the (map_of m (fst v)))) ` set (filter (server_newer m) vs) \<longleftrightarrow>
      (\<exists>t. map_of vs k = Some t \<and> map_of m k = Some a \<and> t < update_time a)"
    using assms(1) by (force simp: server_newer_def image_iff split: option.splits)
  have r: "(k, a) \<in> set (filter (\<lambda>(k, a). k \<notin> fst ` set vs) m) \<longleftrightarrow> map_of m k = Some a \<and> map_of vs k = None"
    using m by (auto simp: map_of_eq_None_iff)
  show ?thesis unfolding to_client_def set_append Un_iff set_map l r
    by (cases "map_of vs k") auto
qed

definition newest :: "account option \<Rightarrow> account option \<Rightarrow> account option \<Rightarrow> bool" where
  "newest x y r \<longleftrightarrow>
     (r = None \<longleftrightarrow> x = None \<and> y = None) \<and> (r = x \<or> r = y) \<and>
     (\<forall>a b. r = Some b \<longrightarrow> x = Some a \<or> y = Some a \<longrightarrow> update_time a \<le> update_time b)"

text \<open>
  C6: no version of an account is lost to an older one. Let the client hold the accounts
  \<open>c\<close> and present their names and times, and the store hold \<open>m\<close>. After the loop of
  \<open>sync-initial\<close>, if the store takes over the accounts the client is asked for and the client
  those it is sent, then for every name both hold a newest version of the two, and hold an account
  of that name exactly when one of them did; where the two versions have equal times each side
  keeps its own.
\<close>

theorem sync_initial_converges:
  assumes "presents J pDoc (map (\<lambda>(k, a). (k, update_time a)) c)"
    and "smap_inv c" "smap_inv m" "keyed m"
    and "sync_loop J pDoc [0..<length c]
      \<lparr>accounts = m, sendAccountsToServerList = [], accountsToSendBackToClient = []\<rparr> = Ret w"
  shows "newest (map_of c k) (map_of m k)
      (if k \<in> set (sendAccountsToServerList w) then map_of c k else map_of m k) \<and>
    (\<exists>sent. accountsToSendBackToClient w @ rest_json (accounts w) = map (\<lambda>(k, a). account_json k a) sent \<and>
      newest (map_of c k) (map_of m k)
        (if k \<in> fst ` set sent then map_of sent k else map_of c k))"
proof -
  let ?vs = "map (\<lambda>(k, a). (k, update_time a)) c"
  have f: "map fst ?vs = map fst c" by (simp add: comp_def case_prod_beta)
  have d: "distinct (map fst ?vs)" unfolding f by (rule smap.distinct_entries [OF assms(2)])
  have v: "map_of ?vs k = map_option update_time (map_of c k)" for k by (induction c) auto
  obtain w' where w': "sync_loop J pDoc [0..<length ?vs]
      \<lparr>accounts = m, sendAccountsToServerList = [], accountsToSendBackToClient = []\<rparr> = Ret w'"
    "sendAccountsToServerList w' = to_server m ?vs"
    "accountsToSendBackToClient w' @ rest_json (accounts w') = map (\<lambda>(k, a). account_json k a) (to_client m ?vs)"
    using sync_reply_reference [OF assms(1) d assms(4)] by blast
  with assms(5) have w: "sendAccountsToServerList w = to_server m ?vs"
    "accountsToSendBackToClient w @ rest_json (accounts w) = map (\<lambda>(k, a). account_json k a) (to_client m ?vs)"
    by simp_all
  have s: "newest (map_of c k) (map_of m k) (if k \<in> set (to_server m ?vs) then map_of c k else map_of m k)"
    unfolding to_server_iff [OF d] v
    by (cases "map_of c k"; cases "map_of m k") (auto simp: newest_def client_newer_def)
  have key: "k \<in> fst ` set (to_client m ?vs) \<longleftrightarrow> (\<exists>a. map_of m k = Some a \<and>
      (case map_of c k of None \<Rightarrow> True | Some b \<Rightarrow> update_time b < update_time a))"
    using to_client_iff [OF d assms(3), of k] v [of k] by (force simp: image_iff split: option.splits)
  have val: "map_of (to_client m ?vs) k = map_of m k" if "k \<in> fst ` set (to_client m ?vs)"
  proof -
    from that have "map_of (to_client m ?vs) k \<noteq> None" by (simp add: map_of_eq_None_iff)
    then obtain a where "map_of (to_client m ?vs) k = Some a" by auto
    with map_of_SomeD [OF this] to_client_iff [OF d assms(3)] show ?thesis by simp
  qed
  have "newest (map_of c k) (map_of m k)
      (if k \<in> fst ` set (to_client m ?vs) then map_of (to_client m ?vs) k else map_of c k)"
    using val unfolding key
    by (cases "map_of c k"; cases "map_of m k") (auto simp: newest_def)
  with s show ?thesis unfolding w by blast
qed

theorem sync_initial_converges_witness:
  "\<exists>w. sync_loop (sample_json (ann_request ''secret'' [(''a'', 3)] [])) (ann_request ''secret'' [(''a'', 3)] []) [0..<1]
     \<lparr>accounts = [(''a'', sample_account ''a'' 1)], sendAccountsToServerList = [], accountsToSendBackToClient = []\<rparr> = Ret w \<and>
   newest (Some (sample_account ''a'' 3)) (Some (sample_account ''a'' 1))
     (if ''a'' \<in> set (sendAccountsToServerList w) then Some (sample_account ''a'' 3) else Some (sample_account ''a'' 1))"
proof -
  let ?d = "ann_request ''secret'' [(''a'', 3)] []"
  let ?c = "[(''a'', sample_account ''a'' 3)]"
  have pr: "presents (sample_json ?d) ?d (map (\<lambda>(k, a). (k, update_time a)) ?c)"
    by (simp add: presents_def sample_json_def ann_request_def sample_account_def account_path_def)
  obtain w where w: "sync_loop (sample_json ?d) ?d [0..<length ?c]
     \<lparr>accounts = [(''a'', sample_account ''a'' 1)], sendAccountsToServerList = [], accountsToSendBackToClient = []\<rparr> = Ret w"
    by (simp add: sample_json_def ann_request_def account_path_def sync_account_def sample_account_def Let_def)
  have "smap_inv ?c" "smap_inv [(''a'', sample_account ''a'' 1)]" "keyed [(''a'', sample_account ''a'' 1)]"
    by (simp_all add: smap_inv_def keyed_def sample_account_def)
  from sync_initial_converges [OF pr this w, of "''a''"] w show ?thesis by auto
qed

section \<open>What sync-final writes\<close>

lemma read_accounts_owner:
  "read_accounts J pDoc email es = Some as \<Longrightarrow> a \<in> set as \<Longrightarrow> account_uuid a = email"
  by (induction J pDoc email es arbitrary: as rule: read_accounts.induct)
    (auto simp: read_account_def split: option.splits)

lemma store_accounts_success:
  "(\<exists>x. fst (store_accounts V now email accts st) = Ret x) \<longleftrightarrow>
    (\<exists>s' s''. upsert_accounts_for_user V email accts (data st) = (Ret True, s') \<and>
       update_last_sync_for_user V email now s' = (Ret True, s'') \<and>
       snd (store_accounts V now email accts st) = st\<lparr>data := s''\<rparr>)"
proof -
  obtain o1 s1 where u: "upsert_accounts_for_user V email accts (data st) = (o1, s1)" by fastforce
  obtain o2 s2 where l: "update_last_sync_for_user V email now s1 = (o2, s2)" by fastforce
  show ?thesis
    by (cases o1; cases o2) (auto simp: store_accounts_def call_store_def throw_reply_def u l)
qed

lemma receive_accounts_success:
  "(\<exists>x. fst (receive_accounts V E now pDoc email st) = Ret x) \<longleftrightarrow>
    (\<exists>i es accts s' s''. get_object_id (json_lib E) pDoc ''/accounts'' = Some i \<and>
       array_elements (json_lib E) pDoc i = Some es \<and> read_accounts (json_lib E) pDoc email es = Some accts \<and>
       upsert_accounts_for_user V email accts (data st) = (Ret True, s') \<and>
       update_last_sync_for_user V email now s' = (Ret True, s'') \<and>
       snd (receive_accounts V E now pDoc email st) = st\<lparr>data := s''\<rparr>)"
  using store_accounts_success [of V now email _ st]
  by (auto simp: receive_accounts_def throw_reply_def split: option.splits)

lemma authenticate_success:
  "(\<exists>x. fst (authenticate E status request k st) = Ret x) \<longleftrightarrow>
    authentic E request st \<and> (\<exists>pDoc email. parse (json_lib E) request = Some pDoc \<and>
      get_string_value (json_lib E) pDoc ''/user'' = Some email \<and> (\<exists>x. fst (k pDoc email st) = Ret x))"
  "parse (json_lib E) request = Some pDoc \<Longrightarrow> get_string_value (json_lib E) pDoc ''/user'' = Some email \<Longrightarrow>
    authentic E request st \<Longrightarrow> authenticate E status request k st = k pDoc email st"
  by (auto simp: authenticate_def authentic_def throw_reply_def Let_def split: option.splits outcome.splits if_splits)

text \<open>
  C7: \<open>sync-final\<close> is answered with a success exactly when the request is authentic and both
  store operations reported success, in this order: the accounts of the request, every one with the
  address of the authenticated user as its owner, were handed to the upsert of that user, and after it
  the time of the synchronisation was stored. A client cannot name another owner in its message, nor get its
  synchronisation time stored after a failed upsert. What the store writes for the accounts it is handed is
  a matter of the store: on Postgres an account with quotes in it can reach another user.
\<close>

theorem sync_final_writes:
  "(\<exists>x. fst (handle_request V E now sync_final (Some request) POST st) = Ret x) \<longleftrightarrow>
    authentic E request st \<and> (\<exists>pDoc email i es accts s' s''.
       parse (json_lib E) request = Some pDoc \<and> request_user E sync_final request = Some email \<and>
       get_object_id (json_lib E) pDoc ''/accounts'' = Some i \<and> array_elements (json_lib E) pDoc i = Some es \<and>
       read_accounts (json_lib E) pDoc email es = Some accts \<and> account_uuid ` set accts \<subseteq> {email} \<and>
       upsert_accounts_for_user V email accts (data st) = (Ret True, s') \<and>
       update_last_sync_for_user V email now s' = (Ret True, s'') \<and>
       snd (handle_request V E now sync_final (Some request) POST st) = st\<lparr>data := s''\<rparr>)"
proof -
  let ?r = "authenticate E HTTP_403 request (receive_accounts V E now) st"
  have d: "dispatch V E now sync_final (Some request) POST st = ?r"
    by (simp add: dispatch_def handle_sync_final_def)
  have o: "account_uuid ` set accts \<subseteq> {email}" if "read_accounts J pDoc email es = Some accts" for J pDoc email es accts
    using read_accounts_owner [OF that] by blast
  show ?thesis
  proof (cases "authentic E request st \<and> (\<exists>pDoc email. parse (json_lib E) request = Some pDoc \<and>
      get_string_value (json_lib E) pDoc ''/user'' = Some email)")
    case False
    then show ?thesis
      unfolding handle_request_dispatch d authenticate_success(1) by (auto simp: request_user_def)
  next
    case True
    then obtain pDoc email where e: "parse (json_lib E) request = Some pDoc"
      "get_string_value (json_lib E) pDoc ''/user'' = Some email" "authentic E request st" by blast
    have u: "request_user E sync_final request = Some email" using e by (simp add: request_user_def)
    show ?thesis
      unfolding handle_request_dispatch d authenticate_success(2) [OF e] u receive_accounts_success
      using e o by fastforce
  qed
qed

end
