(* ===== verification/Pools.thy ===== *)
theory Pools
  imports Maintenance
begin

text \<open>
  The interface between a data store and its connection pool: taking a connection out of the pool
  and giving it back. What the pool promises is how the number of connections in use moves; what
  the store proves from it is that an operation gives back what it took.
\<close>

locale pool_ops =
  fixes used :: "'s \<Rightarrow> int"
    and acquire :: "('s, 'c) store_op"
    and release :: "'c \<Rightarrow> 's \<Rightarrow> 's"
  assumes used_acquire: "acquire s = (Ret c, s') \<Longrightarrow> used s' = used s + 1"
    and used_release: "used (release c s) = used s - 1"
begin

text \<open>Running a body with a connection, the connection given back when the body returns.\<close>

definition with_connection :: "('c \<Rightarrow> ('s, 'a) store_op) \<Rightarrow> ('s, 'a) store_op" where
  "with_connection body s =
     seq_op (acquire s) (\<lambda>c s. seq_op (body c s) (\<lambda>x s. (Ret x, release c s)))"

lemma with_connection_used:
  assumes "\<And>c s x s'. body c s = (Ret x, s') \<Longrightarrow> used s' = used s"
    and "with_connection body s = (Ret y, s')"
  shows "used s' = used s"
proof -
  obtain o1 s1 where a: "acquire s = (o1, s1)" by fastforce
  then obtain c where c: "o1 = Ret c" using assms(2) by (cases o1) (auto simp: with_connection_def)
  obtain o2 s2 where b: "body c s1 = (o2, s2)" by fastforce
  then have "o2 = Ret y" "s' = release c s2"
    using assms(2) a c by (cases o2; auto simp: with_connection_def)+
  with used_acquire [OF a [unfolded c]] assms(1) [of c s1 y s2] b show ?thesis by (simp add: used_release)
qed

end

section \<open>The state of a store\<close>

text \<open>
  The members both stores inherit, and the world their client library works on. The count is
  atomic with the list: both change under \<open>connections_mutex\<close>.
\<close>

record ('c, 'w) store_state =
  pool :: "'c conn_pool"
  net :: 'w

definition add_count :: "int \<Rightarrow> ('c, 'w) store_state \<Rightarrow> ('c, 'w) store_state" where
  "add_count k st = st\<lparr>pool := (pool st)\<lparr>currentConnections := currentConnections (pool st) + k\<rparr>\<rparr>"

definition set_idle :: "'c list \<Rightarrow> ('c, 'w) store_state \<Rightarrow> ('c, 'w) store_state" where
  "set_idle cs st = st\<lparr>pool := (pool st)\<lparr>connections := cs\<rparr>\<rparr>"

definition conns_used :: "('c, 'w) store_state \<Rightarrow> int" where
  "conns_used st = in_use (pool st)"

lemma conns_used_simps [simp]:
  "conns_used (st\<lparr>net := w\<rparr>) = conns_used st"
  "conns_used (add_count k st) = conns_used st + k"
  "conns_used (set_idle cs st) = currentConnections (pool st) - int (length cs)"
  by (simp_all add: conns_used_def in_use_def add_count_def set_idle_def)

lemma conns_used_pop: "connections (pool st) = c # cs \<Longrightarrow> conns_used (set_idle cs st) = conns_used st + 1"
  by (simp add: conns_used_def in_use_def set_idle_def)

lemma conns_used_push: "conns_used (set_idle (c # connections (pool st)) st) = conns_used st - 1"
  by (simp add: conns_used_def in_use_def set_idle_def)

lemma add_count_add [simp]: "add_count j (add_count k st) = add_count (k + j) st"
  by (simp add: add_count_def)

section \<open>Bounded repetition\<close>

text \<open>
  A loop of at most \<open>n\<close> rounds moves a measure down by at most \<open>n\<close>, and never up, when each
  round moves it down by at most one.
\<close>

definition drifts :: "nat \<Rightarrow> ('s \<Rightarrow> int) \<Rightarrow> ('s, 'a) store_op \<Rightarrow> bool" where
  "drifts n f m \<longleftrightarrow> (\<forall>s x s'. m s = (Ret x, s') \<longrightarrow> f s' \<le> f s \<and> f s - int n \<le> f s')"

lemma drifts_mono: "drifts n f m \<Longrightarrow> n \<le> k \<Longrightarrow> drifts k f m"
  by (force simp: drifts_def)

lemma drifts_seq:
  assumes "drifts n f m" "\<And>x. drifts k f (g x)"
  shows "drifts (n + k) f (\<lambda>s. seq_op (m s) g)"
  unfolding drifts_def
proof (intro allI impI)
  fix s y s'
  assume r: "seq_op (m s) g = (Ret y, s')"
  obtain o1 s1 where m: "m s = (o1, s1)" by fastforce
  with r obtain x where x: "o1 = Ret x" by (cases o1) auto
  with r m have "g x s1 = (Ret y, s')" by simp
  with assms m x have "f s1 \<le> f s" "f s - int n \<le> f s1" "f s' \<le> f s1" "f s1 - int k \<le> f s'"
    by (auto simp: drifts_def)
  then show "f s' \<le> f s \<and> f s - int (n + k) \<le> f s'" by simp
qed

lemma drifts_ret: "drifts 0 f (\<lambda>s. (Ret x, s))"
  by (simp add: drifts_def)

text \<open>The same with a bound for what is thrown: down by at most \<open>n\<close> on a result, by at most \<open>k\<close> on an exception.\<close>

definition settles :: "nat \<Rightarrow> nat \<Rightarrow> ('s \<Rightarrow> int) \<Rightarrow> ('s, 'a) store_op \<Rightarrow> bool" where
  "settles n k f m \<longleftrightarrow> drifts n f m \<and> (\<forall>s e s'. m s = (Throw e, s') \<longrightarrow> f s' \<le> f s \<and> f s - int k \<le> f s')"

lemma settles_drifts: "settles n k f m \<Longrightarrow> drifts n f m"
  by (simp add: settles_def)

lemma settles_throw: "settles n k f m \<Longrightarrow> m s = (Throw e, s') \<Longrightarrow> f s' \<le> f s \<and> f s - int k \<le> f s'"
  by (simp add: settles_def)

end
