(* ===== verification/RedisStore.thy ===== *)
theory RedisStore
  imports Pools
begin

text \<open>
  \<open>RedisStore\<close>: the data store on Redis. The client library \<open>hiredis\<close> with the server behind
  it is a parameter: a record of the calls the code makes, on connections \<open>'c\<close> and a world
  \<open>'w\<close>. The store owns a pool of connections and repeats every operation a bounded number of
  times.
\<close>

section \<open>hiredis\<close>

datatype redis_reply =
    Reply_error string
  | Reply_status string
  | Reply_integer int
  | Reply_string string
  | Reply_nil
  | Reply_array "redis_reply list"

text \<open>
  The commands the code sends. \<open>redisCommand\<close> splits its format at spaces before it puts in the
  arguments, so an argument stays one word whatever it holds.
\<close>

datatype command =
    PING
  | AUTH string string
  | DEL string
  | SET string string
  | GET string
  | HSET string string string
  | HMSET string "(string \<times> string) list"
  | HDEL string string
  | HKEYS string
  | HGETALL string

text \<open>\<open>redisErr\<close> is \<open>c->err != REDIS_OK\<close>; None is a null pointer; a true \<open>redisGetReply\<close> is \<open>REDIS_OK\<close>.\<close>

record ('c, 'w) redis =
  redisConnect :: "string \<Rightarrow> int \<Rightarrow> 'w \<Rightarrow> 'c option \<times> 'w"
  redisErr :: "'c \<Rightarrow> 'w \<Rightarrow> bool"
  redisCommand :: "'c \<Rightarrow> command \<Rightarrow> 'w \<Rightarrow> redis_reply option \<times> 'w"
  redisAppendCommand :: "'c \<Rightarrow> command \<Rightarrow> 'w \<Rightarrow> 'w"
  redisGetReply :: "'c \<Rightarrow> 'w \<Rightarrow> (bool \<times> redis_reply option) \<times> 'w"
  redisFree :: "'c \<Rightarrow> 'w \<Rightarrow> 'w"
  redis_config :: config
  test_fuel :: nat

definition REDIS_MAX_ATTEMPS :: nat where
  "REDIS_MAX_ATTEMPS = 3"

definition ACCOUNT_MEMBERS :: nat where
  "ACCOUNT_MEMBERS = 14"

definition accounts_key :: "string \<Rightarrow> string" where
  "accounts_key u = u @ ''.accounts''"

definition account_key :: "string \<Rightarrow> string \<Rightarrow> string" where
  "account_key u n = u @ ''.account.'' @ n"

definition lastSync_key :: "string \<Rightarrow> string" where
  "lastSync_key u = u @ ''.lastSync''"

definition set_account :: "string \<Rightarrow> account \<Rightarrow> command" where
  "set_account u a = HMSET (account_key u (account_name a))
     [(''account_name'', account_name a), (''user_name'', user_name a), (''password'', password a),
      (''old_password'', old_password a), (''url'', url a), (''update_time'', show_int (update_time a)),
      (''deleted'', show_int (if deleted a then 1 else 0))]"

section \<open>Connections\<close>

definition areReplyErrors :: "redis_reply option \<Rightarrow> bool" where
  "areReplyErrors reply = (case reply of None \<Rightarrow> True | Some (Reply_error e) \<Rightarrow> True | Some r \<Rightarrow> False)"

text \<open>\<open>reply->str\<close> and \<open>reply->elements\<close>.\<close>

fun reply_str :: "redis_reply \<Rightarrow> string option" where
  "reply_str (Reply_error s) = Some s"
| "reply_str (Reply_status s) = Some s"
| "reply_str (Reply_string s) = Some s"
| "reply_str _ = None"

fun reply_elements :: "redis_reply \<Rightarrow> redis_reply list" where
  "reply_elements (Reply_array rs) = rs"
| "reply_elements _ = []"

definition redis_command ::
  "('c, 'w) redis \<Rightarrow> 'c \<Rightarrow> command \<Rightarrow> ('c, 'w) store_state \<Rightarrow> redis_reply option \<times> ('c, 'w) store_state" where
  "redis_command R c cmd st = (case redisCommand R c cmd (net st) of (r, w) \<Rightarrow> (r, st\<lparr>net := w\<rparr>))"

definition append_commands ::
  "('c, 'w) redis \<Rightarrow> 'c \<Rightarrow> command list \<Rightarrow> ('c, 'w) store_state \<Rightarrow> ('c, 'w) store_state" where
  "append_commands R c cmds st = st\<lparr>net := fold (redisAppendCommand R c) cmds (net st)\<rparr>"

definition createConnection ::
  "('c, 'w) redis \<Rightarrow> ('c, 'w) store_state \<Rightarrow> 'c option \<times> ('c, 'w) store_state" where
  "createConnection R st =
     (case redisConnect R (redis_server (redis_config R)) (redis_port (redis_config R)) (net st) of
        (None, w) \<Rightarrow> (None, st\<lparr>net := w\<rparr>)
      | (Some c, w) \<Rightarrow>
          if redisErr R c w then (None, st\<lparr>net := redisFree R c w\<rparr>)
          else
            (case redisCommand R c (AUTH (redis_username (redis_config R)) (redis_password (redis_config R))) w of
               (reply, w') \<Rightarrow>
                 if areReplyErrors reply then (None, st\<lparr>net := redisFree R c w'\<rparr>)
                 else (Some c, st\<lparr>net := w'\<rparr>)))"

definition releaseConnection :: "('c, 'w) redis \<Rightarrow> 'c option \<Rightarrow> ('c, 'w) store_state \<Rightarrow> ('c, 'w) store_state" where
  "releaseConnection R c st =
     (case c of
        Some x \<Rightarrow>
          if \<not> redisErr R x (net st) then set_idle (x # connections (pool st)) st
          else add_count (- 1) (st\<lparr>net := redisFree R x (net st)\<rparr>)
      | None \<Rightarrow> add_count (- 1) st)"

text \<open>
  \<open>getConnection\<close> and \<open>testConnection\<close>, which call each other. With no idle connection and
  the pool at its maximum the caller waits for another thread (Blocked). A server that accepts
  connections and answers no \<open>PING\<close> keeps \<open>testConnection\<close> in its loop; the fuel bounds the
  number of tests, and running out of it is Blocked as well.
\<close>

function (sequential)
  getConnection :: "('c, 'w) redis \<Rightarrow> nat \<Rightarrow> bool \<Rightarrow> (('c, 'w) store_state, 'c) store_op" and
  testConnection :: "('c, 'w) redis \<Rightarrow> nat \<Rightarrow> 'c \<Rightarrow> (('c, 'w) store_state, 'c) store_op"
where
  "getConnection R n testConn st =
     (case connections (pool st) of
        c # cs \<Rightarrow>
          if testConn then testConnection R n c (set_idle cs st) else (Ret c, set_idle cs st)
      | [] \<Rightarrow>
          if currentConnections (pool st) < redis_max_connections (redis_config R) then
            (case createConnection R st of
               (Some c, st') \<Rightarrow> (Ret c, add_count 1 st')
             | (None, st') \<Rightarrow> (Throw ''Unable to create new Redis Connection'', st'))
          else (Blocked, st))"
| "testConnection R 0 c st = (Blocked, st)"
| "testConnection R (Suc n) c st =
     (case redis_command R c PING st of
        (reply, st') \<Rightarrow>
          if \<not> areReplyErrors reply then (Ret c, st')
          else
            seq_op (getConnection R n True (releaseConnection R (Some c) st'))
              (\<lambda>c' st''. testConnection R n c' st''))"
  by pat_completeness auto
termination
  by (relation "measure (\<lambda>x. case x of Inl (R, n, t, st) \<Rightarrow> 2 * n + 1 | Inr (R, n, c, st) \<Rightarrow> 2 * n)") auto

declare getConnection.simps [simp del]

text \<open>
  \<open>eatPipelineReplies\<close>: a reply that arrives counts as a success, an error reply of the server
  included. \<open>redisGetReply\<close> leaves the pointer \<open>reply\<close> alone when it fails; \<open>freed\<close> tells that it still
  points to the reply before, which has been freed and is then read.
\<close>

fun eatPipelineReplies ::
  "('c, 'w) redis \<Rightarrow> nat \<Rightarrow> 'c \<Rightarrow> bool \<Rightarrow> (('c, 'w) store_state, bool) store_op" where
  "eatPipelineReplies R 0 c freed st = (Ret True, st)"
| "eatPipelineReplies R (Suc n) c freed st =
     (case redisGetReply R c (net st) of
        ((ok, reply), w) \<Rightarrow>
          if ok then eatPipelineReplies R n c True (st\<lparr>net := w\<rparr>)
          else (if freed then Undefined else Ret False, st\<lparr>net := w\<rparr>))"

section \<open>Repeating an operation\<close>

text \<open>
  One attempt: get a connection, run the body with it, release it. What \<open>getConnection\<close> throws
  is caught; the connection pointer is null then, and is released nevertheless. The second
  component of the result is \<open>testConn\<close> for the next attempt.
\<close>

definition attempt ::
  "('c, 'w) redis \<Rightarrow> 'b \<Rightarrow> bool \<Rightarrow> ('c \<Rightarrow> (('c, 'w) store_state, 'b) store_op) \<Rightarrow>
   (('c, 'w) store_state, 'b \<times> bool) store_op" where
  "attempt R on_throw testConn body st =
     (case getConnection R (test_fuel R) testConn st of
        (Ret c, st') \<Rightarrow>
          seq_op (body c st') (\<lambda>x st''. (Ret (x, True), releaseConnection R (Some c) st''))
      | (Throw e, st') \<Rightarrow> (Ret (on_throw, testConn), releaseConnection R None st')
      | (Blocked, st') \<Rightarrow> (Blocked, st')
      | (Undefined, st') \<Rightarrow> (Undefined, st'))"

text \<open>The \<open>do ... while (!success && attempt++ ...)\<close> loops, with the number of rounds they make.\<close>

fun retry ::
  "nat \<Rightarrow> ('acc \<Rightarrow> bool \<Rightarrow> ('s, (bool \<times> 'acc) \<times> bool) store_op) \<Rightarrow> 'acc \<Rightarrow> bool \<Rightarrow>
   ('s, bool \<times> 'acc) store_op" where
  "retry 0 step acc testConn st = (Ret (False, acc), st)"
| "retry (Suc n) step acc testConn st =
     seq_op (step acc testConn st) (\<lambda>((success, acc'), testConn') st'.
       if success then (Ret (True, acc'), st') else retry n step acc' testConn' st')"

definition result_flag :: "(string, bool \<times> 'acc) outcome \<times> 's \<Rightarrow> (string, bool) outcome \<times> 's" where
  "result_flag r = seq_op r (\<lambda>(success, acc) st. (Ret success, st))"

section \<open>Operations\<close>

definition pipeline ::
  "('c, 'w) redis \<Rightarrow> command list \<Rightarrow> 'c \<Rightarrow> (('c, 'w) store_state, bool) store_op" where
  "pipeline R cmds c st = eatPipelineReplies R (length cmds) c False (append_commands R c cmds st)"

definition ret_flag :: "(string, bool) outcome \<times> 's \<Rightarrow> (string, bool \<times> unit) outcome \<times> 's" where
  "ret_flag r = seq_op r (\<lambda>ok st. (Ret (ok, ()), st))"

definition redis_createUser :: "('c, 'w) redis \<Rightarrow> User \<Rightarrow> (('c, 'w) store_state, bool) store_op" where
  "redis_createUser R u st =
     result_flag (retry REDIS_MAX_ATTEMPS
       (\<lambda>_ testConn. attempt R (False, ()) testConn (\<lambda>c st. ret_flag (pipeline R
          [HSET ''USERS'' (User_uuid u) (User_password u),
           SET (lastSync_key (User_uuid u)) (show_int (User_last_sync u)),
           DEL (accounts_key (User_uuid u))] c st)))
       () False st)"

text \<open>The names in a reply to \<open>HKEYS\<close>; None where an element has no string.\<close>

definition reply_names :: "redis_reply list \<Rightarrow> string list option" where
  "reply_names rs = (if \<exists>r \<in> set rs. reply_str r = None then None else Some (map (the \<circ> reply_str) rs))"

definition redis_delete_user :: "('c, 'w) redis \<Rightarrow> User \<Rightarrow> (('c, 'w) store_state, bool) store_op" where
  "redis_delete_user R u st =
     (let uuid = User_uuid u in
      result_flag (retry (Suc REDIS_MAX_ATTEMPS)
        (\<lambda>_ testConn. attempt R (False, ()) testConn (\<lambda>c st.
           case redis_command R c (HKEYS (accounts_key uuid)) st of
             (reply, st) \<Rightarrow>
               if areReplyErrors reply then (Ret (False, ()), st)
               else
                 (case reply of
                    Some (Reply_array rs) \<Rightarrow>
                      (case reply_names rs of
                         None \<Rightarrow> (Undefined, st)
                       | Some names \<Rightarrow>
                           seq_op (pipeline R (map (\<lambda>n. DEL (account_key uuid n)) names) c st) (\<lambda>ok st.
                             if \<not> ok then (Ret (False, ()), st)
                             else
                               ret_flag (pipeline R
                                 [DEL (accounts_key uuid), HDEL ''USERS'' uuid, DEL (lastSync_key uuid)] c st)))
                  | _ \<Rightarrow> (Ret (False, ()), st))))
        () False st))"

definition redis_update_last_sync ::
  "('c, 'w) redis \<Rightarrow> string \<Rightarrow> int \<Rightarrow> (('c, 'w) store_state, bool) store_op" where
  "redis_update_last_sync R u lastSync st =
     result_flag (retry (Suc REDIS_MAX_ATTEMPS)
       (\<lambda>_ testConn. attempt R (True, ()) testConn (\<lambda>c st.
          ret_flag (pipeline R [SET (lastSync_key u) (show_int lastSync)] c st)))
       () False st)"

definition redis_upsert ::
  "('c, 'w) redis \<Rightarrow> string \<Rightarrow> account list \<Rightarrow> (('c, 'w) store_state, bool) store_op" where
  "redis_upsert R u accts st =
     result_flag (retry (Suc REDIS_MAX_ATTEMPS)
       (\<lambda>_ testConn. attempt R (True, ()) testConn (\<lambda>c st.
          ret_flag (pipeline R
            (concat (map (\<lambda>a. [HSET (accounts_key u) (account_name a) ''1'', set_account u a]) accts)) c st)))
       () False st)"

subsection \<open>Reading accounts\<close>

text \<open>
  What the loop over the fields of one account has found; None is a variable not yet assigned.
  The strings belong to the current reply; \<open>deleted\<close> and \<open>updateTime\<close> keep their value from
  one account to the next.
\<close>

record account_row =
  row_name :: "string option"
  row_pass :: "string option"
  row_old :: "string option"
  row_user :: "string option"
  row_url :: "string option"
  row_deleted :: "bool option"
  row_time :: "int option"

text \<open>A field is recognised by its first, or first two, characters. None is a null or wild read.\<close>

definition read_field :: "string \<Rightarrow> string option \<Rightarrow> account_row \<Rightarrow> account_row option" where
  "read_field f v row =
     (let c0 = (if f = [] then NUL else f ! 0)
      in if c0 = CHR ''a'' then map_option (\<lambda>s. row\<lparr>row_name := Some s\<rparr>) v
         else if c0 = CHR ''p'' then map_option (\<lambda>s. row\<lparr>row_pass := Some s\<rparr>) v
         else if c0 = CHR ''o'' then map_option (\<lambda>s. row\<lparr>row_old := Some s\<rparr>) v
         else if c0 = CHR ''d'' then map_option (\<lambda>s. row\<lparr>row_deleted := Some (s \<noteq> [] \<and> s ! 0 = CHR ''1'')\<rparr>) v
         else if f = [] then None
         else
           (let c1 = (if length f = 1 then NUL else f ! 1)
            in if c1 = CHR ''s'' then map_option (\<lambda>s. row\<lparr>row_user := Some s\<rparr>) v
               else if c1 = CHR ''r'' then map_option (\<lambda>s. row\<lparr>row_url := Some s\<rparr>) v
               else if c1 = CHR ''p'' then map_option (\<lambda>s. row\<lparr>row_time := Some (atol s)\<rparr>) v
               else Some row))"

fun read_fields :: "redis_reply list \<Rightarrow> account_row \<Rightarrow> account_row option" where
  "read_fields (k # v # rs) row =
     (case reply_str k of
        None \<Rightarrow> None
      | Some f \<Rightarrow>
          (case read_field f (reply_str v) row of
             None \<Rightarrow> None
           | Some row' \<Rightarrow> read_fields rs row'))"
| "read_fields _ row = Some row"

definition row_account :: "string \<Rightarrow> account_row \<Rightarrow> account option" where
  "row_account u row =
     (case (row_name row, row_pass row, row_old row, row_user row, row_url row, row_time row, row_deleted row) of
        (Some n, Some p, Some oldp, Some usr, Some l, Some t, Some d) \<Rightarrow>
          Some \<lparr>account_name = n, account_uuid = u, user_name = usr, password = p, old_password = oldp,
                url = l, update_time = t, deleted = d\<rparr>
      | _ \<Rightarrow> None)"

definition account_strings :: "account \<Rightarrow> string list" where
  "account_strings a = [account_name a, password a, old_password a, user_name a, url a]"

text \<open>
  The loop over the replies to \<open>HGETALL\<close>, with the heap the strings are copied to. \<open>freed\<close>: the pointer
  \<open>reply\<close>, which a failing \<open>redisGetReply\<close> leaves alone, points to a freed reply; a reply that is skipped is not freed.
\<close>

fun read_rows ::
  "('c, 'w) redis \<Rightarrow> 'c \<Rightarrow> string \<Rightarrow> nat \<Rightarrow> bool \<Rightarrow> bool option \<times> int option \<Rightarrow> heap_list \<Rightarrow> account smap \<Rightarrow>
   (('c, 'w) store_state, bool \<times> (bool option \<times> int option) \<times> heap_list \<times> account smap) store_op" where
  "read_rows R c u 0 freed stale h accts st = (Ret (True, stale, h, accts), st)"
| "read_rows R c u (Suc n) freed stale h accts st =
     (case redisGetReply R c (net st) of
        ((False, reply), w) \<Rightarrow> (if freed then Undefined else Ret (False, stale, h, accts), st\<lparr>net := w\<rparr>)
      | ((True, None), w) \<Rightarrow> (Undefined, st\<lparr>net := w\<rparr>)
      | ((True, Some reply), w) \<Rightarrow>
          if length (reply_elements reply) \<noteq> ACCOUNT_MEMBERS then
            read_rows R c u n False stale h accts (st\<lparr>net := w\<rparr>)
          else
            (case read_fields (reply_elements reply)
                    \<lparr>row_name = None, row_pass = None, row_old = None, row_user = None, row_url = None,
                     row_deleted = fst stale, row_time = snd stale\<rparr> of
               None \<Rightarrow> (Undefined, st\<lparr>net := w\<rparr>)
             | Some row \<Rightarrow>
                 (case row_account u row of
                    None \<Rightarrow> (Undefined, st\<lparr>net := w\<rparr>)
                  | Some a \<Rightarrow>
                      (case copy_row (account_strings a) h of
                         Ret h' \<Rightarrow>
                           read_rows R c u n True (row_deleted row, row_time row) h'
                             (map_emplace (account_name a) a accts) (st\<lparr>net := w\<rparr>)
                       | _ \<Rightarrow> (Undefined, st\<lparr>net := w\<rparr>)))))"

text \<open>
  \<open>sz = cnt * 256; heap_head->heap = malloc (sz)\<close>: every attempt gives the head node new memory,
  while the current node and the index in it stay from the attempt before.
\<close>

definition new_head :: "nat \<Rightarrow> heap_list \<Rightarrow> heap_list" where
  "new_head cnt h = h\<lparr>nodes := butlast (nodes h) @ [unat (word_of_nat cnt * 256 :: u32)], sz := word_of_nat cnt * 256\<rparr>"

definition no_heap :: heap_list where
  "no_heap = \<lparr>nodes = [0], sz = 0, indx = 0\<rparr>"

definition redis_get_accounts ::
  "('c, 'w) redis \<Rightarrow> string \<Rightarrow> (('c, 'w) store_state, account smap) store_op" where
  "redis_get_accounts R u st =
     seq_op
       (retry (Suc REDIS_MAX_ATTEMPS)
         (\<lambda>(stale, h, accts) testConn. attempt R (False, stale, h, accts) testConn (\<lambda>c st.
            case redis_command R c (HKEYS (accounts_key u)) st of
              (reply, st) \<Rightarrow>
                if areReplyErrors reply then (Ret (False, stale, h, accts), st)
                else
                  (case reply of
                     Some (Reply_array rs) \<Rightarrow>
                       (case reply_names rs of
                          None \<Rightarrow> (Undefined, st)
                        | Some names \<Rightarrow>
                            read_rows R c u (length names) True stale (new_head (length names) h) accts
                              (append_commands R c (map (\<lambda>n. HGETALL (account_key u n)) names) st))
                   | _ \<Rightarrow> (Ret (False, stale, h, accts), st))))
         ((None, None), no_heap, []) False st)
       (\<lambda>(success, stale, h, accts) st. (Ret accts, st))"

subsection \<open>Reading the users\<close>

text \<open>
  The loop over the reply to \<open>HGETALL USERS\<close>: each user is put in front of the list, with the
  last synchronisation, or the current time where that is below 1. A missing last synchronisation
  is a nil reply, whose null string goes to \<open>atol\<close>.
\<close>

fun load_users ::
  "('c, 'w) redis \<Rightarrow> int \<Rightarrow> 'c \<Rightarrow> redis_reply list \<Rightarrow> User list \<Rightarrow>
   (('c, 'w) store_state, bool \<times> User list) store_op" where
  "load_users R now c [] users st = (Ret (True, users), st)"
| "load_users R now c [r] users st = (Undefined, st)"
| "load_users R now c (r # p # rs) users st =
     (case reply_str r of
        None \<Rightarrow> (Undefined, st)
      | Some u \<Rightarrow>
          (case redis_command R c (GET (lastSync_key u)) st of
             (replySync, st) \<Rightarrow>
               if areReplyErrors replySync then (Ret (False, users), st)
               else
                 (case Option.bind replySync reply_str of
                    None \<Rightarrow> (Undefined, st)
                  | Some t \<Rightarrow>
                      (case reply_str p of
                         None \<Rightarrow> (Undefined, st)
                       | Some pass \<Rightarrow>
                           (let lastSync = (if atol t < 1 then now else atol t)
                            in load_users R now c rs
                                 (\<lparr>User_uuid = u, User_password = pass, User_last_sync = lastSync\<rparr> # users) st)))))"

text \<open>One attempt, with \<open>testConn\<close> for the next: it is set only where the command failed.\<close>

definition attempt_users ::
  "('c, 'w) redis \<Rightarrow> int \<Rightarrow> User list \<Rightarrow> bool \<Rightarrow> (('c, 'w) store_state, (bool \<times> User list) \<times> bool) store_op" where
  "attempt_users R now users testConn st =
     (case getConnection R (test_fuel R) testConn st of
        (Ret c, st) \<Rightarrow>
          seq_op
            (case redis_command R c (HGETALL ''USERS'') st of
               (reply, st) \<Rightarrow>
                 if areReplyErrors reply then (Ret ((False, users), True), st)
                 else
                   (case reply of
                      Some (Reply_array rs) \<Rightarrow>
                        seq_op (load_users R now c rs users st) (\<lambda>r st. (Ret (r, testConn), st))
                    | _ \<Rightarrow> (Ret ((True, users), testConn), st)))
            (\<lambda>r st. (Ret r, releaseConnection R (Some c) st))
      | (Throw e, st) \<Rightarrow> (Ret ((False, users), True), releaseConnection R None st)
      | (Blocked, st) \<Rightarrow> (Blocked, st)
      | (Undefined, st) \<Rightarrow> (Undefined, st))"

text \<open>
  \<open>getAllUsers (tryForever)\<close>. Trying for ever is bounded by the fuel \<open>rounds\<close>, after which the
  caller counts as blocked.
\<close>

definition redis_getAllUsers ::
  "('c, 'w) redis \<Rightarrow> int \<Rightarrow> nat \<Rightarrow> bool \<Rightarrow> (('c, 'w) store_state, User list) store_op" where
  "redis_getAllUsers R now rounds tryForever st =
     seq_op (retry (if tryForever then rounds else Suc REDIS_MAX_ATTEMPS) (attempt_users R now) [] False st)
       (\<lambda>(success, users) st. if \<not> success \<and> tryForever then (Blocked, st) else (Ret users, st))"

subsection \<open>The data cleaner\<close>

text \<open>
  The loop of \<open>deleteOldUsers\<close>: the accounts of every user whose last synchronisation is older
  are deleted, the user itself is kept.
\<close>

fun delete_accounts_of ::
  "('c, 'w) redis \<Rightarrow> int \<Rightarrow> 'c \<Rightarrow> User list \<Rightarrow> (('c, 'w) store_state, bool \<times> unit) store_op" where
  "delete_accounts_of R time c [] st = (Ret (True, ()), st)"
| "delete_accounts_of R time c (u # us) st =
     (if User_last_sync u < time then
        seq_op (redis_get_accounts R (User_uuid u) st) (\<lambda>accts st.
          seq_op (pipeline R (map (\<lambda>(k, a). DEL (account_key (User_uuid u) (account_name a))) accts) c st) (\<lambda>ok st.
            if \<not> ok then (Ret (False, ()), st)
            else
              seq_op (pipeline R [DEL (accounts_key (User_uuid u))] c st) (\<lambda>ok st.
                if \<not> ok then (Ret (False, ()), st) else delete_accounts_of R time c us st)))
      else delete_accounts_of R time c us st)"

definition redis_deleteOldUsers ::
  "('c, 'w) redis \<Rightarrow> int \<Rightarrow> int \<Rightarrow> (('c, 'w) store_state, bool) store_op" where
  "redis_deleteOldUsers R now time st =
     result_flag (retry (Suc REDIS_MAX_ATTEMPS)
       (\<lambda>_ testConn st.
          seq_op (redis_getAllUsers R now 0 False st) (\<lambda>users st.
            seq_op (attempt R (False, ()) testConn (\<lambda>c. delete_accounts_of R time c users) st)
              (\<lambda>(r, _) st. (Ret (r, True), st))))
       () False st)"

section \<open>Start-up and the virtual operations\<close>

fun open_connections :: "('c, 'w) redis \<Rightarrow> nat \<Rightarrow> ('c, 'w) store_state \<Rightarrow> ('c, 'w) store_state" where
  "open_connections R 0 st = st"
| "open_connections R (Suc n) st =
     (case createConnection R st of
        (Some c, st) \<Rightarrow> open_connections R n (add_count 1 (set_idle (c # connections (pool st)) st))
      | (None, st) \<Rightarrow> open_connections R n st)"

definition redis_initialize :: "('c, 'w) redis \<Rightarrow> 'w \<Rightarrow> bool \<times> ('c, 'w) store_state" where
  "redis_initialize R w =
     (let st = open_connections R (nat (redis_min_connections (redis_config R)))
                 \<lparr>pool = \<lparr>connections = [], currentConnections = 0\<rparr>, net = w\<rparr>
      in (connections (pool st) \<noteq> [], st))"

definition RedisStore :: "('c, 'w) redis \<Rightarrow> int \<Rightarrow> nat \<Rightarrow> ('c, 'w) store_state IDataStore" where
  "RedisStore R now rounds = \<lparr>
     getAllUsers = redis_getAllUsers R now rounds True,
     createUser = redis_createUser R,
     delete_user_op = redis_delete_user R,
     get_accounts_for_user = redis_get_accounts R,
     upsert_accounts_for_user = redis_upsert R,
     update_last_sync_for_user = redis_update_last_sync R\<rparr>"

end
