(* ===== verification/RedisPool.thy ===== *)
theory RedisPool
  imports Pools RedisStore
begin

text \<open>
  The connection pool of \<open>RedisStore\<close>: the pool interface holds for it, no operation keeps a
  connection, and the count of connections drifts when the server cannot be reached.
\<close>

section \<open>The connections in use\<close>

lemma used_append [simp]: "conns_used (append_commands R c cmds st) = conns_used st"
  by (simp add: append_commands_def)

lemma used_release: "conns_used (releaseConnection R c st) = conns_used st - 1"
  by (auto simp: releaseConnection_def conns_used_push simp del: conns_used_simps(3) split: option.splits)

lemma used_command: "redis_command R c cmd st = (r, st') \<Longrightarrow> conns_used st' = conns_used st"
  by (auto simp: redis_command_def split: prod.splits)

lemma used_create:
  "createConnection R st = (c, st') \<Longrightarrow> conns_used st' = conns_used st \<and> pool st' = pool st"
  by (auto simp: createConnection_def split: prod.splits option.splits if_splits)

lemma used_get_test:
  shows "getConnection R n testConn st = (o1, st1) \<Longrightarrow>
      (\<forall>c. o1 = Ret c \<longrightarrow> conns_used st1 = conns_used st + 1) \<and> (\<forall>e. o1 = Throw e \<longrightarrow> conns_used st1 = conns_used st)"
    and "testConnection R n c st = (o1, st1) \<Longrightarrow>
      (\<forall>c. o1 = Ret c \<longrightarrow> conns_used st1 = conns_used st) \<and> (\<forall>e. o1 = Throw e \<longrightarrow> conns_used st1 = conns_used st - 1)"
proof (induction R n testConn st and R n c st arbitrary: o1 st1 and o1 st1 rule: getConnection_testConnection.induct)
  case (1 R n testConn st)
  show ?case
  proof (cases "connections (pool st)")
    case Nil
    with 1 show ?thesis
      by (auto simp: getConnection.simps dest!: used_create split: if_splits prod.splits option.splits)
  next
    case (Cons c cs)
    have u: "conns_used (set_idle cs st) = conns_used st + 1"
      using Cons by (rule conns_used_pop)
    show ?thesis
    proof (cases testConn)
      case True
      with 1 Cons u show ?thesis by (simp add: getConnection.simps)
    next
      case False
      with 1 Cons u show ?thesis by (auto simp: getConnection.simps)
    qed
  qed
next
  case (2 R c st)
  then show ?case by auto
next
  case (3 R n c st)
  obtain reply st2 where p: "redis_command R c PING st = (reply, st2)" by fastforce
  have u2: "conns_used st2 = conns_used st" using used_command [OF p] .
  show ?case
  proof (cases "areReplyErrors reply")
    case False
    with 3 p u2 show ?thesis by auto
  next
    case True
    obtain o3 st3 where g: "getConnection R n True (releaseConnection R (Some c) st2) = (o3, st3)" by fastforce
    have u3: "(\<forall>c. o3 = Ret c \<longrightarrow> conns_used st3 = conns_used st) \<and>
        (\<forall>e. o3 = Throw e \<longrightarrow> conns_used st3 = conns_used st - 1)"
      using 3(1) [OF p [symmetric] _ g] True u2 used_release [of R "Some c" st2] by auto
    show ?thesis
    proof (cases o3)
      case (Ret c')
      then have "testConnection R n c' st3 = (o1, st1)" using 3(3) p True g by simp
      from 3(2) [OF p [symmetric] _ this] True u3 Ret show ?thesis by auto
    next
      case (Throw e)
      then show ?thesis using 3(3) p True g u3 by auto
    qed (use 3(3) p True g in auto)
  qed
qed

interpretation redis_pool: pool_ops conns_used "getConnection R n testConn" "\<lambda>c. releaseConnection R (Some c)"
proof unfold_locales
  show "conns_used s' = conns_used s + 1" if "getConnection R n testConn s = (Ret c, s')" for s c s'
    using used_get_test(1) [OF that] by simp
  show "conns_used (releaseConnection R (Some c) s) = conns_used s - 1" for c s
    by (rule used_release)
qed

section \<open>No operation keeps a connection\<close>

lemma used_eat: "eatPipelineReplies R n c freed st = (ok, st') \<Longrightarrow> conns_used st' = conns_used st"
  by (induction R n c freed st rule: eatPipelineReplies.induct) (auto split: prod.splits if_splits)

lemma used_pipeline: "pipeline R cmds c st = (ok, st') \<Longrightarrow> conns_used st' = conns_used st"
  by (auto simp: pipeline_def dest: used_eat)

lemma drifts_pipeline: "drifts 0 conns_used (\<lambda>st. ret_flag (pipeline R cmds c st))"
  unfolding drifts_def ret_flag_def
proof (intro allI impI)
  fix st x st'
  assume r: "seq_op (pipeline R cmds c st) (\<lambda>ok st. (Ret (ok, ()), st)) = (Ret x, st')"
  obtain o1 st1 where p: "pipeline R cmds c st = (o1, st1)" by fastforce
  with r have "st' = st1" by (cases o1) auto
  with used_pipeline [OF p] show "conns_used st' \<le> conns_used st \<and> conns_used st - int 0 \<le> conns_used st'" by simp
qed

lemma drifts_attempt:
  assumes "\<And>c. drifts 0 conns_used (body c)"
  shows "drifts 1 conns_used (attempt R x testConn body)"
  unfolding drifts_def
proof (intro allI impI)
  fix st y st'
  assume a: "attempt R x testConn body st = (Ret y, st')"
  obtain o1 st1 where g: "getConnection R (test_fuel R) testConn st = (o1, st1)" by fastforce
  note u = used_get_test(1) [OF g]
  show "conns_used st' \<le> conns_used st \<and> conns_used st - int 1 \<le> conns_used st'"
  proof (cases o1)
    case (Ret c)
    obtain o2 st2 where b: "body c st1 = (o2, st2)" by fastforce
    with a g Ret obtain z where "o2 = Ret z" "st' = releaseConnection R (Some c) st2"
      by (cases o2) (auto simp: attempt_def)
    moreover from this b have "conns_used st2 = conns_used st1"
      using assms [of c, unfolded drifts_def, rule_format, of st1 z st2] by simp
    ultimately show ?thesis using u Ret by (simp add: used_release)
  next
    case (Throw e)
    with a g have "st' = releaseConnection R None st1" by (simp add: attempt_def)
    with u Throw show ?thesis by (simp add: used_release)
  qed (use a g in \<open>auto simp: attempt_def\<close>)
qed

lemma drifts_retry:
  assumes "\<And>acc testConn. drifts 1 conns_used (step acc testConn)"
  shows "drifts n conns_used (retry n step acc testConn)"
proof (induction n arbitrary: acc testConn)
  case 0
  show ?case by (simp add: drifts_def)
next
  case (Suc n)
  have "drifts n conns_used ((\<lambda>((success, acc'), testConn') st'.
       if success then (Ret (True, acc'), st') else retry n step acc' testConn' st') r)" for r
  proof -
    obtain ok acc' testConn' where "r = ((ok, acc'), testConn')" by (metis prod.exhaust)
    with Suc [of acc' testConn'] drifts_ret [of conns_used "(True, acc')", THEN drifts_mono, of n]
    show ?thesis by (cases ok) simp_all
  qed
  from drifts_seq [OF assms this] show ?case by simp
qed

lemma drifts_flag:
  assumes "drifts n conns_used m"
  shows "drifts n conns_used (\<lambda>st. result_flag (m st))"
proof -
  have "drifts 0 conns_used ((\<lambda>(success, acc) st. (Ret success, st)) x)" for x :: "bool \<times> 'c"
    by (simp add: drifts_def split: prod.splits)
  from drifts_seq [OF assms this] show ?thesis by (simp add: result_flag_def)
qed

lemma used_read_rows:
  "read_rows R c u n freed stale h accts st = (Ret x, st') \<Longrightarrow> conns_used st' = conns_used st"
  by (induction R c u n freed stale h accts st rule: read_rows.induct)
    (auto split: prod.splits option.splits bool.splits if_splits outcome.splits)

lemma drifts_delete_body:
  "drifts 0 conns_used (\<lambda>st.
     case redis_command R c (HKEYS k) st of
       (reply, st) \<Rightarrow>
         if areReplyErrors reply then (Ret (False, ()), st)
         else
           (case reply of
              Some (Reply_array rs) \<Rightarrow>
                (case reply_names rs of
                   None \<Rightarrow> (Undefined, st)
                 | Some names \<Rightarrow>
                     seq_op (pipeline R (f names) c st) (\<lambda>ok st.
                       if \<not> ok then (Ret (False, ()), st) else ret_flag (pipeline R cmds c st)))
            | _ \<Rightarrow> (Ret (False, ()), st)))"
proof -
  have p: "drifts 0 conns_used (\<lambda>st. seq_op (pipeline R xs c st) (\<lambda>ok st.
      if \<not> ok then (Ret (False, ()), st) else ret_flag (pipeline R cmds c st)))" for xs
  proof -
    have "drifts 0 conns_used (pipeline R xs c)" by (auto simp: drifts_def dest: used_pipeline)
    moreover have "drifts 0 conns_used (\<lambda>st. if \<not> ok then (Ret (False, ()), st) else ret_flag (pipeline R cmds c st))" for ok
      using drifts_ret drifts_pipeline by (cases ok) simp_all
    ultimately have "drifts (0 + 0) conns_used (\<lambda>st. seq_op (pipeline R xs c st) (\<lambda>ok st.
        if \<not> ok then (Ret (False, ()), st) else ret_flag (pipeline R cmds c st)))"
      by (rule drifts_seq)
    then show ?thesis by simp
  qed
  show ?thesis unfolding drifts_def
    by (auto simp: p [unfolded drifts_def, rule_format] dest!: used_command p [unfolded drifts_def, rule_format]
      split: prod.splits option.splits redis_reply.splits if_splits)
qed

lemma drifts_get_body:
  "drifts 0 conns_used (\<lambda>st.
     case redis_command R c (HKEYS k) st of
       (reply, st) \<Rightarrow>
         if areReplyErrors reply then (Ret (False, x), st)
         else
           (case reply of
              Some (Reply_array rs) \<Rightarrow>
                (case reply_names rs of
                   None \<Rightarrow> (Undefined, st)
                 | Some names \<Rightarrow>
                     read_rows R c u (length names) True stale (new_head (length names) h) accts
                       (append_commands R c (f names) st))
            | _ \<Rightarrow> (Ret (False, x), st)))"
  by (auto simp: drifts_def dest!: used_command used_read_rows
      split: prod.splits option.splits redis_reply.splits if_splits)

text \<open>
  C29: whatever the server answers, an operation of the Redis store that returns gives back every
  connection it took: the number of connections in use is never larger than before. It is smaller
  by at most the number of attempts, three to create a user and four otherwise.
\<close>

theorem redis_gives_back:
  "drifts 3 conns_used (redis_createUser R usr) \<and>
   drifts 4 conns_used (redis_delete_user R usr) \<and>
   drifts 4 conns_used (redis_get_accounts R u) \<and>
   drifts 4 conns_used (redis_upsert R u accts) \<and>
   drifts 4 conns_used (redis_update_last_sync R u time)"
proof (intro conjI)
  have n3: "3 = REDIS_MAX_ATTEMPS" and n4: "4 = Suc REDIS_MAX_ATTEMPS" by (simp_all add: REDIS_MAX_ATTEMPS_def)
  note op = drifts_flag [OF drifts_retry [OF drifts_attempt [OF drifts_pipeline]]]
  show "drifts 3 conns_used (redis_createUser R usr)"
    unfolding redis_createUser_def n3 by (rule op)
  show "drifts 4 conns_used (redis_upsert R u accts)" "drifts 4 conns_used (redis_update_last_sync R u time)"
    unfolding redis_upsert_def redis_update_last_sync_def n4 by (rule op)+
  show "drifts 4 conns_used (redis_delete_user R usr)"
    unfolding redis_delete_user_def n4 Let_def
    by (rule drifts_flag [OF drifts_retry [OF drifts_attempt [OF drifts_delete_body]]])
  have "drifts (Suc REDIS_MAX_ATTEMPS + 0) conns_used (redis_get_accounts R u)"
    unfolding redis_get_accounts_def
  proof (rule drifts_seq [OF drifts_retry])
    fix acc :: "(bool option \<times> int option) \<times> heap_list \<times> account smap" and testConn
    obtain stale h accts where "acc = (stale, h, accts)" by (cases acc)
    then show "drifts 1 conns_used ((\<lambda>(stale, h, accts) testConn. attempt R (False, stale, h, accts) testConn (\<lambda>c st.
            case redis_command R c (HKEYS (accounts_key u)) st of
              (reply, st) \<Rightarrow>
                if areReplyErrors reply then (Ret (False, stale, h, accts), st)
                else
                  (case reply of
                     Some (Reply_array rs) \<Rightarrow>
                       (case reply_names rs of
                          None \<Rightarrow> (Undefined, st)
                        | Some names \<Rightarrow>
                            read_rows R c u (length names) True stale (new_head (length names) h) accts
                              (append_commands R c (map (\<lambda>n. HGETALL (account_key u n)) names) st))
                   | _ \<Rightarrow> (Ret (False, stale, h, accts), st)))) acc testConn)"
      using drifts_attempt [OF drifts_get_body] by simp
  next
    fix x :: "bool \<times> (bool option \<times> int option) \<times> heap_list \<times> account smap"
    show "drifts 0 conns_used ((\<lambda>(success, stale, h, accts) st. (Ret accts, st)) x)"
      by (simp add: drifts_def split: prod.splits)
  qed
  then show "drifts 4 conns_used (redis_get_accounts R u)" by (simp add: n4)
qed

section \<open>An unreachable server\<close>

definition unreachable :: "('c, 'w) redis \<Rightarrow> ('c, 'w) store_state \<Rightarrow> bool" where
  "unreachable R st \<longleftrightarrow>
     (\<forall>h p w. redisConnect R h p w = (None, w)) \<and> connections (pool st) = [] \<and>
     currentConnections (pool st) < redis_max_connections (redis_config R)"

lemma attempt_unreachable:
  assumes "unreachable R st"
  shows "attempt R x False body st = (Ret (x, False), add_count (- 1) st)" and "unreachable R (add_count (- 1) st)"
proof -
  have "createConnection R st = (None, st)"
    using assms by (simp add: createConnection_def unreachable_def)
  with assms show "attempt R x False body st = (Ret (x, False), add_count (- 1) st)"
    by (simp add: attempt_def getConnection.simps releaseConnection_def unreachable_def)
  show "unreachable R (add_count (- 1) st)"
    using assms by (simp add: unreachable_def add_count_def)
qed

lemma retry_unreachable:
  assumes "unreachable R st" "0 < n"
    and "\<And>acc st. unreachable R st \<Longrightarrow> step acc False st = (Ret ((ok, acc), False), add_count (- 1) st)"
  shows "retry n step acc False st = (Ret (ok, acc), add_count (if ok then - 1 else - int n) st)"
  using assms(1,2)
proof (induction n arbitrary: st)
  case (Suc n)
  note s = assms(3) [OF Suc.prems(1)] and u = attempt_unreachable(2) [OF Suc.prems(1)]
  show ?case
  proof (cases "ok \<or> n = 0")
    case True
    then show ?thesis using s by auto
  next
    case False
    have e: "- int n - 1 = - 1 - int n" by simp
    from False Suc.IH [OF u] s show ?thesis by (simp add: e)
  qed
qed simp

text \<open>
  With no idle connection and a server that refuses connections, storing accounts and storing
  the time of a synchronisation report success although nothing is stored, creating a user reports
  failure and reading accounts returns none. Each failed attempt releases a connection that was
  never taken, so the count of connections drops by one per attempt and the pool can later grow past
  its maximum.
\<close>

theorem redis_unreachable:
  assumes "unreachable R st"
  shows "redis_upsert R u accts st = (Ret True, add_count (- 1) st) \<and>
    redis_update_last_sync R u time st = (Ret True, add_count (- 1) st) \<and>
    redis_createUser R usr st = (Ret False, add_count (- 3) st) \<and>
    redis_get_accounts R u st = (Ret [], add_count (- 4) st)"
proof (intro conjI)
  note a = attempt_unreachable(1)
  show "redis_upsert R u accts st = (Ret True, add_count (- 1) st)"
    "redis_update_last_sync R u time st = (Ret True, add_count (- 1) st)"
    unfolding redis_upsert_def redis_update_last_sync_def
    by (subst retry_unreachable [OF assms, where ok = True]; simp add: a result_flag_def)+
  show "redis_createUser R usr st = (Ret False, add_count (- 3) st)"
    unfolding redis_createUser_def
    by (subst retry_unreachable [OF assms, where ok = False]; simp add: a result_flag_def REDIS_MAX_ATTEMPS_def)
  show "redis_get_accounts R u st = (Ret [], add_count (- 4) st)"
    unfolding redis_get_accounts_def
    by (subst retry_unreachable [OF assms, where ok = False];
        simp add: a REDIS_MAX_ATTEMPS_def split: prod.splits)
qed

text \<open>A server that refuses every connection.\<close>

definition refusing_redis :: "(nat, unit) redis" where
  "refusing_redis = \<lparr>redisConnect = (\<lambda>h p w. (None, w)), redisErr = (\<lambda>c w. True),
     redisCommand = (\<lambda>c cmd w. (None, w)), redisAppendCommand = (\<lambda>c cmd w. w),
     redisGetReply = (\<lambda>c w. ((False, None), w)), redisFree = (\<lambda>c w. w),
     redis_config = default_config, test_fuel = 10\<rparr>"

theorem redis_unreachable_witness:
  "redis_upsert refusing_redis ''ann@example.com'' [] \<lparr>pool = \<lparr>connections = [], currentConnections = 3\<rparr>, net = ()\<rparr> =
     (Ret True, \<lparr>pool = \<lparr>connections = [], currentConnections = 2\<rparr>, net = ()\<rparr>)"
proof -
  have "unreachable refusing_redis \<lparr>pool = \<lparr>connections = [], currentConnections = 3\<rparr>, net = ()\<rparr>"
    by (simp add: unreachable_def refusing_redis_def default_config_def)
  from redis_unreachable [OF this] show ?thesis by (simp add: add_count_def)
qed

end
