(* ===== verification/RedisServer.thy ===== *)
theory RedisServer
  imports RedisPool "HOL-Library.AList"
begin

text \<open>
  The Redis store in front of a server that works: what the documented commands do to the database,
  which keys a user has, and the accounts the store promises through them. \<open>serves\<close> states what
  the store relies on of \<open>hiredis\<close> and the server; the order in which a hash lists its fields is
  left open, as Redis leaves it.
\<close>

section \<open>The commands\<close>

datatype redis_value = Str string | Hash "(string \<times> string) list"

type_synonym redis_db = "string \<Rightarrow> redis_value option"

definition hash_of :: "redis_db \<Rightarrow> string \<Rightarrow> (string \<times> string) list" where
  "hash_of d k = (case d k of Some (Hash xs) \<Rightarrow> xs | _ \<Rightarrow> [])"

definition is_text :: "redis_db \<Rightarrow> string \<Rightarrow> bool" where
  "is_text d k \<longleftrightarrow> (\<exists>s. d k = Some (Str s))"

definition set_hash :: "redis_db \<Rightarrow> string \<Rightarrow> (string \<rightharpoonup> string) \<Rightarrow> redis_db \<Rightarrow> bool" where
  "set_hash d k m d' \<longleftrightarrow> (\<exists>ys. distinct (map fst ys) \<and> map_of ys = m \<and> d' = d(k := (if ys = [] then None else Some (Hash ys))))"

definition reply_pairs :: "(string \<times> string) list \<Rightarrow> redis_reply list" where
  "reply_pairs xs = concat (map (\<lambda>(f, v). [Reply_string f, Reply_string v]) xs)"

text \<open>What a command may answer and leave behind; a command on a key of the wrong type is an error.\<close>

fun redis_exec :: "command \<Rightarrow> redis_db \<Rightarrow> redis_reply \<Rightarrow> redis_db \<Rightarrow> bool" where
  "redis_exec PING d r d' \<longleftrightarrow> d' = d \<and> (\<exists>s. r = Reply_status s)"
| "redis_exec (AUTH u p) d r d' \<longleftrightarrow> d' = d"
| "redis_exec (DEL k) d r d' \<longleftrightarrow> d' = d(k := None) \<and> (\<exists>n. r = Reply_integer n)"
| "redis_exec (SET k v) d r d' \<longleftrightarrow> d' = d(k \<mapsto> Str v) \<and> (\<exists>s. r = Reply_status s)"
| "redis_exec (GET k) d r d' \<longleftrightarrow> d' = d \<and>
     (case d k of
        None \<Rightarrow> r = Reply_nil
      | Some (Str s) \<Rightarrow> r = Reply_string s
      | Some (Hash xs) \<Rightarrow> \<exists>e. r = Reply_error e)"
| "redis_exec (HSET k f v) d r d' \<longleftrightarrow>
     (if is_text d k then d' = d \<and> (\<exists>e. r = Reply_error e)
      else set_hash d k ((map_of (hash_of d k))(f \<mapsto> v)) d' \<and> (\<exists>n. r = Reply_integer n))"
| "redis_exec (HMSET k fvs) d r d' \<longleftrightarrow>
     (if is_text d k then d' = d \<and> (\<exists>e. r = Reply_error e)
      else set_hash d k (map_of (hash_of d k) ++ map_of (rev fvs)) d' \<and> (\<exists>s. r = Reply_status s))"
| "redis_exec (HDEL k f) d r d' \<longleftrightarrow>
     (if is_text d k then d' = d \<and> (\<exists>e. r = Reply_error e)
      else set_hash d k ((map_of (hash_of d k))(f := None)) d' \<and> (\<exists>n. r = Reply_integer n))"
| "redis_exec (HKEYS k) d r d' \<longleftrightarrow> d' = d \<and>
     (if is_text d k then \<exists>e. r = Reply_error e
      else r = Reply_array (map (Reply_string \<circ> fst) (hash_of d k)))"
| "redis_exec (HGETALL k) d r d' \<longleftrightarrow> d' = d \<and>
     (if is_text d k then \<exists>e. r = Reply_error e else r = Reply_array (reply_pairs (hash_of d k)))"

fun exec_all :: "command list \<Rightarrow> redis_db \<Rightarrow> redis_db \<Rightarrow> bool" where
  "exec_all [] d d' \<longleftrightarrow> d' = d"
| "exec_all (cmd # cmds) d d' \<longleftrightarrow> (\<exists>r d1. redis_exec cmd d r d1 \<and> exec_all cmds d1 d')"

section \<open>A server that works\<close>

text \<open>
  \<open>db\<close> is the database in a world, \<open>pend\<close> the commands sent on a connection whose replies have
  not been read, \<open>good\<close> the connections that work.
\<close>

definition serves ::
  "('c, 'w) redis \<Rightarrow> ('w \<Rightarrow> redis_db) \<Rightarrow> ('c \<Rightarrow> 'w \<Rightarrow> command list) \<Rightarrow> ('c \<Rightarrow> 'w \<Rightarrow> bool) \<Rightarrow> bool" where
  "serves R db pend good \<longleftrightarrow>
     (\<forall>c w. good c w \<longrightarrow>
        \<not> redisErr R c w \<and>
        (\<forall>cmd. pend c w = [] \<longrightarrow>
           (\<exists>r w'. redisCommand R c cmd w = (Some r, w') \<and> redis_exec cmd (db w) r (db w') \<and>
              good c w' \<and> pend c w' = [])) \<and>
        (\<forall>cmd. good c (redisAppendCommand R c cmd w) \<and> db (redisAppendCommand R c cmd w) = db w \<and>
           pend c (redisAppendCommand R c cmd w) = pend c w @ [cmd]) \<and>
        (\<forall>cmd q. pend c w = cmd # q \<longrightarrow>
           (\<exists>r w'. redisGetReply R c w = ((True, Some r), w') \<and> redis_exec cmd (db w) r (db w') \<and>
              good c w' \<and> pend c w' = q)))"

definition ready ::
  "('c \<Rightarrow> 'w \<Rightarrow> command list) \<Rightarrow> ('c \<Rightarrow> 'w \<Rightarrow> bool) \<Rightarrow> 'c \<Rightarrow> ('c, 'w) store_state \<Rightarrow> bool" where
  "ready pend good c st \<longleftrightarrow> good c (net st) \<and> pend c (net st) = []"

lemma servesD:
  assumes "serves R db pend good" "good c w"
  shows "\<not> redisErr R c w"
    "pend c w = [] \<Longrightarrow> \<exists>r w'. redisCommand R c cmd w = (Some r, w') \<and> redis_exec cmd (db w) r (db w') \<and>
       good c w' \<and> pend c w' = []"
    "good c (redisAppendCommand R c cmd w)" "db (redisAppendCommand R c cmd w) = db w"
    "pend c (redisAppendCommand R c cmd w) = pend c w @ [cmd]"
    "pend c w = cmd # q \<Longrightarrow> \<exists>r w'. redisGetReply R c w = ((True, Some r), w') \<and>
       redis_exec cmd (db w) r (db w') \<and> good c w' \<and> pend c w' = q"
  using assms unfolding serves_def by blast+

lemma append_serves:
  assumes "serves R db pend good" "good c w"
  shows "good c (fold (redisAppendCommand R c) cmds w) \<and> db (fold (redisAppendCommand R c) cmds w) = db w \<and>
    pend c (fold (redisAppendCommand R c) cmds w) = pend c w @ cmds"
  using assms(2)
  by (induction cmds arbitrary: w) (simp_all add: servesD [OF assms(1)])

lemma eat_serves:
  assumes "serves R db pend good" "good c (net st)" "pend c (net st) = cmds"
  shows "\<exists>st'. eatPipelineReplies R (length cmds) c freed st = (Ret True, st') \<and> exec_all cmds (db (net st)) (db (net st')) \<and>
    ready pend good c st' \<and> pool st' = pool st"
  using assms(2,3)
proof (induction cmds arbitrary: freed st)
  case Nil
  then show ?case by (auto simp: ready_def)
next
  case (Cons cmd cmds)
  obtain r w' where w: "redisGetReply R c (net st) = ((True, Some r), w')" "redis_exec cmd (db (net st)) r (db w')"
    "good c w'" "pend c w' = cmds"
    using servesD(6) [OF assms(1) Cons.prems(1,2)] by blast
  from Cons.IH [of "st\<lparr>net := w'\<rparr>" True] w show ?case by auto
qed

lemma pipeline_serves:
  assumes "serves R db pend good" "ready pend good c st"
  shows "\<exists>st'. pipeline R cmds c st = (Ret True, st') \<and> exec_all cmds (db (net st)) (db (net st')) \<and>
    ready pend good c st' \<and> pool st' = pool st"
proof -
  let ?st = "append_commands R c cmds st"
  have "good c (net ?st)" "db (net ?st) = db (net st)" "pend c (net ?st) = cmds" "pool ?st = pool st"
    using append_serves [OF assms(1), of c "net st" cmds] assms(2) by (auto simp: append_commands_def ready_def)
  with eat_serves [OF assms(1), of c ?st cmds] show ?thesis by (auto simp: pipeline_def)
qed

lemma command_serves:
  assumes "serves R db pend good" "ready pend good c st"
  shows "\<exists>r st'. redis_command R c cmd st = (Some r, st') \<and> redis_exec cmd (db (net st)) r (db (net st')) \<and>
    ready pend good c st' \<and> pool st' = pool st"
  using servesD(2) [OF assms(1), of c "net st" cmd] assms(2) by (auto simp: redis_command_def ready_def)

text \<open>An attempt with an idle connection that works runs its body and gives the connection back.\<close>

lemma attempt_serves:
  assumes "serves R db pend good" "ready pend good c st" "connections (pool st) = c # cs"
    and "\<And>st. ready pend good c st \<Longrightarrow> connections (pool st) = cs \<Longrightarrow> net st = w \<Longrightarrow>
      \<exists>x st'. body c st = (Ret x, st') \<and> ready pend good c st' \<and> pool st' = pool st \<and> P x (net st')"
    and "w = net st"
  shows "\<exists>x st'. attempt R y False body st = (Ret (x, True), st') \<and> ready pend good c st' \<and>
    connections (pool st') = c # cs \<and> P x (net st')"
proof -
  let ?s = "set_idle cs st"
  have s: "ready pend good c ?s" "connections (pool ?s) = cs" "net ?s = w"
    using assms(2,5) by (simp_all add: set_idle_def ready_def)
  from assms(4) [OF this] obtain x st' where b: "body c ?s = (Ret x, st')" "ready pend good c st'"
    "pool st' = pool ?s" "P x (net st')" by blast
  have "\<not> redisErr R c (net st')" using servesD(1) [OF assms(1)] b(2) by (simp add: ready_def)
  then have "releaseConnection R (Some c) st' = set_idle (c # cs) st'"
    using b(3) s(2) by (simp add: releaseConnection_def)
  with b assms(3) show ?thesis
    by (auto simp: attempt_def getConnection.simps set_idle_def ready_def)
qed

section \<open>The keys of a user\<close>

definition account_fields :: "string list" where
  "account_fields = [''account_name'', ''user_name'', ''password'', ''old_password'', ''url'', ''update_time'', ''deleted'']"

definition account_of :: "string \<Rightarrow> (string \<times> string) list \<Rightarrow> account" where
  "account_of u xs =
     (let v = (\<lambda>f. the (map_of xs f))
      in \<lparr>account_name = v ''account_name'', account_uuid = u, user_name = v ''user_name'',
          password = v ''password'', old_password = v ''old_password'', url = v ''url'',
          update_time = atol (v ''update_time''), deleted = (v ''deleted'' \<noteq> [] \<and> v ''deleted'' ! 0 = CHR ''1'')\<rparr>)"

text \<open>The hash of an account, when there is one: the seven fields, with the name the key was built from.\<close>

definition account_hash :: "string \<Rightarrow> (string \<times> string) list \<Rightarrow> bool" where
  "account_hash n xs \<longleftrightarrow> distinct (map fst xs) \<and> fst ` set xs = set account_fields \<and>
     map_of xs ''account_name'' = Some n"

definition user_ok :: "redis_db \<Rightarrow> string \<Rightarrow> bool" where
  "user_ok d u \<longleftrightarrow> \<not> is_text d (accounts_key u) \<and> distinct (map fst (hash_of d (accounts_key u))) \<and>
     (\<forall>n. \<not> is_text d (account_key u n) \<and>
        (hash_of d (account_key u n) = [] \<or> account_hash n (hash_of d (account_key u n))))"

text \<open>The accounts of a user in the database: those that are listed and have a hash.\<close>

definition redis_view :: "redis_db \<Rightarrow> string \<Rightarrow> string \<Rightarrow> account option" where
  "redis_view d u n =
     (if n \<in> fst ` set (hash_of d (accounts_key u)) \<and> hash_of d (account_key u n) \<noteq> []
      then Some (account_of u (hash_of d (account_key u n))) else None)"

lemma account_keys:
  "accounts_key u \<noteq> account_key u n" "account_key u n \<noteq> accounts_key u"
  "account_key u n = account_key u k \<longleftrightarrow> n = k"
  by (simp_all add: accounts_key_def account_key_def)

section \<open>Reading one account\<close>

definition field_update :: "string \<times> string \<Rightarrow> account_row \<Rightarrow> account_row" where
  "field_update fv row = the (read_field (fst fv) (Some (snd fv)) row)"

lemma account_field_cases:
  assumes "f \<in> set account_fields"
  shows "f = ''account_name'' \<or> f = ''user_name'' \<or> f = ''password'' \<or> f = ''old_password'' \<or> f = ''url'' \<or>
    f = ''update_time'' \<or> f = ''deleted''"
  using assms by (simp only: account_fields_def list.set insert_iff empty_iff simp_thms)

lemma account_field_mem:
  "''account_name'' \<in> set account_fields"
  "''user_name'' \<in> set account_fields"
  "''password'' \<in> set account_fields"
  "''old_password'' \<in> set account_fields"
  "''url'' \<in> set account_fields"
  "''update_time'' \<in> set account_fields"
  "''deleted'' \<in> set account_fields"
  by (simp_all add: account_fields_def)

lemma read_field_known:
  assumes "f \<in> set account_fields"
  shows "read_field f (Some v) row = Some (field_update (f, v) row)"
  using account_field_cases [OF assms]
  by (elim disjE) (simp_all add: field_update_def read_field_def)

lemma read_fields_pairs:
  "fst ` set xs \<subseteq> set account_fields \<Longrightarrow>
     read_fields (reply_pairs xs) row = Some (fold field_update xs row)"
proof (induction xs arbitrary: row)
  case (Cons fv xs)
  obtain f v where fv: "fv = (f, v)" by (cases fv)
  with Cons read_field_known [of f v row] show ?case by (simp add: reply_pairs_def)
qed (simp add: reply_pairs_def)

lemma field_update_cases:
  assumes "f \<in> set account_fields"
  shows "field_update (f, v) row =
    (if f = ''account_name'' then row\<lparr>row_name := Some v\<rparr>
     else if f = ''password'' then row\<lparr>row_pass := Some v\<rparr>
     else if f = ''old_password'' then row\<lparr>row_old := Some v\<rparr>
     else if f = ''deleted'' then row\<lparr>row_deleted := Some (v \<noteq> [] \<and> v ! 0 = CHR ''1'')\<rparr>
     else if f = ''user_name'' then row\<lparr>row_user := Some v\<rparr>
     else if f = ''url'' then row\<lparr>row_url := Some v\<rparr>
     else row\<lparr>row_time := Some (atol v)\<rparr>)"
  using account_field_cases [OF assms]
  by (elim disjE) (simp_all add: field_update_def read_field_def)

definition or_else :: "'a option \<Rightarrow> 'a option \<Rightarrow> 'a option" where
  "or_else x y = (case x of None \<Rightarrow> y | Some v \<Rightarrow> Some v)"

lemma or_else_simps [simp]: "or_else None y = y" "or_else (Some v) y = Some v"
  by (simp_all add: or_else_def)

text \<open>The last value of each field is the one that stays.\<close>

lemma fold_field_update:
  assumes "fst ` set xs \<subseteq> set account_fields" "distinct (map fst xs)"
  shows "fold field_update xs row =
    \<lparr>row_name = or_else (map_of xs ''account_name'') (row_name row),
     row_pass = or_else (map_of xs ''password'') (row_pass row),
     row_old = or_else (map_of xs ''old_password'') (row_old row),
     row_user = or_else (map_of xs ''user_name'') (row_user row),
     row_url = or_else (map_of xs ''url'') (row_url row),
     row_deleted = or_else (map_option (\<lambda>v. v \<noteq> [] \<and> v ! 0 = CHR ''1'') (map_of xs ''deleted'')) (row_deleted row),
     row_time = or_else (map_option atol (map_of xs ''update_time'')) (row_time row)\<rparr>"
  using assms
proof (induction xs arbitrary: row)
  case Nil
  then show ?case by simp
next
  case (Cons fv xs)
  obtain f v where fv: "fv = (f, v)" by (cases fv)
  have f: "f \<in> set account_fields" "map_of xs f = None"
    using Cons.prems fv by (auto simp: map_of_eq_None_iff)
  have ih: "fold field_update xs (field_update (f, v) row) =
    \<lparr>row_name = or_else (map_of xs ''account_name'') (row_name (field_update (f, v) row)),
     row_pass = or_else (map_of xs ''password'') (row_pass (field_update (f, v) row)),
     row_old = or_else (map_of xs ''old_password'') (row_old (field_update (f, v) row)),
     row_user = or_else (map_of xs ''user_name'') (row_user (field_update (f, v) row)),
     row_url = or_else (map_of xs ''url'') (row_url (field_update (f, v) row)),
     row_deleted = or_else (map_option (\<lambda>v. v \<noteq> [] \<and> v ! 0 = CHR ''1'') (map_of xs ''deleted'')) (row_deleted (field_update (f, v) row)),
     row_time = or_else (map_option atol (map_of xs ''update_time'')) (row_time (field_update (f, v) row))\<rparr>"
    using Cons by simp
  show ?case
    unfolding fv fold_simps unfolding ih unfolding field_update_cases [OF f(1)]
    using account_field_cases [OF f(1)] f(2) by (elim disjE) simp_all
qed

lemma read_account_hash:
  assumes "account_hash n xs"
  shows "length (reply_pairs xs) = ACCOUNT_MEMBERS"
    and "\<exists>row. read_fields (reply_pairs xs) (blank\<lparr>row_deleted := x, row_time := t\<rparr>) = Some row \<and>
      row_account u row = Some (account_of u xs)"
proof -
  have d: "distinct (map fst xs)" and s: "fst ` set xs = set account_fields"
    using assms by (auto simp: account_hash_def)
  have "length xs = card (fst ` set xs)" using distinct_card [OF d] by simp
  also have "\<dots> = 7" unfolding s by (simp add: account_fields_def)
  finally have l: "length xs = 7" .
  have "length (reply_pairs ys) = 2 * length ys" for ys
    by (induction ys) (auto simp: reply_pairs_def)
  then show "length (reply_pairs xs) = ACCOUNT_MEMBERS" by (simp add: l ACCOUNT_MEMBERS_def)
  have m: "\<exists>v. map_of xs f = Some v" if "f \<in> set account_fields" for f
    using that unfolding s [symmetric] by (metis map_of_eq_None_iff not_None_eq)
  have e: "read_fields (reply_pairs xs) row = Some (fold field_update xs row)" for row
    by (rule read_fields_pairs) (simp add: s)
  obtain v1 where v1: "map_of xs ''account_name'' = Some v1" using m [OF account_field_mem(1)] ..
  obtain v2 where v2: "map_of xs ''user_name'' = Some v2" using m [OF account_field_mem(2)] ..
  obtain v3 where v3: "map_of xs ''password'' = Some v3" using m [OF account_field_mem(3)] ..
  obtain v4 where v4: "map_of xs ''old_password'' = Some v4" using m [OF account_field_mem(4)] ..
  obtain v5 where v5: "map_of xs ''url'' = Some v5" using m [OF account_field_mem(5)] ..
  obtain v6 where v6: "map_of xs ''update_time'' = Some v6" using m [OF account_field_mem(6)] ..
  obtain v7 where v7: "map_of xs ''deleted'' = Some v7" using m [OF account_field_mem(7)] ..
  show "\<exists>row. read_fields (reply_pairs xs) (blank\<lparr>row_deleted := x, row_time := t\<rparr>) = Some row \<and>
      row_account u row = Some (account_of u xs)"
    unfolding e fold_field_update [OF equalityD1 [OF s] d]
    by (simp add: row_account_def account_of_def v1 v2 v3 v4 v5 v6 v7)
qed

section \<open>Reading the accounts of a user\<close>

definition account_fits :: "account \<Rightarrow> bool" where
  "account_fits a \<longleftrightarrow> row_length (account_strings a) + 5 \<le> 1024"

definition listed :: "redis_db \<Rightarrow> string \<Rightarrow> string list" where
  "listed d u = map fst (hash_of d (accounts_key u))"

definition found :: "redis_db \<Rightarrow> string \<Rightarrow> string list \<Rightarrow> (string \<times> account) list" where
  "found d u ns = map (\<lambda>n. (n, account_of u (hash_of d (account_key u n))))
     (filter (\<lambda>n. hash_of d (account_key u n) \<noteq> []) ns)"

lemma map_of_found:
  "map_of (found d u ns) n =
     (if n \<in> set ns \<and> hash_of d (account_key u n) \<noteq> [] then Some (account_of u (hash_of d (account_key u n))) else None)"
  unfolding found_def map_of_map_restrict by (simp add: restrict_map_def)

lemma found_view: "map_of (found d u (listed d u)) = redis_view d u"
  by (rule ext) (simp add: map_of_found redis_view_def listed_def)

text \<open>The strings of every account of the user fit a node of the heap they are copied to.\<close>

definition view_fits :: "redis_db \<Rightarrow> string \<Rightarrow> bool" where
  "view_fits d u \<longleftrightarrow> (\<forall>n a. redis_view d u n = Some a \<longrightarrow> account_fits a)"

lemma found_fits: "view_fits d u \<Longrightarrow> list_all (\<lambda>(k, a). account_fits a) (found d u (listed d u))"
proof -
  assume v: "view_fits d u"
  have "account_fits a" if "(n, a) \<in> set (found d u (listed d u))" for n a
  proof -
    from that have n: "n \<in> set (listed d u)" "hash_of d (account_key u n) \<noteq> []"
      "a = account_of u (hash_of d (account_key u n))" by (auto simp: found_def)
    then have "redis_view d u n = Some a" by (simp add: redis_view_def listed_def)
    with v show ?thesis by (simp add: view_fits_def)
  qed
  then show ?thesis by (auto simp: list_all_iff)
qed

lemma account_of_name: "account_hash n xs \<Longrightarrow> account_name (account_of u xs) = n"
  by (simp add: account_hash_def account_of_def)

lemma copy_account:
  assumes "account_fits a" "heap_ok h"
  shows "\<exists>h'. copy_row (account_strings a) h = Ret h' \<and> heap_ok h'"
  using assms by (intro copy_row_ok) (simp_all add: account_fits_def account_strings_def)

lemma read_rows_serves:
  assumes "serves R db pend good" "user_ok d u"
  shows "good c (net st) \<Longrightarrow> pend c (net st) = map (\<lambda>n. HGETALL (account_key u n)) ns \<Longrightarrow> db (net st) = d \<Longrightarrow>
    heap_ok h \<Longrightarrow> list_all (\<lambda>(k, a). account_fits a) (found d u ns) \<Longrightarrow>
    \<exists>stale' h' st'. read_rows R c u (length ns) freed stale h accts st =
      (Ret (True, stale', h', fold (\<lambda>(k, v). map_emplace k v) (found d u ns) accts), st') \<and>
      ready pend good c st' \<and> db (net st') = d \<and> pool st' = pool st"
proof (induction ns arbitrary: st freed stale h accts)
  case Nil
  then show ?case by (auto simp: found_def ready_def)
next
  case (Cons n ns)
  let ?xs = "hash_of d (account_key u n)"
  obtain r w where w: "redisGetReply R c (net st) = ((True, Some r), w)"
    "redis_exec (HGETALL (account_key u n)) (db (net st)) r (db w)" "good c w"
    "pend c w = map (\<lambda>n. HGETALL (account_key u n)) ns"
    using servesD(6) [OF assms(1) Cons.prems(1)] Cons.prems(2) by fastforce
  have ok: "\<not> is_text d (account_key u n)" "?xs = [] \<or> account_hash n ?xs" using assms(2) by (auto simp: user_ok_def)
  with w(2) Cons.prems(3) have r: "r = Reply_array (reply_pairs ?xs)" "db w = d" by auto
  let ?st = "st\<lparr>net := w\<rparr>"
  have st': "good c (net ?st)" "pend c (net ?st) = map (\<lambda>n. HGETALL (account_key u n)) ns" "db (net ?st) = d"
    using w(3,4) r(2) by simp_all
  show ?case
  proof (cases "?xs = []")
    case True
    then have f: "found d u (n # ns) = found d u ns" by (simp add: found_def)
    obtain stale' h' st' where "read_rows R c u (length ns) False stale h accts ?st =
      (Ret (True, stale', h', fold (\<lambda>(k, v). map_emplace k v) (found d u ns) accts), st') \<and>
      ready pend good c st' \<and> db (net st') = d \<and> pool st' = pool ?st"
      using Cons.IH [OF st' Cons.prems(4) Cons.prems(5) [unfolded f], of False stale accts] by blast
    with w(1) r True show ?thesis unfolding f
      by (auto simp: reply_pairs_def ACCOUNT_MEMBERS_def)
  next
    case False
    let ?a = "account_of u ?xs"
    have h: "account_hash n ?xs" using ok(2) False by blast
    have f: "found d u (n # ns) = (n, ?a) # found d u ns" using False by (simp add: found_def)
    have nm: "account_name ?a = n" using h by (rule account_of_name)
    obtain row where row: "read_fields (reply_pairs ?xs)
        \<lparr>row_name = None, row_pass = None, row_old = None, row_user = None, row_url = None,
         row_deleted = fst stale, row_time = snd stale\<rparr> = Some row" "row_account u row = Some ?a"
      using read_account_hash(2) [OF h, where u = u and x = "fst stale" and t = "snd stale" and
        blank = "\<lparr>row_name = None, row_pass = None, row_old = None, row_user = None,
          row_url = None, row_deleted = None, row_time = None\<rparr>"] by auto
    obtain h1 where h1: "copy_row (account_strings ?a) h = Ret h1" "heap_ok h1"
      using copy_account [of ?a h] Cons.prems(4,5) f by auto
    obtain stale' h' st' where "read_rows R c u (length ns) True (row_deleted row, row_time row) h1 (map_emplace n ?a accts) ?st =
      (Ret (True, stale', h', fold (\<lambda>(k, v). map_emplace k v) (found d u ns) (map_emplace n ?a accts)), st') \<and>
      ready pend good c st' \<and> db (net st') = d \<and> pool st' = pool ?st"
      using Cons.IH [OF st' h1(2), of True "(row_deleted row, row_time row)" "map_emplace n ?a accts"] Cons.prems(5) f by auto
    with w(1) r row h1(1) read_account_hash(1) [OF h] nm show ?thesis unfolding f by auto
  qed
qed

section \<open>A concrete server\<close>

text \<open>A server in memory with one connection, for the witnesses: it keeps the fields of a hash in the order they came.\<close>

record mem_world =
  mem_data :: redis_db
  mem_sent :: "command list"

definition put_hash :: "redis_db \<Rightarrow> string \<Rightarrow> (string \<times> string) list \<Rightarrow> redis_db" where
  "put_hash d k ys = d(k := (if ys = [] then None else Some (Hash ys)))"

fun update_all :: "(string \<times> string) list \<Rightarrow> (string \<times> string) list \<Rightarrow> (string \<times> string) list" where
  "update_all [] xs = xs"
| "update_all ((f, v) # fvs) xs = update_all fvs (AList.update f v xs)"

fun mem_exec :: "command \<Rightarrow> redis_db \<Rightarrow> redis_reply \<times> redis_db" where
  "mem_exec PING d = (Reply_status ''PONG'', d)"
| "mem_exec (AUTH u p) d = (Reply_status ''OK'', d)"
| "mem_exec (DEL k) d = (Reply_integer 1, d(k := None))"
| "mem_exec (SET k v) d = (Reply_status ''OK'', d(k \<mapsto> Str v))"
| "mem_exec (GET k) d =
     (case d k of
        None \<Rightarrow> Reply_nil
      | Some (Str s) \<Rightarrow> Reply_string s
      | Some (Hash xs) \<Rightarrow> Reply_error ''WRONGTYPE'', d)"
| "mem_exec (HSET k f v) d =
     (if is_text d k then (Reply_error ''WRONGTYPE'', d)
      else (Reply_integer 1, put_hash d k (AList.update f v (hash_of d k))))"
| "mem_exec (HMSET k fvs) d =
     (if is_text d k then (Reply_error ''WRONGTYPE'', d)
      else (Reply_status ''OK'', put_hash d k (update_all fvs (hash_of d k))))"
| "mem_exec (HDEL k f) d =
     (if is_text d k then (Reply_error ''WRONGTYPE'', d)
      else (Reply_integer 1, put_hash d k (AList.delete f (hash_of d k))))"
| "mem_exec (HKEYS k) d =
     (if is_text d k then Reply_error ''WRONGTYPE'' else Reply_array (map (Reply_string \<circ> fst) (hash_of d k)), d)"
| "mem_exec (HGETALL k) d =
     (if is_text d k then Reply_error ''WRONGTYPE'' else Reply_array (reply_pairs (hash_of d k)), d)"

definition mem_redis :: "(unit, mem_world) redis" where
  "mem_redis = \<lparr>redisConnect = (\<lambda>h p w. (Some (), w)), redisErr = (\<lambda>c w. False),
     redisCommand = (\<lambda>c cmd w. case mem_exec cmd (mem_data w) of (r, d) \<Rightarrow> (Some r, w\<lparr>mem_data := d\<rparr>)),
     redisAppendCommand = (\<lambda>c cmd w. w\<lparr>mem_sent := mem_sent w @ [cmd]\<rparr>),
     redisGetReply = (\<lambda>c w.
       case mem_sent w of
         [] \<Rightarrow> ((False, None), w)
       | cmd # q \<Rightarrow> (case mem_exec cmd (mem_data w) of (r, d) \<Rightarrow> ((True, Some r), w\<lparr>mem_data := d, mem_sent := q\<rparr>))),
     redisFree = (\<lambda>c w. w), redis_config = default_config, test_fuel = 10\<rparr>"

definition hashes_distinct :: "redis_db \<Rightarrow> bool" where
  "hashes_distinct d \<longleftrightarrow> (\<forall>k. distinct (map fst (hash_of d k)))"

lemma updates_hash:
  "map_of (update_all fvs xs) = map_of xs ++ map_of (rev fvs) \<and>
   (distinct (map fst xs) \<longrightarrow> distinct (map fst (update_all fvs xs)))"
proof (induction fvs xs rule: update_all.induct)
  case (2 f v fvs xs)
  have u: "map_of (AList.update f v xs) = (map_of xs)(f \<mapsto> v)" by (rule update_conv')
  have m: "map_of (rev ((f, v) # fvs)) = [f \<mapsto> v] ++ map_of (rev fvs)" by simp
  have a: "(map_of xs)(f \<mapsto> v) ++ map_of (rev fvs) = map_of xs ++ ([f \<mapsto> v] ++ map_of (rev fvs))"
    by (simp add: fun_eq_iff map_add_def split: option.splits)
  show ?case unfolding m update_all.simps using 2 [unfolded u a] distinct_update [of xs f v] by blast
qed simp

lemma set_hash_put: "distinct (map fst ys) \<Longrightarrow> map_of ys = m \<Longrightarrow> set_hash d k m (put_hash d k ys)"
  unfolding set_hash_def put_hash_def by blast

lemma hash_of_put: "hash_of (put_hash d k ys) j = (if j = k then ys else hash_of d j)"
  by (simp add: hash_of_def put_hash_def)

lemma hash_of_text: "hash_of (d(k \<mapsto> Str v)) j = (if j = k then [] else hash_of d j)" "hash_of (d(k := None)) j = (if j = k then [] else hash_of d j)"
  by (simp_all add: hash_of_def)

lemma mem_exec_ok:
  assumes "hashes_distinct d" "mem_exec cmd d = (r, d')"
  shows "redis_exec cmd d r d' \<and> hashes_distinct d'"
  using assms updates_hash
  by (cases cmd)
    (auto simp: hashes_distinct_def hash_of_put hash_of_text update_conv' delete_conv'
      intro!: distinct_update distinct_delete set_hash_put split: option.splits redis_value.splits if_splits)

lemma mem_redis_serves: "serves mem_redis mem_data (\<lambda>c. mem_sent) (\<lambda>c w. hashes_distinct (mem_data w))"
  unfolding serves_def
proof (intro allI impI conjI)
  fix c :: unit and w :: mem_world and cmd and q :: "command list"
  assume g: "hashes_distinct (mem_data w)"
  obtain r d where e: "mem_exec cmd (mem_data w) = (r, d)" by fastforce
  note ok = mem_exec_ok [OF g e]
  show "\<not> redisErr mem_redis c w" by (simp add: mem_redis_def)
  show "hashes_distinct (mem_data (redisAppendCommand mem_redis c cmd w))"
    "mem_data (redisAppendCommand mem_redis c cmd w) = mem_data w"
    "mem_sent (redisAppendCommand mem_redis c cmd w) = mem_sent w @ [cmd]"
    using g by (simp_all add: mem_redis_def)
  show "\<exists>r w'. redisCommand mem_redis c cmd w = (Some r, w') \<and> redis_exec cmd (mem_data w) r (mem_data w') \<and>
      hashes_distinct (mem_data w') \<and> mem_sent w' = []" if "mem_sent w = []"
    using that e ok by (simp add: mem_redis_def)
  show "\<exists>r w'. redisGetReply mem_redis c w = ((True, Some r), w') \<and> redis_exec cmd (mem_data w) r (mem_data w') \<and>
      hashes_distinct (mem_data w') \<and> mem_sent w' = q" if "mem_sent w = cmd # q"
    using that e ok by (simp add: mem_redis_def)
qed

definition mem_redis_state :: "redis_db \<Rightarrow> (unit, mem_world) store_state" where
  "mem_redis_state d = \<lparr>pool = \<lparr>connections = [()], currentConnections = 1\<rparr>, net = \<lparr>mem_data = d, mem_sent = []\<rparr>\<rparr>"

lemma mem_redis_ready:
  "hashes_distinct d \<Longrightarrow> ready (\<lambda>c. mem_sent) (\<lambda>c w. hashes_distinct (mem_data w)) () (mem_redis_state d)"
  "connections (pool (mem_redis_state d)) = () # []" "mem_data (net (mem_redis_state d)) = d"
  by (simp_all add: ready_def mem_redis_state_def)

lemma empty_db:
  "hashes_distinct (\<lambda>k. None)" "user_ok (\<lambda>k. None) u" "view_fits (\<lambda>k. None) u" "redis_view (\<lambda>k. None) u = (\<lambda>n. None)"
  by (auto simp: hashes_distinct_def hash_of_def user_ok_def is_text_def view_fits_def redis_view_def)

lemma reply_names_keys: "reply_names (map (Reply_string \<circ> fst) xs) = Some (map fst xs)"
  by (simp add: reply_names_def comp_def)

text \<open>
  With a working connection, reading the accounts of a user returns, in a map ordered by
  name, exactly the accounts the database holds for it, and leaves the database and the pool as
  they were, provided the strings of each account fit a heap node.
\<close>

theorem redis_get_accounts_view:
  assumes "serves R db pend good" "ready pend good c st" "connections (pool st) = c # cs"
    and "user_ok (db (net st)) u"
    and "view_fits (db (net st)) u"
  shows "\<exists>m st'. redis_get_accounts R u st = (Ret m, st') \<and> smap_inv m \<and>
    map_of m = redis_view (db (net st)) u \<and> db (net st') = db (net st) \<and>
    ready pend good c st' \<and> connections (pool st') = c # cs"
proof -
  let ?d = "db (net st)" and ?ns = "listed (db (net st)) u"
  let ?m = "fold (\<lambda>(k, v). map_emplace k v) (found ?d u ?ns) []"
  let ?body = "\<lambda>(stale, h, accts) c st.
            case redis_command R c (HKEYS (accounts_key u)) st of
              (reply, st) \<Rightarrow>
                if areReplyErrors reply then (Ret (False, stale, h, accts), st)
                else
                  (case reply of
                     Some (Reply_array rs) \<Rightarrow>
                       (case reply_names rs of
                          None \<Rightarrow> (Undefined, st)
                        | Some names \<Rightarrow>
                            read_rows R c u (length names) True stale (new_head (length names) h) accts
                              (append_commands R c (map (\<lambda>n. HGETALL (account_key u n)) names) st))
                   | _ \<Rightarrow> (Ret (False, stale, h, accts), st))"
  have body: "\<exists>x st'. ?body ((None, None), no_heap, []) c s = (Ret x, st') \<and> ready pend good c st' \<and> pool st' = pool s \<and>
      (fst x \<and> snd (snd (snd x)) = ?m \<and> db (net st') = ?d)"
    if s: "ready pend good c s" "net s = net st" for s
  proof -
    obtain r s1 where r: "redis_command R c (HKEYS (accounts_key u)) s = (Some r, s1)"
      "redis_exec (HKEYS (accounts_key u)) ?d r (db (net s1))" "ready pend good c s1" "pool s1 = pool s"
      using command_serves [OF assms(1) s(1)] s(2) by metis
    have "\<not> is_text ?d (accounts_key u)" using assms(4) by (simp add: user_ok_def)
    with r(2) have rr: "r = Reply_array (map (Reply_string \<circ> fst) (hash_of ?d (accounts_key u)))" "db (net s1) = ?d"
      by simp_all
    let ?s2 = "append_commands R c (map (\<lambda>n. HGETALL (account_key u n)) ?ns) s1"
    have s2: "good c (net ?s2)" "pend c (net ?s2) = map (\<lambda>n. HGETALL (account_key u n)) ?ns" "db (net ?s2) = ?d"
      "pool ?s2 = pool s"
      using append_serves [OF assms(1), of c "net s1" "map (\<lambda>n. HGETALL (account_key u n)) ?ns"] r(3,4) rr(2)
      by (simp_all add: append_commands_def ready_def)
    have "heap_ok (new_head (length ?ns) no_heap)"
      using rows_heap_ok [of "length ?ns"] by (simp add: new_head_def no_heap_def rows_heap_def)
    with read_rows_serves [OF assms(1,4) s2(1,2,3) this found_fits [OF assms(5)]]
    obtain stale' h' st' where "read_rows R c u (length ?ns) True (None, None) (new_head (length ?ns) no_heap) [] ?s2 =
      (Ret (True, stale', h', ?m), st') \<and> ready pend good c st' \<and> db (net st') = ?d \<and> pool st' = pool ?s2"
      by blast
    then show ?thesis using r(1) rr s2(4) by (simp add: reply_names_keys areReplyErrors_def listed_def)
  qed
  have "\<exists>x st'. attempt R (False, (None, None), no_heap, []) False (?body ((None, None), no_heap, [])) st =
      (Ret (x, True), st') \<and> ready pend good c st' \<and> connections (pool st') = c # cs \<and>
      (\<lambda>x w. fst x \<and> snd (snd (snd x)) = ?m \<and> db w = ?d) x (net st')"
  proof (rule attempt_serves [OF assms(1-3) _ refl])
    fix s
    assume "ready pend good c s" "net s = net st"
    then show "\<exists>x st'. ?body ((None, None), no_heap, []) c s = (Ret x, st') \<and> ready pend good c st' \<and> pool st' = pool s \<and>
      (\<lambda>x w. fst x \<and> snd (snd (snd x)) = ?m \<and> db w = ?d) x (net st')"
      by (rule body)
  qed
  then obtain x st' where a: "attempt R (False, (None, None), no_heap, []) False (?body ((None, None), no_heap, [])) st =
      (Ret (x, True), st')" "ready pend good c st'" "connections (pool st') = c # cs"
      "fst x \<and> snd (snd (snd x)) = ?m \<and> db (net st') = ?d"
    by blast
  obtain stale h' where "x = (True, stale, h', ?m)" using a(4) by (cases x) auto
  with a(1) have "redis_get_accounts R u st = (Ret ?m, st')" by (simp add: redis_get_accounts_def)
  moreover have "smap_inv ?m" by (rule smap.inv_emplace_all [OF smap.inv_empty])
  moreover have "map_of ?m = redis_view ?d u"
    by (rule ext) (simp add: smap.lookup_emplace_all [OF smap.inv_empty] found_view)
  ultimately show ?thesis using a by blast
qed

theorem redis_get_accounts_view_witness:
  "\<exists>m st'. redis_get_accounts mem_redis ''ann@example.com'' (mem_redis_state (\<lambda>k. None)) = (Ret m, st') \<and> map_of m = (\<lambda>n. None)"
proof -
  note r = mem_redis_ready(1) [OF empty_db(1)]
  show ?thesis
    using redis_get_accounts_view [OF mem_redis_serves r mem_redis_ready(2), of "''ann@example.com''"] empty_db
    unfolding mem_redis_ready(3) by metis
qed

section \<open>Writing accounts\<close>

lemma set_hashD:
  assumes "set_hash d k m d'"
  shows "map_of (hash_of d' k) = m" "distinct (map fst (hash_of d' k))" "\<not> is_text d' k"
    "j \<noteq> k \<Longrightarrow> d' j = d j" "j \<noteq> k \<Longrightarrow> hash_of d' j = hash_of d j" "j \<noteq> k \<Longrightarrow> is_text d' j = is_text d j"
  using assms by (auto simp: set_hash_def hash_of_def is_text_def split: if_splits)

lemma keys_dom: "fst ` set xs = dom (map_of xs)"
  by (simp add: dom_map_of_conv_image_fst)

definition in_long :: "int \<Rightarrow> bool" where
  "in_long t \<longleftrightarrow> - (2 ^ 63) \<le> t \<and> t < 2 ^ 63"

lemma upsert_one:
  assumes "redis_exec (HSET (accounts_key u) (account_name a) ''1'') d r d1"
    and "redis_exec (set_account u a) d1 r' d2"
    and "user_ok d u" "account_uuid a = u" "in_long (update_time a)"
  shows "user_ok d2 u \<and> redis_view d2 u = (redis_view d u)(account_name a \<mapsto> a)"
proof -
  let ?n = "account_name a"
  let ?fvs = "[(''account_name'', account_name a), (''user_name'', user_name a), (''password'', password a),
      (''old_password'', old_password a), (''url'', url a), (''update_time'', show_int (update_time a)),
      (''deleted'', show_int (if deleted a then 1 else 0))]"
  have k: "\<not> is_text d (accounts_key u)" "\<not> is_text d (account_key u ?n)"
    "hash_of d (account_key u ?n) = [] \<or> account_hash ?n (hash_of d (account_key u ?n))"
    using assms(3) by (auto simp: user_ok_def)
  have s1: "set_hash d (accounts_key u) ((map_of (hash_of d (accounts_key u)))(?n \<mapsto> ''1'')) d1"
    using assms(1) k(1) by simp
  note d1 = set_hashD [OF s1]
  have t1: "\<not> is_text d1 (account_key u ?n)" "hash_of d1 (account_key u ?n) = hash_of d (account_key u ?n)"
    using k(2) d1(5,6) account_keys(2) by metis+
  have s2: "set_hash d1 (account_key u ?n) (map_of (hash_of d (account_key u ?n)) ++ map_of (rev ?fvs)) d2"
    using assms(2) t1 by (simp add: set_account_def)
  note d2 = set_hashD [OF s2]
  let ?ys = "hash_of d2 (account_key u ?n)"
  have "dom (map_of (rev ?fvs)) = set account_fields"
    unfolding keys_dom [symmetric] by (simp only: set_rev list.set image_insert image_empty fst_conv account_fields_def)
  moreover have "dom (map_of (hash_of d (account_key u ?n))) \<subseteq> set account_fields"
    unfolding keys_dom [symmetric] using k(3) by (elim disjE) (simp_all add: account_hash_def)
  ultimately have keys: "fst ` set ?ys = set account_fields"
    unfolding keys_dom d2(1) dom_map_add by blast
  have vals: "map_of ?ys f = map_of (rev ?fvs) f" if "f \<in> set account_fields" for f
    unfolding d2(1) using account_field_cases [OF that] by (elim disjE) simp_all
  have hash: "account_hash ?n ?ys" "?ys \<noteq> []"
    using d2(2) keys vals [OF account_field_mem(1)] by (auto simp: account_hash_def)
  have atol: "atol (show_int (update_time a)) = update_time a"
    using atol_show_int [of "update_time a" "[]"] assms(5) by (simp add: in_long_def)
  have dig: "show_int 1 = ''1''" "show_int 0 = ''0''" by code_simp+
  have v: "map_of ?ys ''account_name'' = Some (account_name a)" "map_of ?ys ''user_name'' = Some (user_name a)"
    "map_of ?ys ''password'' = Some (password a)" "map_of ?ys ''old_password'' = Some (old_password a)"
    "map_of ?ys ''url'' = Some (url a)" "map_of ?ys ''update_time'' = Some (show_int (update_time a))"
    "map_of ?ys ''deleted'' = Some (show_int (if deleted a then 1 else 0))"
    by (simp_all add: vals account_field_mem)
  have acc: "account_of u ?ys = a"
    by (simp add: account_of_def v atol dig assms(4))
  have list: "hash_of d2 (accounts_key u) = hash_of d1 (accounts_key u)" "is_text d2 (accounts_key u) = is_text d1 (accounts_key u)"
    using d2(5,6) account_keys(1) by metis+
  have other: "hash_of d2 (account_key u k) = hash_of d (account_key u k)" "is_text d2 (account_key u k) = is_text d (account_key u k)"
    if "k \<noteq> ?n" for k
    using that d1(5,6) d2(5,6) account_keys by metis+
  have "user_ok d2 u"
    unfolding user_ok_def list
  proof (intro conjI allI)
    fix k
    show "\<not> is_text d2 (account_key u k)" "hash_of d2 (account_key u k) = [] \<or> account_hash k (hash_of d2 (account_key u k))"
      using d2(3) hash(1) other [of k] assms(3) by (cases "k = ?n"; auto simp: user_ok_def)+
  qed (use d1(2,3) in auto)
  moreover have "redis_view d2 u k = ((redis_view d u)(?n \<mapsto> a)) k" for k
    using hash acc other [of k] d1(1)
    by (cases "k = ?n") (auto simp: redis_view_def list keys_dom)
  ultimately show ?thesis by blast
qed

definition upsert_commands :: "string \<Rightarrow> account list \<Rightarrow> command list" where
  "upsert_commands u as =
     concat (map (\<lambda>a. [HSET (accounts_key u) (account_name a) ''1'', set_account u a]) as)"

definition newest_of :: "account list \<Rightarrow> string \<Rightarrow> account option" where
  "newest_of as = map_of (rev (map (\<lambda>a. (account_name a, a)) as))"

lemma upsert_all:
  assumes "exec_all (upsert_commands u as) d d'" "user_ok d u"
    and "list_all (\<lambda>a. account_uuid a = u \<and> in_long (update_time a)) as"
  shows "user_ok d' u \<and> redis_view d' u = redis_view d u ++ newest_of as"
  using assms
proof (induction as arbitrary: d)
  case Nil
  then show ?case by (simp add: upsert_commands_def newest_of_def)
next
  case (Cons a as)
  obtain r d1 r' d2 where e: "redis_exec (HSET (accounts_key u) (account_name a) ''1'') d r d1"
    "redis_exec (set_account u a) d1 r' d2" "exec_all (upsert_commands u as) d2 d'"
    using Cons.prems(1) by (auto simp: upsert_commands_def simp del: redis_exec.simps)
  have one: "user_ok d2 u" "redis_view d2 u = (redis_view d u)(account_name a \<mapsto> a)"
    using upsert_one [OF e(1,2) Cons.prems(2)] Cons.prems(3) by auto
  have "newest_of (a # as) = [account_name a \<mapsto> a] ++ newest_of as"
    by (simp add: newest_of_def)
  moreover have "redis_view d2 u = redis_view d u ++ [account_name a \<mapsto> a]" by (simp add: one(2))
  moreover have "user_ok d' u \<and> redis_view d' u = redis_view d2 u ++ newest_of as"
    using Cons.IH [OF e(3) one(1)] Cons.prems(3) by simp
  ultimately show ?case by simp
qed

lemma upsert_serves:
  assumes "serves R db pend good" "ready pend good c st" "connections (pool st) = c # cs"
    and "user_ok (db (net st)) u"
    and "list_all (\<lambda>a. account_uuid a = u \<and> in_long (update_time a)) as"
  shows "\<exists>st'. redis_upsert R u as st = (Ret True, st') \<and> ready pend good c st' \<and> connections (pool st') = c # cs \<and>
    user_ok (db (net st')) u \<and> redis_view (db (net st')) u = redis_view (db (net st)) u ++ newest_of as"
proof -
  let ?body = "\<lambda>c st. ret_flag (pipeline R (upsert_commands u as) c st)"
  let ?P = "\<lambda>x w. fst x \<and> user_ok (db w) u \<and> redis_view (db w) u = redis_view (db (net st)) u ++ newest_of as"
  have "\<exists>x st'. attempt R (True, ()) False ?body st = (Ret (x, True), st') \<and> ready pend good c st' \<and>
      connections (pool st') = c # cs \<and> ?P x (net st')"
  proof (rule attempt_serves [OF assms(1-3) _ refl])
    fix s
    assume s: "ready pend good c s" "net s = net st"
    obtain s' where "pipeline R (upsert_commands u as) c s = (Ret True, s')"
      "exec_all (upsert_commands u as) (db (net st)) (db (net s'))" "ready pend good c s'" "pool s' = pool s"
      using pipeline_serves [OF assms(1) s(1)] s(2) by metis
    then show "\<exists>x st'. ?body c s = (Ret x, st') \<and> ready pend good c st' \<and> pool st' = pool s \<and> ?P x (net st')"
      using upsert_all [OF _ assms(4,5)] by (auto simp: ret_flag_def)
  qed
  then obtain x st' where a: "attempt R (True, ()) False ?body st = (Ret (x, True), st')" "ready pend good c st'"
    "connections (pool st') = c # cs" "?P x (net st')" by blast
  then have "redis_upsert R u as st = (Ret True, st')"
    by (cases x) (simp add: redis_upsert_def result_flag_def upsert_commands_def [symmetric])
  with a show ?thesis by blast
qed

text \<open>
  What is stored is what is read. With a working connection, upserting accounts of a user
  succeeds, and reading the accounts afterwards returns exactly the accounts that were there, with
  those of the request in place of the ones of the same name: every field comes back as it was
  stored, times included. A stored account is replaced whatever its time: unlike the statement of
  the Postgres store, the Redis store does not keep a newer version.
\<close>

theorem redis_round_trip:
  assumes "serves R db pend good" "ready pend good c st" "connections (pool st) = c # cs"
    and "user_ok (db (net st)) u" "view_fits (db (net st)) u"
    and "list_all (\<lambda>a. account_uuid a = u \<and> in_long (update_time a) \<and> account_fits a) as"
  shows "\<exists>st' m st''. redis_upsert R u as st = (Ret True, st') \<and>
    redis_get_accounts R u st' = (Ret m, st'') \<and> smap_inv m \<and>
    map_of m = redis_view (db (net st)) u ++ newest_of as"
proof -
  have "list_all (\<lambda>a. account_uuid a = u \<and> in_long (update_time a)) as"
    using assms(6) by (auto simp: list_all_iff)
  from upsert_serves [OF assms(1-4) this] obtain st' where u: "redis_upsert R u as st = (Ret True, st')"
    "ready pend good c st'" "connections (pool st') = c # cs" "user_ok (db (net st')) u"
    "redis_view (db (net st')) u = redis_view (db (net st)) u ++ newest_of as" by blast
  have "account_fits a" if "newest_of as n = Some a" for n a
    using map_of_SomeD [OF that [unfolded newest_of_def]] assms(6) by (auto simp: list_all_iff)
  then have "view_fits (db (net st')) u"
    using assms(5) by (auto simp: view_fits_def u(5) map_add_Some_iff)
  from redis_get_accounts_view [OF assms(1) u(2-4) this] u(1,5) show ?thesis by auto
qed

theorem redis_round_trip_witness:
  "\<exists>st' m st''. redis_upsert mem_redis ''ann@example.com''
       [\<lparr>account_name = ''mail'', account_uuid = ''ann@example.com'', user_name = ''ann'', password = ''pw'',
         old_password = [], url = ''http://mail'', update_time = 17, deleted = False\<rparr>]
       (mem_redis_state (\<lambda>k. None)) = (Ret True, st') \<and>
     redis_get_accounts mem_redis ''ann@example.com'' st' = (Ret m, st'') \<and>
     map_option update_time (map_of m ''mail'') = Some 17"
proof -
  let ?a = "\<lparr>account_name = ''mail'', account_uuid = ''ann@example.com'', user_name = ''ann'', password = ''pw'',
         old_password = [], url = ''http://mail'', update_time = 17, deleted = False\<rparr>"
  note r = mem_redis_ready(1) [OF empty_db(1)]
  have "list_all (\<lambda>a. account_uuid a = ''ann@example.com'' \<and> in_long (update_time a) \<and> account_fits a) [?a]"
    by (simp add: in_long_def account_fits_def account_strings_def row_length_def)
  with redis_round_trip [OF mem_redis_serves r mem_redis_ready(2), of "''ann@example.com''" "[?a]"] empty_db
  obtain st' m st'' where w: "redis_upsert mem_redis ''ann@example.com'' [?a] (mem_redis_state (\<lambda>k. None)) = (Ret True, st')"
    "redis_get_accounts mem_redis ''ann@example.com'' st' = (Ret m, st'')" "map_of m = newest_of [?a]"
    unfolding mem_redis_ready(3) by auto
  then have "map_option update_time (map_of m ''mail'') = Some 17" by (simp add: newest_of_def)
  with w(1,2) show ?thesis by blast
qed

end
