(* ===== verification/RedisRecovery.thy ===== *)
theory RedisRecovery
  imports RedisPool
begin

text \<open>
  Getting a connection after the Redis server has gone away and come back: the idle connections
  are broken, \<open>getConnection (true)\<close> and \<open>testConnection\<close> throw them away one after the other and
  make a new one. The two functions call each other inside a loop; this is where they end.
\<close>

section \<open>A server that is back\<close>

text \<open>
  Every connection works or is broken. One that works answers \<open>PING\<close>; on one that is broken the
  command fails and sets the error of the context, as hiredis does when the socket is closed; a
  connection that was made and authenticated works.
\<close>

definition server_back :: "('c, 'w) redis \<Rightarrow> ('c \<Rightarrow> bool) \<Rightarrow> bool" where
  "server_back R works \<longleftrightarrow>
     (\<forall>c w. works c \<longrightarrow> \<not> areReplyErrors (fst (redisCommand R c PING w))) \<and>
     (\<forall>c w. \<not> works c \<longrightarrow> areReplyErrors (fst (redisCommand R c PING w)) \<and>
        redisErr R c (snd (redisCommand R c PING w))) \<and>
     (\<forall>st c st'. createConnection R st = (Some c, st') \<longrightarrow> works c)"

definition got :: "('c \<Rightarrow> bool) \<Rightarrow> (string, 'c) outcome \<Rightarrow> bool" where
  "got works r \<longleftrightarrow> (\<exists>c. r = Ret c \<and> works c) \<or> r = Throw ''Unable to create new Redis Connection''"

lemma got_ret [simp]: "got works (Ret c) \<longleftrightarrow> works c"
  by (simp add: got_def)

lemma got_seq:
  "got works (fst r) \<Longrightarrow> (\<And>c st. works c \<Longrightarrow> got works (fst (f c st))) \<Longrightarrow> got works (fst (seq_op r f))"
  by (cases r; cases "fst r") (simp_all add: got_def)

lemma test_works:
  assumes "server_back R works" "works c"
  shows "fst (testConnection R (Suc n) c st) = Ret c"
  using assms by (auto simp: server_back_def redis_command_def split: prod.splits) (metis fst_conv)

lemma test_broken:
  assumes "server_back R works" "\<not> works c"
  obtains st' where "connections (pool st') = connections (pool st)"
    "currentConnections (pool st') = currentConnections (pool st) - 1"
    "testConnection R (Suc n) c st = seq_op (getConnection R n True st') (\<lambda>c' st''. testConnection R n c' st'')"
proof -
  obtain reply w where p: "redisCommand R c PING (net st) = (reply, w)" by fastforce
  with assms have e: "areReplyErrors reply" "redisErr R c w" unfolding server_back_def by (metis fst_conv, metis snd_conv)
  show ?thesis
    by (rule that [of "releaseConnection R (Some c) (st\<lparr>net := w\<rparr>)"])
      (use p e in \<open>simp_all add: redis_command_def releaseConnection_def add_count_def\<close>)
qed

lemma create_got:
  assumes "server_back R works" "connections (pool st) = []"
    "currentConnections (pool st) < redis_max_connections (redis_config R)"
  shows "got works (fst (getConnection R n True st))"
proof -
  obtain r st' where r: "createConnection R st = (r, st')" by fastforce
  have "works c" if "r = Some c" for c using assms(1) r that unfolding server_back_def by blast
  with assms(2,3) r show ?thesis by (cases r) (auto simp: getConnection.simps got_def)
qed

text \<open>Throwing away the connection under test, then the idle ones, costs one unit of fuel each, and one more.\<close>

lemma test_got:
  assumes srv: "server_back R works"
  shows "length (connections (pool st)) + 2 \<le> n \<Longrightarrow>
    currentConnections (pool st) \<le> redis_max_connections (redis_config R) \<Longrightarrow>
    got works (fst (testConnection R n c st))"
proof (induction "connections (pool st)" arbitrary: n c st)
  case Nil
  then obtain m where n: "n = Suc (Suc m)" by (cases n; cases "n - 1") auto
  show ?case
  proof (cases "works c")
    case True
    then show ?thesis using test_works [OF srv True] n by simp
  next
    case False
    obtain st' where st': "connections (pool st') = connections (pool st)"
      "currentConnections (pool st') = currentConnections (pool st) - 1"
      "testConnection R (Suc (Suc m)) c st =
         seq_op (getConnection R (Suc m) True st') (\<lambda>c' st''. testConnection R (Suc m) c' st'')"
      by (rule test_broken [OF srv False])
    have "connections (pool st') = []" "currentConnections (pool st') < redis_max_connections (redis_config R)"
      using Nil st'(1,2) by simp_all
    from create_got [OF srv this] have g: "got works (fst (getConnection R (Suc m) True st'))" .
    then show ?thesis unfolding n st'(3) by (rule got_seq) (simp add: test_works [OF srv] del: testConnection.simps)
  qed
next
  case (Cons d ds)
  then obtain m where n: "n = Suc (Suc m)" by (cases n; cases "n - 1") auto
  show ?case
  proof (cases "works c")
    case True
    then show ?thesis using test_works [OF srv True] n by simp
  next
    case False
    obtain st' where st': "connections (pool st') = connections (pool st)"
      "currentConnections (pool st') = currentConnections (pool st) - 1"
      "testConnection R (Suc (Suc m)) c st =
         seq_op (getConnection R (Suc m) True st') (\<lambda>c' st''. testConnection R (Suc m) c' st'')"
      by (rule test_broken [OF srv False])
    have "getConnection R (Suc m) True st' = testConnection R (Suc m) d (set_idle ds st')"
      using st'(1) Cons.hyps(2) [symmetric] by (subst getConnection.simps) simp
    moreover have "got works (fst (testConnection R (Suc m) d (set_idle ds st')))"
    proof (rule Cons.hyps(1))
      show "ds = connections (pool (set_idle ds st'))" by (simp add: set_idle_def)
      have "length (connections (pool st)) = Suc (length ds)" using Cons.hyps(2) [symmetric] by simp
      with Cons.prems(1) show "length (connections (pool (set_idle ds st'))) + 2 \<le> Suc m"
        by (simp add: n set_idle_def)
      show "currentConnections (pool (set_idle ds st')) \<le> redis_max_connections (redis_config R)"
        using Cons.prems(2) st'(2) by (simp add: set_idle_def)
    qed
    ultimately have "got works (fst (getConnection R (Suc m) True st'))" by simp
    then show ?thesis unfolding n st'(3) by (rule got_seq) (simp add: test_works [OF srv] del: testConnection.simps)
  qed
qed

text \<open>
  C30: once the Redis server is back, getting a tested connection ends. However many of the idle
  connections are broken, and with one unit of fuel more than there are idle connections, the
  result is a connection that works, or the exception of a connection that could not be made; the
  caller does not wait, although it gave up its place in a full pool.
\<close>

theorem get_connection_recovers:
  assumes "server_back R works" "length (connections (pool st)) < n"
    and "currentConnections (pool st) \<le> redis_max_connections (redis_config R)"
    and "connections (pool st) = [] \<Longrightarrow> currentConnections (pool st) < redis_max_connections (redis_config R)"
  shows "got works (fst (getConnection R n True st))"
proof (cases "connections (pool st)")
  case Nil
  from create_got [OF assms(1) Nil assms(4) [OF Nil]] show ?thesis .
next
  case (Cons c cs)
  have "got works (fst (testConnection R n c (set_idle cs st)))"
    using assms(2,3) Cons by (intro test_got [OF assms(1)]) (simp_all add: set_idle_def)
  then show ?thesis using Cons by (simp add: getConnection.simps)
qed

text \<open>A server whose connections below 10 are from before it was restarted.\<close>

definition restarted :: "(nat, unit) redis" where
  "restarted = \<lparr>redisConnect = (\<lambda>h p w. (Some 10, w)), redisErr = (\<lambda>c w. c < 10),
     redisCommand = (\<lambda>c cmd w. (if c < 10 then None else Some (Reply_status ''PONG''), w)),
     redisAppendCommand = (\<lambda>c cmd w. w), redisGetReply = (\<lambda>c w. ((10 \<le> c, Some (Reply_status ''OK'')), w)),
     redisFree = (\<lambda>c w. w), redis_config = default_config, test_fuel = 5\<rparr>"

theorem get_connection_recovers_witness:
  "fst (getConnection restarted 4 True \<lparr>pool = \<lparr>connections = [1, 2, 3], currentConnections = 200\<rparr>, net = ()\<rparr>) = Ret 10 \<and>
   got (\<lambda>c. 10 \<le> c) (fst (getConnection restarted 4 True
     \<lparr>pool = \<lparr>connections = [1, 2, 3], currentConnections = 200\<rparr>, net = ()\<rparr>))"
proof
  let ?st = "\<lparr>pool = \<lparr>connections = [1, 2, 3], currentConnections = 200\<rparr>, net = ()\<rparr> :: (nat, unit) store_state"
  have "server_back restarted (\<lambda>c. 10 \<le> c)"
    by (auto simp: server_back_def restarted_def areReplyErrors_def createConnection_def)
  from get_connection_recovers [OF this, of ?st 4]
  show "got (\<lambda>c. 10 \<le> c) (fst (getConnection restarted 4 True ?st))"
    by (simp add: restarted_def default_config_def)
  show "fst (getConnection restarted 4 True ?st) = Ret 10"
    by (simp add: restarted_def default_config_def getConnection.simps redis_command_def areReplyErrors_def
        releaseConnection_def createConnection_def set_idle_def add_count_def eval_nat_numeral)
qed

end
