(* ===== verification/UpsertSql.thy ===== *)
theory UpsertSql
  imports DataStore
begin

text \<open>
  The statement with which the Postgres store writes accounts: \<open>upsert_accounts_for_user\<close> of
  \<open>data_store_connection\<close> up to the call of \<open>PQexec_wrapper\<close>. The text is written piece by
  piece into a buffer of \<open>sz\<close> bytes that grows by \<open>realloc\<close>; a write past its end is undefined.
\<close>

section \<open>The builder\<close>

definition UPSERT_ACCOUNT_PREPARE_1 :: string where
  "UPSERT_ACCOUNT_PREPARE_1 = ''INSERT INTO Accounts as a VALUES ''"

definition UPSERT_ACCOUNT_PREPARE_2 :: string where
  "UPSERT_ACCOUNT_PREPARE_2 =
     ''on conflict (account_name, account_uuid) DO UPDATE '' @
     ''SET user_name = EXCLUDED.user_name, password = EXCLUDED.password, old_password = '' @
     ''EXCLUDED.old_password, url = EXCLUDED.url, update_time = EXCLUDED.update_time, '' @
     ''deleted = EXCLUDED.deleted WHERE EXCLUDED.update_time > a.update_time''"

text \<open>
  The index is the length of what has been written. \<open>(unsigned int)(sz * 1.25)\<close> is a quarter
  more, rounded down, for the sizes a \<open>double\<close> holds exactly.
\<close>

type_synonym sql_buffer = "string \<times> u32"

definition increase_buffer :: "u32 \<Rightarrow> sql_buffer \<Rightarrow> sql_buffer" where
  "increase_buffer needed b =
     (case b of (tx, bsz) \<Rightarrow>
        if needed + 20 > bsz - word_of_nat (length tx) then
          (let bsz' = needed + word_of_nat (5 * unat bsz div 4) in (tx, bsz' + bsz' mod 8))
        else b)"

definition buffer_write :: "string \<Rightarrow> sql_buffer \<Rightarrow> (string, sql_buffer) outcome" where
  "buffer_write s b =
     (case b of (tx, bsz) \<Rightarrow>
        if length tx + length s + 1 \<le> unat bsz then Ret (tx @ s, bsz) else Undefined)"

definition SQ :: char where
  "SQ = CHR 0x27"

definition sql_row :: "string \<Rightarrow> account \<Rightarrow> string" where
  "sql_row u a =
     ''('' @ [SQ] @ account_name a @ [SQ] @ '', '' @ [SQ] @ u @ [SQ] @ '', '' @ [SQ] @ user_name a @ [SQ] @
     '', '' @ [SQ] @ password a @ [SQ] @ '', '' @ [SQ] @ old_password a @ [SQ] @ '', '' @ [SQ] @ url a @ [SQ] @
     '', '' @ show_int (update_time a) @ '', '' @ (if deleted a then ''true'' else ''false'') @ '')''"

definition row_needed :: "account \<Rightarrow> nat" where
  "row_needed a = length (account_name a) + length (user_name a) + length (password a) +
     length (old_password a) + length (url a) + 70"

definition add_row :: "string \<Rightarrow> account \<Rightarrow> sql_buffer \<Rightarrow> (string, sql_buffer) outcome" where
  "add_row u a b = buffer_write (sql_row u a) (increase_buffer (word_of_nat (row_needed a)) b)"

fun add_rows :: "string \<Rightarrow> bool \<Rightarrow> account list \<Rightarrow> sql_buffer \<Rightarrow> (string, sql_buffer) outcome" where
  "add_rows u first [] b = Ret b"
| "add_rows u first (a # as) b =
     (case (if first then Ret b else buffer_write '', '' b) of
        Ret b1 \<Rightarrow> (case add_row u a b1 of Ret b2 \<Rightarrow> add_rows u False as b2 | r \<Rightarrow> r)
      | r \<Rightarrow> r)"

definition upsert_sql :: "string \<Rightarrow> account list \<Rightarrow> (string, string) outcome" where
  "upsert_sql u as =
     (case buffer_write UPSERT_ACCOUNT_PREPARE_1 ([], 500 + 100 * word_of_nat (length as)) of
        Ret b \<Rightarrow>
          (case add_rows u True as b of
             Ret b' \<Rightarrow>
               (case buffer_write UPSERT_ACCOUNT_PREPARE_2 (increase_buffer 300 b') of
                  Ret (tx, bsz) \<Rightarrow> Ret tx
                | Throw e \<Rightarrow> Throw e | Blocked \<Rightarrow> Blocked | Undefined \<Rightarrow> Undefined)
           | Throw e \<Rightarrow> Throw e | Blocked \<Rightarrow> Blocked | Undefined \<Rightarrow> Undefined)
      | Throw e \<Rightarrow> Throw e | Blocked \<Rightarrow> Blocked | Undefined \<Rightarrow> Undefined)"

text \<open>The statement it is meant to build.\<close>

fun sql_rows :: "string \<Rightarrow> account list \<Rightarrow> string" where
  "sql_rows u [] = []"
| "sql_rows u [a] = sql_row u a"
| "sql_rows u (a # b # as) = sql_row u a @ '', '' @ sql_rows u (b # as)"

definition upsert_statement :: "string \<Rightarrow> account list \<Rightarrow> string" where
  "upsert_statement u as = UPSERT_ACCOUNT_PREPARE_1 @ sql_rows u as @ UPSERT_ACCOUNT_PREPARE_2"

lemma sql_rows_Cons: "sql_rows u (a # as) = sql_row u a @ (if as = [] then [] else '', '' @ sql_rows u as)"
  by (cases as) simp_all

section \<open>Sizes\<close>

lemma sql_row_length:
  assumes "- (2 ^ 63) \<le> update_time a" "update_time a < 2 ^ 63"
  shows "length (sql_row u a) + 17 \<le> row_needed a + length u"
proof -
  have "\<bar>update_time a\<bar> < 10 ^ 19" using assms by (simp add: abs_less_iff)
  from length_show_int [OF this] show ?thesis by (auto simp: sql_row_def row_needed_def)
qed

lemma increase_buffer_text [simp]: "fst (increase_buffer needed b) = fst b"
  by (simp add: increase_buffer_def Let_def split: prod.splits)

text \<open>
  What a call of \<open>increase_buffer\<close> leaves, on sizes far from the 32-bit range: at least
  \<open>needed + 20\<close> free bytes, and a size bounded by what has been and is going to be written.
\<close>

lemma grow_bound:
  assumes "(x :: nat) < l + n + 20" "4 * q \<le> 5 * x" "m < 8"
  shows "n + q + m \<le> 3 * (l + n) + 40"
proof -
  have "5 * x \<le> 5 * l + 5 * n + 95" using assms(1) by simp
  with assms(2) have "4 * q \<le> 5 * l + 5 * n + 95" by simp
  moreover have "4 * m \<le> 28" using assms(3) by simp
  ultimately have "4 * (n + q + m) \<le> 4 * (3 * (l + n) + 40)" by simp
  then show ?thesis by simp
qed

lemma increase_buffer_room:
  assumes "length tx \<le> unat bsz" "500 \<le> unat bsz" "unat bsz + n < 2 ^ 30"
  shows "\<exists>bsz'. increase_buffer (word_of_nat n) (tx, bsz) = (tx, bsz') \<and>
    length tx + n + 20 \<le> unat bsz' \<and> 500 \<le> unat bsz' \<and>
    (bsz' = bsz \<or> unat bsz' \<le> 3 * (length tx + n) + 40)"
proof -
  have l: "unat (word_of_nat (length tx) :: u32) = length tx" using assms by (intro unat_count) simp
  have n: "unat (word_of_nat n + 20 :: u32) = n + 20" using unat_count [of "n + 20"] assms by simp
  have le: "word_of_nat (length tx) \<le> bsz" using assms(1) l by (simp add: word_le_nat_alt)
  have d: "unat (bsz - word_of_nat (length tx)) = unat bsz - length tx" using unat_diff_le [OF le] l by simp
  show ?thesis
  proof (cases "word_of_nat n + 20 > bsz - word_of_nat (length tx)")
    case True
    let ?s = "word_of_nat n + word_of_nat (5 * unat bsz div 4) :: u32"
    have "unat bsz - length tx < n + 20" using True n d by (simp add: word_less_nat_alt)
    then have g: "unat bsz < length tx + n + 20" using assms(1) by linarith
    have "?s = word_of_nat (n + 5 * unat bsz div 4)" by simp
    then have s: "unat ?s = n + 5 * unat bsz div 4" using unat_count [of "n + 5 * unat bsz div 4"] assms(3) by simp
    have q: "4 * (5 * unat bsz div 4) \<le> 5 * unat bsz" "5 * unat bsz \<le> 4 * (5 * unat bsz div 4) + 3"
      by presburger+
    have m: "unat (?s mod 8) < 8" by (simp add: unat_mod)
    have "unat (?s + ?s mod 8) = unat ?s + unat (?s mod 8)"
      using s m assms(3) by (intro unat_add_lem [THEN iffD1]) simp
    then have u: "unat (?s + ?s mod 8) = n + 5 * unat bsz div 4 + unat (?s mod 8)" using s by simp
    have "increase_buffer (word_of_nat n) (tx, bsz) = (tx, ?s + ?s mod 8)"
      using True by (simp add: increase_buffer_def Let_def)
    moreover have "length tx + n + 20 \<le> unat (?s + ?s mod 8)" unfolding u using assms(1,2) q by linarith
    moreover have "500 \<le> unat (?s + ?s mod 8)" unfolding u using assms(1,2) q by linarith
    moreover have "unat (?s + ?s mod 8) \<le> 3 * (length tx + n) + 40" unfolding u by (rule grow_bound [OF g q(1) m])
    ultimately show ?thesis by blast
  next
    case False
    then have "n + 20 \<le> unat bsz - length tx" using n d by (simp add: not_less word_le_nat_alt)
    with False assms show ?thesis by (auto simp: increase_buffer_def)
  qed
qed

lemma buffer_write_fits: "length tx + length s + 1 \<le> unat bsz \<Longrightarrow> buffer_write s (tx, bsz) = Ret (tx @ s, bsz)"
  by (simp add: buffer_write_def)

text \<open>An upper bound of what the rows to come write.\<close>

definition rows_bytes :: "account list \<Rightarrow> nat" where
  "rows_bytes as = sum_list (map (\<lambda>a. row_needed a + 40) as)"

definition writable :: "account \<Rightarrow> bool" where
  "writable a \<longleftrightarrow> - (2 ^ 63) \<le> update_time a \<and> update_time a < 2 ^ 63"

definition room :: "string \<Rightarrow> u32 \<Rightarrow> bool" where
  "room tx bsz \<longleftrightarrow> length tx + 3 \<le> unat bsz \<and> 500 \<le> unat bsz \<and> unat bsz \<le> 2 ^ 28"

lemma add_row_fits:
  assumes "length u \<le> 34" "writable a" "length tx \<le> unat bsz" "500 \<le> unat bsz" "unat bsz \<le> 2 ^ 28"
    and "length tx + row_needed a \<le> 2 ^ 26"
  shows "\<exists>bsz'. add_row u a (tx, bsz) = Ret (tx @ sql_row u a, bsz') \<and> room (tx @ sql_row u a) bsz'"
proof -
  have "unat bsz + row_needed a < 2 ^ 30" using assms(5,6) by simp
  from increase_buffer_room [OF assms(3,4) this] obtain bsz' where
    b: "increase_buffer (word_of_nat (row_needed a)) (tx, bsz) = (tx, bsz')"
    "length tx + row_needed a + 20 \<le> unat bsz'" "500 \<le> unat bsz'"
    "bsz' = bsz \<or> unat bsz' \<le> 3 * (length tx + row_needed a) + 40" by blast
  have l: "length (sql_row u a) \<le> row_needed a + 17"
    using sql_row_length [of a u] assms(1,2) by (simp add: writable_def)
  have "unat bsz' \<le> 2 ^ 28" using b(4) assms(5,6) by auto
  with b l show ?thesis by (simp add: add_row_def buffer_write_fits room_def)
qed

lemma add_rows_fits:
  assumes "length u \<le> 34"
  shows "list_all writable as \<Longrightarrow> room tx bsz \<Longrightarrow> length tx + rows_bytes as \<le> 2 ^ 26 \<Longrightarrow>
    \<exists>bsz'. add_rows u first as (tx, bsz) =
        Ret (tx @ (if first \<or> as = [] then [] else '', '') @ sql_rows u as, bsz') \<and>
      room (tx @ (if first \<or> as = [] then [] else '', '') @ sql_rows u as) bsz' \<and>
      length (tx @ (if first \<or> as = [] then [] else '', '') @ sql_rows u as) \<le> 2 ^ 26"
proof (induction as arbitrary: tx bsz first)
  case Nil
  then show ?case by simp
next
  case (Cons a as)
  let ?c = "if first then [] else '', ''"
  have r: "length tx + 3 \<le> unat bsz" "500 \<le> unat bsz" "unat bsz \<le> 2 ^ 28" using Cons.prems(2) by (simp_all add: room_def)
  have c: "(if first then Ret (tx, bsz) else buffer_write '', '' (tx, bsz)) = Ret (tx @ ?c, bsz)"
    using r(1) by (simp add: buffer_write_fits)
  have n: "length (tx @ ?c) + (row_needed a + 38) + rows_bytes as \<le> 2 ^ 26"
    using Cons.prems(3) by (simp add: rows_bytes_def)
  have w: "writable a" "list_all writable as" using Cons.prems(1) by simp_all
  have c2: "length (tx @ ?c) \<le> unat bsz" "length (tx @ ?c) + row_needed a \<le> 2 ^ 26" using r(1) n by simp_all
  obtain b1 where b1: "add_row u a (tx @ ?c, bsz) = Ret ((tx @ ?c) @ sql_row u a, b1)" "room ((tx @ ?c) @ sql_row u a) b1"
    using add_row_fits [OF assms w(1) c2(1) r(2,3) c2(2)] by blast
  have "length (sql_row u a) \<le> row_needed a + 17"
    using sql_row_length [of a u] assms w(1) by (simp add: writable_def)
  then have "length ((tx @ ?c) @ sql_row u a) + rows_bytes as \<le> 2 ^ 26" using n by simp
  from Cons.IH [OF w(2) b1(2) this, of False] b1(1) c show ?case
    by (auto simp: sql_rows_Cons)
qed

lemma upsert_sql_fits:
  assumes "length u \<le> 34" "list_all writable as" "as \<noteq> []" "rows_bytes as + 34 \<le> 2 ^ 26"
  shows "upsert_sql u as = Ret (upsert_statement u as)"
proof -
  let ?p = "UPSERT_ACCOUNT_PREPARE_1" and ?b = "500 + 100 * word_of_nat (length as) :: u32"
  have p: "length ?p = 33" "length UPSERT_ACCOUNT_PREPARE_2 \<le> 319"
    by (simp_all add: UPSERT_ACCOUNT_PREPARE_1_def UPSERT_ACCOUNT_PREPARE_2_def)
  have "length as * 110 \<le> rows_bytes as"
    by (induction as) (simp_all add: rows_bytes_def row_needed_def)
  then have n: "500 + 100 * length as \<le> 2 ^ 28" using assms(4) by simp
  have "?b = word_of_nat (500 + 100 * length as)" by simp
  then have b: "unat ?b = 500 + 100 * length as" using unat_count [of "500 + 100 * length as"] n by simp
  have w: "buffer_write ?p ([], ?b) = Ret (?p, ?b)" using buffer_write_fits [of "[]" ?p ?b] b p by simp
  have "room ?p ?b" using b n p by (simp add: room_def)
  from add_rows_fits [OF assms(1,2) this, of True] obtain b1 where r:
    "add_rows u True as (?p, ?b) = Ret (?p @ sql_rows u as, b1)" "room (?p @ sql_rows u as) b1"
    "length (?p @ sql_rows u as) \<le> 2 ^ 26"
    using assms(4) p by auto
  obtain b2 where i: "increase_buffer (word_of_nat 300) (?p @ sql_rows u as, b1) = (?p @ sql_rows u as, b2)"
    "length (?p @ sql_rows u as) + 300 + 20 \<le> unat b2"
    using increase_buffer_room [of "?p @ sql_rows u as" b1 300] r(2,3) by (auto simp: room_def)
  then have "buffer_write UPSERT_ACCOUNT_PREPARE_2 (increase_buffer 300 (?p @ sql_rows u as, b1)) =
      Ret ((?p @ sql_rows u as) @ UPSERT_ACCOUNT_PREPARE_2, b2)"
    using buffer_write_fits [of "?p @ sql_rows u as" UPSERT_ACCOUNT_PREPARE_2 b2] p(2) by simp
  then show ?thesis by (simp add: upsert_sql_def w r(1) upsert_statement_def)
qed

text \<open>
  For a user whose address has at most 34 characters, and accounts of at most 64 megabytes
  together, the statement is built inside its buffer, which grows as needed, and is the intended
  text: the rows separated by commas between the two constant parts.
\<close>

theorem upsert_sql_in_bounds:
  assumes "length u \<le> 34" "list_all writable as" "as \<noteq> []" "rows_bytes as + 34 \<le> 2 ^ 26"
  shows "upsert_sql u as = Ret (upsert_statement u as)"
  using assms by (rule upsert_sql_fits)

theorem upsert_sql_in_bounds_witness:
  "\<exists>s. upsert_sql ''ann@example.com''
     [\<lparr>account_name = ''mail'', account_uuid = ''ann@example.com'', user_name = ''ann'', password = ''pw'',
       old_password = [], url = ''http://mail'', update_time = 17, deleted = False\<rparr>] = Ret s"
  using upsert_sql_in_bounds [of "''ann@example.com''"
    "[\<lparr>account_name = ''mail'', account_uuid = ''ann@example.com'', user_name = ''ann'', password = ''pw'',
       old_password = [], url = ''http://mail'', update_time = 17, deleted = False\<rparr>]"]
  by (simp add: writable_def rows_bytes_def row_needed_def)

text \<open>
  C39: the bound on the address is needed, because the space that is made for a row leaves out the
  address of the user. An account whose strings have 476 bytes makes no room in the fresh buffer of
  600 bytes, and with an address of 60 bytes or more, which \<open>verify_email\<close> accepts up to 319, its row
  is written past the end of the buffer.
\<close>

theorem upsert_sql_overflow:
  assumes "row_needed a = 546" "60 \<le> length u"
  shows "upsert_sql u [a] = Undefined"
proof -
  let ?p = "UPSERT_ACCOUNT_PREPARE_1"
  have p: "length ?p = 33" by (simp add: UPSERT_ACCOUNT_PREPARE_1_def)
  have w: "buffer_write ?p ([], 600) = Ret (?p, 600)" using buffer_write_fits [of "[]" ?p 600] p by simp
  have i: "increase_buffer 546 (?p, 600) = (?p, 600)" by (simp add: increase_buffer_def p)
  have "row_needed a + length u \<le> length (sql_row u a) + 38"
    by (simp add: sql_row_def row_needed_def)
  then have "\<not> length ?p + length (sql_row u a) + 1 \<le> unat (600 :: u32)" using assms p by simp
  then have "add_row u a (?p, 600) = Undefined"
    by (simp add: add_row_def assms(1) i buffer_write_def)
  then show ?thesis using w by (simp add: upsert_sql_def)
qed

theorem upsert_sql_overflow_witness:
  "upsert_sql (replicate 60 (CHR ''u'') @ ''@example.com'')
     [\<lparr>account_name = replicate 400 (CHR ''n''), account_uuid = [], user_name = replicate 76 (CHR ''x''), password = [],
       old_password = [], url = [], update_time = 17, deleted = False\<rparr>] = Undefined"
  by (rule upsert_sql_overflow) (simp_all add: row_needed_def)

section \<open>Quotes in the accounts\<close>

definition injected :: "string \<Rightarrow> account \<Rightarrow> account \<Rightarrow> account" where
  "injected victim a b =
     b\<lparr>account_name := account_name a @ [SQ] @ '', '' @ [SQ] @ victim @ [SQ] @ '', '' @ [SQ] @ user_name a @ [SQ] @
       '', '' @ [SQ] @ password a @ [SQ] @ '', '' @ [SQ] @ old_password a @ [SQ] @ '', '' @ [SQ] @ url a @ [SQ] @
       '', '' @ show_int (update_time a) @ '', '' @ (if deleted a then ''true'' else ''false'') @ ''), ('' @ [SQ] @
       account_name b\<rparr>"

text \<open>
  The strings of an account go into the statement without escaping their quotes. For every
  user, victim and accounts \<open>a\<close> and \<open>b\<close> there is an account that the user can send under its own
  address and for which the statement, as far as it is built in bounds, is the one that writes
  \<open>a\<close> for the victim next to \<open>b\<close> for the user: \<open>sync-final\<close> can write the accounts of anyone.
\<close>

theorem upsert_sql_injection:
  assumes "length u \<le> 34" "writable b" "rows_bytes [injected victim a b] + 34 \<le> 2 ^ 26"
  shows "upsert_sql u [injected victim a b] =
    Ret (UPSERT_ACCOUNT_PREPARE_1 @ sql_row victim a @ '', '' @ sql_row u b @ UPSERT_ACCOUNT_PREPARE_2)"
proof -
  have "list_all writable [injected victim a b]" using assms(2) by (simp add: writable_def injected_def)
  with upsert_sql_fits [OF assms(1) this _ assms(3)] show ?thesis
    by (simp add: upsert_statement_def sql_row_def injected_def)
qed

theorem upsert_sql_injection_witness:
  "\<exists>evil. upsert_sql ''eve@example.com'' [evil] =
     Ret (UPSERT_ACCOUNT_PREPARE_1 @
       sql_row ''bob@example.com'' \<lparr>account_name = ''bank'', account_uuid = ''bob@example.com'', user_name = ''bob'',
         password = ''changed'', old_password = [], url = [], update_time = 99, deleted = False\<rparr> @ '', '' @
       sql_row ''eve@example.com'' \<lparr>account_name = ''mine'', account_uuid = ''eve@example.com'', user_name = ''eve'',
         password = ''pw'', old_password = [], url = [], update_time = 1, deleted = False\<rparr> @
       UPSERT_ACCOUNT_PREPARE_2)"
proof -
  let ?a = "\<lparr>account_name = ''bank'', account_uuid = ''bob@example.com'', user_name = ''bob'',
         password = ''changed'', old_password = [], url = [], update_time = 99, deleted = False\<rparr>"
  let ?b = "\<lparr>account_name = ''mine'', account_uuid = ''eve@example.com'', user_name = ''eve'',
         password = ''pw'', old_password = [], url = [], update_time = 1, deleted = False\<rparr>"
  have "show_int 99 = ''99''" by code_simp
  then have "rows_bytes [injected ''bob@example.com'' ?a ?b] + 34 \<le> 2 ^ 26"
    by (simp add: rows_bytes_def row_needed_def injected_def)
  from upsert_sql_injection [OF _ _ this, of "''eve@example.com''"] show ?thesis
    by (intro exI [of _ "injected ''bob@example.com'' ?a ?b"]) (simp add: writable_def)
qed

end
