(* ===== verification/PostgresStore.thy ===== *)
theory PostgresStore
  imports Pools UpsertSql
begin

text \<open>
  \<open>data_store_connection\<close>: the data store on Postgres. \<open>libpq\<close> with the database behind it is
  a parameter. Every statement goes through a wrapper that takes a connection from the pool, tries
  at most three times, and throws a C string when it gives up.
\<close>

section \<open>libpq\<close>

text \<open>A result: a command that was done, the rows of a query (\<open>PQgetvalue\<close> texts), or an error.\<close>

datatype pg_result = Pg_command_ok | Pg_tuples "string list list" | Pg_error

record ('c, 'w) libpq =
  PQconnectdb :: "string \<Rightarrow> 'w \<Rightarrow> 'c \<times> 'w"
  PQstatus_ok :: "'c \<Rightarrow> 'w \<Rightarrow> bool"
  PQprepare_ok :: "'c \<Rightarrow> string \<Rightarrow> string \<Rightarrow> nat \<Rightarrow> 'w \<Rightarrow> bool \<times> 'w"
  PQexec :: "'c \<Rightarrow> string \<Rightarrow> 'w \<Rightarrow> pg_result \<times> 'w"
  PQexecPrepared :: "'c \<Rightarrow> string \<Rightarrow> string list \<Rightarrow> 'w \<Rightarrow> pg_result \<times> 'w"
  PQfinish :: "'c \<Rightarrow> 'w \<Rightarrow> 'w"
  pg_config :: config

definition CONNECT_ATTEMPTS :: nat where
  "CONNECT_ATTEMPTS = 10"

definition GET_USERS_SQL :: string where
  "GET_USERS_SQL = ''SELECT * FROM users''"

definition ACCOUNT_HISTORY_SQL :: string where
  "ACCOUNT_HISTORY_SQL = ''SELECT account_uuid, account_name FROM history WHERE insert_time < ''"

definition DELETE_HISTORY_SQL :: string where
  "DELETE_HISTORY_SQL = ''DELETE FROM history WHERE insert_time < ''"

definition OLD_ACCOUNT_SQL :: string where
  "OLD_ACCOUNT_SQL = ''SELECT account_uuid, account_name FROM accounts WHERE update_time < ''"

definition DELETE_OLD_ACCOUNTS_SQL :: string where
  "DELETE_OLD_ACCOUNTS_SQL = ''DELETE FROM accounts WHERE update_time < ''"

text \<open>The prepared statements: name, definition, number of parameters.\<close>

definition prepared_statements :: "(string \<times> string \<times> nat) list" where
  "prepared_statements =
     [(''create_user_pre'', ''INSERT INTO users VALUES ($1::text, $2::text, $3::bigint, $4::numeric)'', 4),
      (''delete_user_pre'', ''DELETE from users WHERE account_uuid = $1::text'', 1),
      (''update_last_sync_time_prepare'',
       ''UPDATE Users SET account_last_sync = $1::bigint WHERE account_uuid = $2::text'', 2),
      (''get_accounts_for_user_pre'', ''SELECT * FROM accounts where account_uuid = $1::text'', 1)]"

section \<open>Connections\<close>

text \<open>\<open>createPreparedStatements\<close>: all four are prepared, whatever happens to the ones before; the count is only printed.\<close>

fun prepare_all :: "('c, 'w) libpq \<Rightarrow> 'c \<Rightarrow> (string \<times> string \<times> nat) list \<Rightarrow> 'w \<Rightarrow> bool \<times> 'w" where
  "prepare_all P c [] w = (True, w)"
| "prepare_all P c ((name, stmt, cnt) # ps) w =
     (case PQprepare_ok P c name stmt cnt w of
        (ok, w1) \<Rightarrow> (case prepare_all P c ps w1 of (oks, w2) \<Rightarrow> (ok \<and> oks, w2)))"

definition createPreparedStatements :: "('c, 'w) libpq \<Rightarrow> 'c \<Rightarrow> 'w \<Rightarrow> bool \<times> 'w" where
  "createPreparedStatements P c w =
     (case prepare_all P c prepared_statements w of
        (success, w1) \<Rightarrow>
          (case PQexec P c ''select * from pg_prepared_statements'' w1 of (res, w2) \<Rightarrow> (success, w2)))"

definition conn_info :: "config \<Rightarrow> string" where
  "conn_info cfg =
     ''host='' @ db_server cfg @ '' port='' @ db_port cfg @ '' dbname='' @ db_name cfg @
     '' user='' @ db_username cfg @ '' password='' @ db_password cfg"

fun connect_loop :: "('c, 'w) libpq \<Rightarrow> nat \<Rightarrow> 'w \<Rightarrow> 'c option \<times> 'w" where
  "connect_loop P 0 w = (None, w)"
| "connect_loop P (Suc n) w =
     (case PQconnectdb P (conn_info (pg_config P)) w of
        (c, w1) \<Rightarrow> if PQstatus_ok P c w1 then (Some c, w1) else connect_loop P n (PQfinish P c w1))"

text \<open>\<open>connect\<close>: None where it throws.\<close>

definition pg_connect :: "('c, 'w) libpq \<Rightarrow> 'w \<Rightarrow> 'c option \<times> 'w" where
  "pg_connect P w = connect_loop P CONNECT_ATTEMPTS w"

definition release_connection :: "'c \<Rightarrow> ('c, 'w) store_state \<Rightarrow> ('c, 'w) store_state" where
  "release_connection c st = set_idle (c # connections (pool st)) st"

text \<open>
  \<open>get_connection\<close>. The count goes up before connecting. When the statements cannot be prepared
  the code takes it back and throws, inside the block whose handler takes it back again.
\<close>

definition get_connection :: "('c, 'w) libpq \<Rightarrow> (('c, 'w) store_state, 'c) store_op" where
  "get_connection P st =
     (case connections (pool st) of
        c # cs \<Rightarrow> (Ret c, set_idle cs st)
      | [] \<Rightarrow>
          if currentConnections (pool st) < db_max_connections (pg_config P) then
            (let st1 = add_count 1 st in
             case pg_connect P (net st1) of
               (None, w) \<Rightarrow> (Throw ''Error getting connection in ::get_connection'', add_count (- 1) (st1\<lparr>net := w\<rparr>))
             | (Some c, w) \<Rightarrow>
                 (case createPreparedStatements P c w of
                    (True, w1) \<Rightarrow> (Ret c, st1\<lparr>net := w1\<rparr>)
                  | (False, w1) \<Rightarrow>
                      (let st2 = add_count (- 1) (st1\<lparr>net := PQfinish P c w1\<rparr>)
                       in (Throw ''Error getting connection in ::get_connection'', add_count (- 1) st2))))
          else (Blocked, st))"

text \<open>
  The two wrappers differ in the call and in what they throw at the end. A failed statement on a
  connection that is still good gives the connection back; a bad one is closed.
\<close>

fun exec_wrapper ::
  "('c, 'w) libpq \<Rightarrow> ('c \<Rightarrow> 'w \<Rightarrow> pg_result \<times> 'w) \<Rightarrow> string \<Rightarrow> nat \<Rightarrow> (('c, 'w) store_state, pg_result) store_op" where
  "exec_wrapper P exec msg 0 st = (Throw msg, st)"
| "exec_wrapper P exec msg (Suc n) st =
     (case get_connection P st of
        (Throw e, st1) \<Rightarrow> (Throw ''Error executing PQexec_wrapper'', st1)
      | (Blocked, st1) \<Rightarrow> (Blocked, st1)
      | (Undefined, st1) \<Rightarrow> (Undefined, st1)
      | (Ret c, st1) \<Rightarrow>
          (case exec c (net st1) of
             (res, w) \<Rightarrow>
               (let st2 = st1\<lparr>net := w\<rparr> in
                if res = Pg_error then
                  (if \<not> PQstatus_ok P c w then
                     exec_wrapper P exec msg n (add_count (- 1) (st2\<lparr>net := PQfinish P c w\<rparr>))
                   else exec_wrapper P exec msg n (release_connection c st2))
                else (Ret res, release_connection c st2))))"

definition PQexec_wrapper :: "('c, 'w) libpq \<Rightarrow> string \<Rightarrow> (('c, 'w) store_state, pg_result) store_op" where
  "PQexec_wrapper P sql st = exec_wrapper P (\<lambda>c. PQexec P c sql) ''Error executing PQexec_wrapper'' 3 st"

definition PQexecPrepared_wrapper ::
  "('c, 'w) libpq \<Rightarrow> string \<Rightarrow> string list \<Rightarrow> (('c, 'w) store_state, pg_result) store_op" where
  "PQexecPrepared_wrapper P pre values st =
     exec_wrapper P (\<lambda>c. PQexecPrepared P c pre values) ''Error executing PQexecPrepared_wrapper'' 3 st"

section \<open>Operations\<close>

text \<open>\<open>PQntuples\<close>; \<open>PQgetvalue (res, i, j)\<close> is null outside the row.\<close>

fun result_rows :: "pg_result \<Rightarrow> string list list" where
  "result_rows (Pg_tuples rows) = rows"
| "result_rows _ = []"

definition column :: "string list \<Rightarrow> nat \<Rightarrow> string option" where
  "column row j = (if j < length row then Some (row ! j) else None)"

fun read_users :: "string list list \<Rightarrow> User list \<Rightarrow> User list option" where
  "read_users [] users = Some users"
| "read_users (row # rows) users =
     (case (column row 0, column row 1, column row 2) of
        (Some uuid, Some pass, Some t) \<Rightarrow>
          read_users rows (\<lparr>User_uuid = uuid, User_password = pass, User_last_sync = atol t\<rparr> # users)
      | _ \<Rightarrow> None)"

definition catch_string ::
  "(string, 'a) outcome \<times> 's \<Rightarrow> ((string, 'a) outcome) \<Rightarrow> (string, 'a) outcome \<times> 's" where
  "catch_string r h = (case r of (Throw e, st) \<Rightarrow> (h, st) | _ \<Rightarrow> r)"

definition pg_getAllUsers :: "('c, 'w) libpq \<Rightarrow> (('c, 'w) store_state, User list) store_op" where
  "pg_getAllUsers P st =
     catch_string
       (seq_op (PQexec_wrapper P GET_USERS_SQL st) (\<lambda>res st.
          (case read_users (result_rows res) [] of None \<Rightarrow> Undefined | Some users \<Rightarrow> Ret users, st)))
       (Ret [])"

text \<open>The loop over the rows of \<open>get_accounts_for_user\<close>; the strings are copied to the heap as the code has them.\<close>

definition row_strings :: "string list \<Rightarrow> string list" where
  "row_strings row = take 6 row"

definition pg_account :: "string list \<Rightarrow> account" where
  "pg_account row = \<lparr>account_name = row ! 0, account_uuid = row ! 1, user_name = row ! 2, password = row ! 3,
     old_password = row ! 4, url = row ! 5, update_time = atol (row ! 6),
     deleted = (row ! 7 \<noteq> [] \<and> row ! 7 ! 0 = CHR ''t'')\<rparr>"

fun pg_rows :: "string list list \<Rightarrow> heap_list \<Rightarrow> account smap \<Rightarrow> account smap option" where
  "pg_rows [] h accts = Some accts"
| "pg_rows (row # rows) h accts =
     (if length row < 8 then None
      else
        (case copy_row (row_strings row) h of
           Ret h' \<Rightarrow> pg_rows rows h' (map_emplace (account_name (pg_account row)) (pg_account row) accts)
         | _ \<Rightarrow> None))"

definition pg_get_accounts :: "('c, 'w) libpq \<Rightarrow> string \<Rightarrow> (('c, 'w) store_state, account smap) store_op" where
  "pg_get_accounts P u st =
     catch_string
       (seq_op (PQexecPrepared_wrapper P ''get_accounts_for_user_pre'' [u] st) (\<lambda>res st.
          (case pg_rows (result_rows res) (rows_heap (length (result_rows res))) [] of
             None \<Rightarrow> Undefined
           | Some accts \<Rightarrow> Ret accts, st)))
       (Throw ''Error in ::get_accounts_for_user'')"

definition pg_upsert :: "('c, 'w) libpq \<Rightarrow> string \<Rightarrow> account list \<Rightarrow> (('c, 'w) store_state, bool) store_op" where
  "pg_upsert P u accts st =
     (if accts = [] then (Ret True, st)
      else
        (case upsert_sql u accts of
           Ret sql \<Rightarrow>
             catch_string
               (seq_op (PQexec_wrapper P sql st) (\<lambda>res st. (Ret True, st)))
               (Throw ''Error in ::upsert_accounts_for_user'')
         | Throw e \<Rightarrow> (Throw e, st)
         | Blocked \<Rightarrow> (Blocked, st)
         | Undefined \<Rightarrow> (Undefined, st)))"

text \<open>
  \<open>createUser\<close> passes a pointer into a temporary that is destroyed before the call; \<open>stale\<close> is
  the text its memory holds by then.
\<close>

definition pg_createUser :: "('c, 'w) libpq \<Rightarrow> string \<Rightarrow> User \<Rightarrow> (('c, 'w) store_state, bool) store_op" where
  "pg_createUser P stale u st =
     catch_string
       (seq_op (PQexecPrepared_wrapper P ''create_user_pre'' [User_uuid u, User_password u, stale, ''1.00''] st)
          (\<lambda>res st. (Ret True, st)))
       (Throw ''Error in ::createUser'')"

definition pg_update_last_sync ::
  "('c, 'w) libpq \<Rightarrow> string \<Rightarrow> int \<Rightarrow> (('c, 'w) store_state, bool) store_op" where
  "pg_update_last_sync P u lockTime st =
     catch_string
       (seq_op (PQexecPrepared_wrapper P ''update_last_sync_time_prepare'' [show_int lockTime, u] st)
          (\<lambda>res st. (Ret True, st)))
       (Ret False)"

definition pg_delete_user :: "('c, 'w) libpq \<Rightarrow> User \<Rightarrow> (('c, 'w) store_state, bool) store_op" where
  "pg_delete_user P u st =
     catch_string
       (seq_op (PQexecPrepared_wrapper P ''delete_user_pre'' [User_uuid u] st) (\<lambda>res st. (Ret True, st)))
       (Throw ''Error in ::delete_user'')"

text \<open>The cleaner's two deletions: select, print, and delete when there is something.\<close>

definition clean_table ::
  "('c, 'w) libpq \<Rightarrow> string \<Rightarrow> string \<Rightarrow> int \<Rightarrow> (('c, 'w) store_state, unit) store_op" where
  "clean_table P select_sql delete_sql time st =
     catch_string
       (seq_op (PQexec_wrapper P (select_sql @ show_int time) st) (\<lambda>res st.
          if result_rows res \<noteq> [] then
            seq_op (PQexec_wrapper P (delete_sql @ show_int time) st) (\<lambda>res st. (Ret (), st))
          else (Ret (), st)))
       (Ret ())"

definition pg_deleteOldUsers :: "('c, 'w) libpq \<Rightarrow> int \<Rightarrow> (('c, 'w) store_state, unit) store_op" where
  "pg_deleteOldUsers P time st = clean_table P OLD_ACCOUNT_SQL DELETE_OLD_ACCOUNTS_SQL time st"

definition pg_deleteHistory :: "('c, 'w) libpq \<Rightarrow> int \<Rightarrow> (('c, 'w) store_state, unit) store_op" where
  "pg_deleteHistory P time st = clean_table P ACCOUNT_HISTORY_SQL DELETE_HISTORY_SQL time st"

section \<open>Start-up and the virtual operations\<close>

fun pg_open :: "('c, 'w) libpq \<Rightarrow> nat \<Rightarrow> ('c, 'w) store_state \<Rightarrow> ('c, 'w) store_state" where
  "pg_open P 0 st = st"
| "pg_open P (Suc n) st =
     (case pg_connect P (net st) of
        (None, w) \<Rightarrow> pg_open P n (add_count (- 1) (st\<lparr>net := w\<rparr>))
      | (Some c, w) \<Rightarrow>
          (case createPreparedStatements P c w of
             (True, w1) \<Rightarrow> pg_open P n (release_connection c (st\<lparr>net := w1\<rparr>))
           | (False, w1) \<Rightarrow> pg_open P n (add_count (- 1) (st\<lparr>net := PQfinish P c w1\<rparr>))))"

definition pg_initialize :: "('c, 'w) libpq \<Rightarrow> 'w \<Rightarrow> bool \<times> ('c, 'w) store_state" where
  "pg_initialize P w =
     (let st = pg_open P (nat (db_min_connections (pg_config P)))
                 \<lparr>pool = \<lparr>connections = [], currentConnections = db_min_connections (pg_config P)\<rparr>, net = w\<rparr>
      in (currentConnections (pool st) > 0, st))"

definition data_store_connection :: "('c, 'w) libpq \<Rightarrow> string \<Rightarrow> ('c, 'w) store_state IDataStore" where
  "data_store_connection P stale = \<lparr>
     getAllUsers = pg_getAllUsers P,
     createUser = pg_createUser P stale,
     delete_user_op = pg_delete_user P,
     get_accounts_for_user = pg_get_accounts P,
     upsert_accounts_for_user = pg_upsert P,
     update_last_sync_for_user = pg_update_last_sync P\<rparr>"

end
