(* ===== verification/PostgresPool.thy ===== *)
theory PostgresPool
  imports PostgresStore
begin

text \<open>
  The connection pool of the Postgres store, and what its operations return when the database
  answers.
\<close>

section \<open>The connections in use\<close>

lemma used_pg_release [simp]: "conns_used (release_connection c st) = conns_used st - 1"
  by (simp add: release_connection_def conns_used_push del: conns_used_simps(3))

lemma used_get_connection:
  assumes "get_connection P st = (o1, st1)"
  shows "(\<forall>c. o1 = Ret c \<longrightarrow> conns_used st1 = conns_used st + 1) \<and>
    (\<forall>e. o1 = Throw e \<longrightarrow> conns_used st1 \<le> conns_used st \<and> conns_used st - 1 \<le> conns_used st1)"
proof (cases "connections (pool st)")
  case Nil
  then show ?thesis
    using assms by (auto simp: get_connection_def Let_def split: if_splits prod.splits option.splits bool.splits)
next
  case (Cons c cs)
  with assms conns_used_pop [OF Cons] show ?thesis by (auto simp: get_connection_def)
qed

interpretation pg_pool: pool_ops conns_used "get_connection P" release_connection
proof unfold_locales
  show "conns_used s' = conns_used s + 1" if "get_connection P s = (Ret c, s')" for s c s'
    using used_get_connection [OF that] by simp
  show "conns_used (release_connection c s) = conns_used s - 1" for c s by simp
qed

text \<open>
  A statement gives back what it took; only a connection whose statements cannot be prepared makes
  the count drop by one too many, and then the statement throws.
\<close>

lemma used_wrapper:
  "exec_wrapper P exec msg n st = (o1, st1) \<Longrightarrow>
     (\<forall>c. o1 = Ret c \<longrightarrow> conns_used st1 = conns_used st) \<and>
     (\<forall>e. o1 = Throw e \<longrightarrow> conns_used st1 \<le> conns_used st \<and> conns_used st - 1 \<le> conns_used st1)"
proof (induction n arbitrary: st)
  case 0
  then show ?case by auto
next
  case (Suc n)
  obtain o2 st2 where g: "get_connection P st = (o2, st2)" by fastforce
  note u = used_get_connection [OF g]
  show ?case
  proof (cases o2)
    case (Ret c)
    obtain res w where e: "exec c (net st2) = (res, w)" by fastforce
    have u2: "conns_used st2 = conns_used st + 1" using u Ret by simp
    show ?thesis
    proof (cases "res = Pg_error")
      case True
      let ?st = "if \<not> PQstatus_ok P c w then add_count (- 1) (st2\<lparr>net := w, net := PQfinish P c w\<rparr>)
        else release_connection c (st2\<lparr>net := w\<rparr>)"
      have "exec_wrapper P exec msg n ?st = (o1, st1)" using Suc.prems g Ret e True
        by (cases "PQstatus_ok P c w") (simp_all add: Let_def)
      moreover have "conns_used ?st = conns_used st" using u2 by simp
      ultimately show ?thesis using Suc.IH [of ?st] by simp
    next
      case False
      with Suc.prems g Ret e u2 show ?thesis by (auto simp: Let_def)
    qed
  next
    case (Throw e)
    with Suc.prems g u show ?thesis by auto
  qed (use Suc.prems g in auto)
qed

lemma settles_wrapper:
  "settles 0 1 conns_used (PQexec_wrapper P sql)" "settles 0 1 conns_used (PQexecPrepared_wrapper P pre values)"
  unfolding settles_def drifts_def PQexec_wrapper_def PQexecPrepared_wrapper_def using used_wrapper by fastforce+

text \<open>An operation that throws a string of its own for what its statement throws, and one that has a result for it.\<close>

lemma settles_catch_throw:
  assumes "settles 0 1 conns_used m"
  shows "settles 0 1 conns_used (\<lambda>st. catch_string (seq_op (m st) (\<lambda>res st. (f res, st))) (Throw msg))"
  unfolding settles_def drifts_def
proof (intro conjI allI impI)
  fix st x st'
  assume a: "catch_string (seq_op (m st) (\<lambda>res st. (f res, st))) (Throw msg) = (Ret x, st')"
  obtain o1 st1 where m: "m st = (o1, st1)" by fastforce
  with a obtain y where y: "o1 = Ret y" "st' = st1"
    by (cases o1) (auto simp: catch_string_def split: outcome.splits)
  with m settles_drifts [OF assms] show "conns_used st' \<le> conns_used st" "conns_used st - int 0 \<le> conns_used st'"
    by (auto simp: drifts_def)
next
  fix st e st'
  assume a: "catch_string (seq_op (m st) (\<lambda>res st. (f res, st))) (Throw msg) = (Throw e, st')"
  obtain o1 st1 where m: "m st = (o1, st1)" by fastforce
  with a have "st' = st1" "(\<exists>y. o1 = Ret y) \<or> (\<exists>e. o1 = Throw e)"
    by (cases o1; auto simp: catch_string_def split: outcome.splits)+
  with m settles_drifts [OF assms] settles_throw [OF assms]
  show "conns_used st' \<le> conns_used st" "conns_used st - int 1 \<le> conns_used st'" by (fastforce simp: drifts_def)+
qed

lemma catch_ret_throws_not:
  assumes "\<And>res e. f res \<noteq> Throw e"
  shows "fst (catch_string (seq_op r (\<lambda>res st. (f res, st))) (Ret d)) \<noteq> Throw e"
proof -
  obtain o1 st1 where "r = (o1, st1)" by fastforce
  with assms show ?thesis by (cases o1) (auto simp: catch_string_def split: outcome.splits)
qed

lemma settles_catch_ret:
  assumes "settles 0 1 conns_used m" "\<And>res e. f res \<noteq> Throw e"
  shows "settles 1 0 conns_used (\<lambda>st. catch_string (seq_op (m st) (\<lambda>res st. (f res, st))) (Ret d))"
  unfolding settles_def drifts_def
proof (intro conjI allI impI)
  fix st x st'
  assume a: "catch_string (seq_op (m st) (\<lambda>res st. (f res, st))) (Ret d) = (Ret x, st')"
  obtain o1 st1 where m: "m st = (o1, st1)" by fastforce
  with a have "st' = st1" "(\<exists>y. o1 = Ret y) \<or> (\<exists>e. o1 = Throw e)"
    by (cases o1; auto simp: catch_string_def split: outcome.splits)+
  with m settles_drifts [OF assms(1)] settles_throw [OF assms(1)]
  show "conns_used st' \<le> conns_used st" "conns_used st - int 1 \<le> conns_used st'" by (fastforce simp: drifts_def)+
next
  fix st e st'
  assume a: "catch_string (seq_op (m st) (\<lambda>res st. (f res, st))) (Ret d) = (Throw e, st')"
  obtain o1 st1 where m: "m st = (o1, st1)" by fastforce
  have False using a m assms(2) by (cases o1) (auto simp: catch_string_def split: outcome.splits)
  then show "conns_used st' \<le> conns_used st" "conns_used st - int 0 \<le> conns_used st'" by simp_all
qed

text \<open>
  C40: whatever the database answers, no operation of the Postgres store keeps a connection, whether it
  returns or throws. Creating and deleting a user, reading and writing accounts give back exactly what they
  took when they return; when they throw, as they do when their statement fails, they leave the number of
  connections in use as it was or one too low, which is the double decrement of \<open>get_connection\<close>. Reading the
  users and storing the time of a synchronisation never throw, and can return with the number one too low.
\<close>

theorem postgres_gives_back:
  "settles 0 1 conns_used (pg_createUser P stale usr) \<and> settles 0 1 conns_used (pg_delete_user P usr) \<and>
   settles 0 1 conns_used (pg_get_accounts P u) \<and> settles 0 1 conns_used (pg_upsert P u accts) \<and>
   settles 1 0 conns_used (pg_getAllUsers P) \<and> settles 1 0 conns_used (pg_update_last_sync P u time) \<and>
   fst (pg_getAllUsers P st) \<noteq> Throw e \<and> fst (pg_update_last_sync P u time st) \<noteq> Throw e"
proof (intro conjI)
  note w = settles_catch_throw [OF settles_wrapper(2)]
  show "settles 0 1 conns_used (pg_createUser P stale usr)" "settles 0 1 conns_used (pg_delete_user P usr)"
    "settles 0 1 conns_used (pg_get_accounts P u)"
    unfolding pg_createUser_def pg_delete_user_def pg_get_accounts_def by (rule w)+
  show "settles 0 1 conns_used (pg_upsert P u accts)"
  proof (cases "accts = [] \<or> (\<forall>sql. upsert_sql u accts \<noteq> Ret sql)")
    case True
    then show ?thesis by (auto simp: pg_upsert_def settles_def drifts_def split: outcome.splits)
  next
    case False
    then obtain sql where sql: "accts \<noteq> []" "upsert_sql u accts = Ret sql" by blast
    have "pg_upsert P u accts = (\<lambda>st. catch_string (seq_op (PQexec_wrapper P sql st) (\<lambda>res st. (Ret True, st)))
        (Throw ''Error in ::upsert_accounts_for_user''))"
      using sql by (simp add: pg_upsert_def fun_eq_iff)
    then show ?thesis using settles_catch_throw [OF settles_wrapper(1)] by simp
  qed
  show "settles 1 0 conns_used (pg_getAllUsers P)" "settles 1 0 conns_used (pg_update_last_sync P u time)"
    unfolding pg_getAllUsers_def pg_update_last_sync_def
    by (rule settles_catch_ret [OF settles_wrapper(1)] settles_catch_ret [OF settles_wrapper(2)], simp split: option.split)+
  show "fst (pg_getAllUsers P st) \<noteq> Throw e" "fst (pg_update_last_sync P u time st) \<noteq> Throw e"
    unfolding pg_getAllUsers_def pg_update_last_sync_def by (rule catch_ret_throws_not, simp split: option.split)+
qed

section \<open>Reading accounts\<close>

lemma pg_rows_fits:
  "list_all (\<lambda>row. 8 \<le> length row \<and> row_length (take 6 row) + 6 \<le> 1024) rows \<Longrightarrow> heap_ok h \<Longrightarrow>
   pg_rows rows h accts = Some (fold (\<lambda>(k, v). map_emplace k v) (map (\<lambda>row. (row ! 0, pg_account row)) rows) accts)"
proof (induction rows arbitrary: h accts)
  case (Cons row rows)
  then obtain h' where "copy_row (row_strings row) h = Ret h'" "heap_ok h'"
    using copy_row_ok [of h "row_strings row"] by (auto simp: row_strings_def)
  with Cons show ?case by (simp add: pg_account_def)
qed simp

text \<open>
  When a connection is idle and the query is answered, reading the accounts of a user returns
  them by name, in the order of their names, each with the columns of its row; of rows with the
  same name the first counts. The connection goes back to the pool.
\<close>

theorem postgres_get_accounts:
  assumes "connections (pool st) = c # cs"
    and "PQexecPrepared P c ''get_accounts_for_user_pre'' [u] (net st) = (Pg_tuples rows, w)"
    and "list_all (\<lambda>row. 8 \<le> length row \<and> row_length (take 6 row) + 6 \<le> 1024) rows"
  shows "\<exists>m. pg_get_accounts P u st = (Ret m, st\<lparr>net := w\<rparr>) \<and> smap_inv m \<and>
    map_of m = map_of (map (\<lambda>row. (row ! 0, pg_account row)) rows)"
proof -
  let ?m = "fold (\<lambda>(k, v). map_emplace k v) (map (\<lambda>row. (row ! 0, pg_account row)) rows) []"
  have "PQexecPrepared_wrapper P ''get_accounts_for_user_pre'' [u] st = (Ret (Pg_tuples rows), st\<lparr>net := w\<rparr>)"
    using assms(1,2)
    by (simp add: PQexecPrepared_wrapper_def numeral_3_eq_3 get_connection_def set_idle_def release_connection_def)
  moreover have "pg_rows rows (rows_heap (length rows)) [] = Some ?m"
    by (rule pg_rows_fits [OF assms(3) rows_heap_ok])
  ultimately have "pg_get_accounts P u st = (Ret ?m, st\<lparr>net := w\<rparr>)"
    by (simp add: pg_get_accounts_def catch_string_def)
  moreover have "smap_inv ?m" by (rule smap.inv_emplace_all [OF smap.inv_empty])
  moreover have "map_of ?m = map_of (map (\<lambda>row. (row ! 0, pg_account row)) rows)"
    by (rule ext) (simp add: smap.lookup_emplace_all [OF smap.inv_empty])
  ultimately show ?thesis by blast
qed

text \<open>A database that gives every query the same rows.\<close>

definition fixed_pg :: "string list list \<Rightarrow> (nat, unit) libpq" where
  "fixed_pg rows = \<lparr>PQconnectdb = (\<lambda>s w. (0, w)), PQstatus_ok = (\<lambda>c w. True), PQprepare_ok = (\<lambda>c n s k w. (True, w)),
     PQexec = (\<lambda>c s w. (Pg_tuples rows, w)), PQexecPrepared = (\<lambda>c n vs w. (Pg_tuples rows, w)),
     PQfinish = (\<lambda>c w. w), pg_config = default_config\<rparr>"

theorem postgres_get_accounts_witness:
  "\<exists>m. pg_get_accounts (fixed_pg [[''mail'', ''ann@example.com'', ''ann'', ''pw'', [], ''url'', ''17'', ''t'']]) ''ann@example.com''
     \<lparr>pool = \<lparr>connections = [7], currentConnections = 1\<rparr>, net = ()\<rparr> =
     (Ret m, \<lparr>pool = \<lparr>connections = [7], currentConnections = 1\<rparr>, net = ()\<rparr>) \<and>
     map_option deleted (map_of m ''mail'') = Some True"
proof -
  let ?rows = "[[''mail'', ''ann@example.com'', ''ann'', ''pw'', [], ''url'', ''17'', ''t'']]"
  let ?st = "\<lparr>pool = \<lparr>connections = [7], currentConnections = 1\<rparr>, net = ()\<rparr> :: (nat, unit) store_state"
  have "PQexecPrepared (fixed_pg ?rows) 7 ''get_accounts_for_user_pre'' [''ann@example.com''] (net ?st) = (Pg_tuples ?rows, ())"
    by (simp add: fixed_pg_def)
  from postgres_get_accounts [OF _ this, of "[]"] show ?thesis by (auto simp: row_length_def pg_account_def)
qed

end
