(* ===== verification/UserMap.thy ===== *)
theory UserMap
  imports Sessions
begin

text \<open>
  The type invariant of the map of registered users, which all handlers share: it is a map ordered
  by its keys, and every user is filed under its own address.
\<close>

definition users_ok :: "User_info smap \<Rightarrow> bool" where
  "users_ok m \<longleftrightarrow> smap_inv m \<and> (\<forall>k info. map_of m k = Some info \<longrightarrow> User_uuid (user info) = k)"

lemma users_ok_empty [simp]: "users_ok []"
  by (simp add: users_ok_def smap.inv_empty)

lemma users_ok_assign: "users_ok m \<Longrightarrow> User_uuid (user info) = k \<Longrightarrow> users_ok (map_assign k info m)"
  by (auto simp: users_ok_def smap.inv_assign map_of_assign split: if_splits)

lemma users_ok_erase: "users_ok m \<Longrightarrow> users_ok (map_erase k m)"
  by (auto simp: users_ok_def smap.inv_erase map_of_erase split: if_splits)

lemma users_ok_load:
  "users_ok m \<Longrightarrow>
    users_ok (fold (\<lambda>x. map_assign (User_uuid x) \<lparr>user = x, lock_time = t, cv_vector = []\<rparr>) users m)"
  by (induction users arbitrary: m) (simp_all add: users_ok_assign)

lemma map_of_load:
  "map_of (fold (\<lambda>x. map_assign (User_uuid x) (f x)) users m) k =
     (case map_of (rev (map (\<lambda>x. (User_uuid x, f x)) users)) k of None \<Rightarrow> map_of m k | Some v \<Rightarrow> Some v)"
  by (induction users arbitrary: m) (auto simp: map_of_assign map_add_def split: option.splits)

lemma register_user_ok: "users_ok (user_infos st) \<Longrightarrow> users_ok (user_infos (snd (register_user V E now email p h st)))"
  by (auto simp: register_user_def Let_def on_ret_def call_store_cases intro!: users_ok_assign users_ok_erase
      split: prod.splits outcome.splits)

lemma delete_account_ok: "users_ok (user_infos st) \<Longrightarrow> users_ok (user_infos (snd (delete_account V email st)))"
  by (auto simp: delete_account_def on_ret_def call_store_cases intro!: users_ok_erase
      split: prod.splits outcome.splits option.splits)

lemma authenticate_ok:
  assumes "users_ok (user_infos st)" "\<And>d e. users_ok (user_infos (snd (k d e st)))"
  shows "users_ok (user_infos (snd (authenticate E status request k st)))"
  using assms by (auto simp: authenticate_def Let_def split: option.splits outcome.splits)

lemma handle_request_users_ok:
  assumes "users_ok (user_infos st)"
  shows "users_ok (user_infos (snd (handle_request V E now op_type request http_type st)))"
proof -
  have "users_ok (user_infos (snd (dispatch V E now op_type request http_type st)))"
  proof (cases op_type)
    case register_config
    with assms register_user_ok [OF assms] show ?thesis
      by (auto simp: dispatch_def handle_config_def handle_register_def split: option.splits outcome.splits)
  qed (use assms in \<open>auto simp: dispatch_def handle_delete_def handle_sync_initial_def handle_sync_final_def sync_infos
      intro!: authenticate_ok delete_account_ok split: option.splits\<close>)
  then show ?thesis by (simp add: handle_request_dispatch)
qed

lemma sync_handler_users_ok: "users_ok (user_infos st) \<Longrightarrow> users_ok (user_infos (snd (sync_handler V flag st)))"
  by (auto simp: sync_handler_def on_ret_def call_store_cases intro!: users_ok_load split: prod.splits outcome.splits)

text \<open>A server that has just been started on a store: nobody is known until the users are loaded.\<close>

definition fresh_server :: "'s \<Rightarrow> 's sync_state" where
  "fresh_server s = \<lparr>user_infos = [], data = s\<rparr>"

text \<open>
  C34: the map of users keeps its type: after the start-up that loads it from the store and after
  every request, whatever the operation, its outcome and the store, the map is ordered by its keys
  and every user is filed under its own address.
\<close>

theorem user_map_well_formed:
  assumes "users_ok (user_infos st)"
  shows "users_ok (user_infos (snd (handle_request V E now op_type request http_type st))) \<and>
    users_ok (user_infos (snd (sync_handler V flag st)))"
  using handle_request_users_ok [OF assms] sync_handler_users_ok [OF assms] by blast

theorem user_map_well_formed_witness:
  "users_ok (user_infos (snd (handle_request mem_store (sample_env sample_registration) 5 register_config (Some ''{}'') POST
     empty_server)))"
proof -
  have "users_ok (user_infos empty_server)" by (simp add: empty_server_def)
  from user_map_well_formed [OF this] show ?thesis by blast
qed

end
