(* ===== verification/UserLock.thy ===== *)
theory UserLock
  imports SyncHandler
begin

text \<open>
  \<open>lock_user\<close>, \<open>relock_user\<close> and \<open>unlock_user\<close>: a lock per user with a queue of the handlers that
  want it, kept in \<open>User_info\<close>. They are marked as deprecated and no handler calls them any more.
  A handler is a number, which stands for the address of its \<open>handler_cv\<close>. The mutex that guards
  the sections is \<open>user_infos_lock\<close>; it is a member of the handler, so two handlers do not exclude
  each other. The steps below are split where that matters, and say for both cases, the mutex of the code
  and one that the handlers share, which order of steps is possible.
\<close>

section \<open>The operations\<close>

text \<open>
  \<open>user_infos[u]\<close> of a user that is gone inserts an entry whose lock time is not initialised, under a
  pointer the caller frees: \<open>Undefined\<close>.
\<close>

definition stamp :: "int \<Rightarrow> string \<Rightarrow> User_info \<Rightarrow> User_info smap \<Rightarrow> User_info smap" where
  "stamp now u i m = map_assign u (i\<lparr>lock_time := now\<rparr>) m"

text \<open>\<open>lock_user\<close> up to the test of the queue: True when nobody is in it.\<close>

definition lock_test :: "string \<Rightarrow> User_info smap \<Rightarrow> (handler_error, bool) outcome" where
  "lock_test u m =
     (case map_of m u of
        None \<Rightarrow> throw_reply HTTP_403 None
      | Some i \<Rightarrow> Ret (cv_vector i = []))"

text \<open>With the queue empty the handler is its first entry and has the lock.\<close>

definition lock_take :: "int \<Rightarrow> nat \<Rightarrow> string \<Rightarrow> User_info smap \<Rightarrow> (handler_error, int) outcome \<times> User_info smap" where
  "lock_take now h u m =
     (case map_of m u of
        None \<Rightarrow> (Undefined, m)
      | Some i \<Rightarrow> (Ret now, stamp now u (i\<lparr>cv_vector := cv_vector i @ [h]\<rparr>) m))"

text \<open>Otherwise it enters the queue, gives up the mutex and waits on its own variable.\<close>

definition lock_enqueue :: "nat \<Rightarrow> string \<Rightarrow> User_info smap \<Rightarrow> (handler_error, unit) outcome \<times> User_info smap" where
  "lock_enqueue h u m =
     (case map_of m u of
        None \<Rightarrow> (Undefined, m)
      | Some i \<Rightarrow> (Ret (), map_assign u (i\<lparr>cv_vector := cv_vector i @ [h]\<rparr>) m))"

text \<open>After the wait: the first of the queue has the lock, any other one leaves the queue and fails.\<close>

definition lock_resume :: "int \<Rightarrow> nat \<Rightarrow> string \<Rightarrow> User_info smap \<Rightarrow> (handler_error, int) outcome \<times> User_info smap" where
  "lock_resume now h u m =
     (case map_of m u of
        None \<Rightarrow> (Undefined, m)
      | Some i \<Rightarrow>
          (case cv_vector i of
             [] \<Rightarrow> (Undefined, m)
           | k # q \<Rightarrow>
               if k \<noteq> h then (throw_reply HTTP_500 None, map_assign u (i\<lparr>cv_vector := remove1 h (k # q)\<rparr>) m)
               else (Ret now, stamp now u i m)))"

definition relock_user :: "int \<Rightarrow> string \<Rightarrow> int \<Rightarrow> User_info smap \<Rightarrow> (handler_error, int) outcome \<times> User_info smap" where
  "relock_user now u userLock m =
     (case map_of m u of
        None \<Rightarrow> (throw_reply HTTP_403 None, m)
      | Some i \<Rightarrow>
          if userLock \<noteq> lock_time i then (throw_reply HTTP_403 None, m)
          else (Ret now, stamp now u i m))"

text \<open>The result of \<open>unlock_user\<close> is the handler whose variable is notified.\<close>

definition unlock_user :: "string \<Rightarrow> int \<Rightarrow> User_info smap \<Rightarrow> (handler_error, nat option) outcome \<times> User_info smap" where
  "unlock_user u lockTime m =
     (case map_of m u of
        None \<Rightarrow> (Undefined, m)
      | Some i \<Rightarrow>
          if lockTime \<noteq> lock_time i then (Ret None, m)
          else
            let q = tl (cv_vector i)
            in (Ret (case q of [] \<Rightarrow> None | k # _ \<Rightarrow> Some k), map_assign u (i\<lparr>lock_time := 0, cv_vector := q\<rparr>) m))"

section \<open>Steps\<close>

text \<open>
  Where a handler is: before the lock; after the test, with the queue found empty or not; in the queue
  but not waiting yet, waiting, and woken; with the lock and the time it was given.
\<close>

datatype lock_pc =
    Outside
  | Found_free string
  | Found_busy string
  | Queued string
  | Waiting string
  | Woken string
  | Holding string int

text \<open>\<open>holder\<close> is the handler that is in its section between test and entry, of a shared mutex.\<close>

record lock_state =
  infos :: "User_info smap"
  lock_pcs :: "nat \<Rightarrow> lock_pc"
  holder :: "nat option"

datatype lock_label =
    L_test nat string
  | L_enter nat int
  | L_wait nat
  | L_wake nat
  | L_resume nat int
  | L_relock nat int
  | L_unlock nat

definition set_pc :: "nat \<Rightarrow> lock_pc \<Rightarrow> lock_state \<Rightarrow> lock_state" where
  "set_pc h p s = s\<lparr>lock_pcs := (lock_pcs s)(h := p)\<rparr>"

text \<open>A section that ends with a lock time or with an exception.\<close>

definition after_section :: "nat \<Rightarrow> string \<Rightarrow> (handler_error, int) outcome \<times> User_info smap \<Rightarrow> lock_state \<Rightarrow> lock_state option" where
  "after_section h u r s =
     (case r of
        (Ret t, m) \<Rightarrow> Some (set_pc h (Holding u t) (s\<lparr>infos := m\<rparr>))
      | (Throw e, m) \<Rightarrow> Some (set_pc h Outside (s\<lparr>infos := m\<rparr>))
      | _ \<Rightarrow> None)"

text \<open>A notification wakes a handler that waits, and is lost otherwise.\<close>

definition notify :: "nat option \<Rightarrow> lock_state \<Rightarrow> lock_state" where
  "notify n s =
     (case n of
        None \<Rightarrow> s
      | Some k \<Rightarrow> (case lock_pcs s k of Waiting v \<Rightarrow> set_pc k (Woken v) s | _ \<Rightarrow> s))"

text \<open>
  A step of a handler; None when it is not possible, or not defined. \<open>shared\<close>: the handlers have one
  mutex; in the code they do not. A variable can also wake its waiter without a notification.
\<close>

fun lock_step :: "bool \<Rightarrow> lock_state \<Rightarrow> lock_label \<Rightarrow> lock_state option" where
  "lock_step shared s (L_test h u) =
     (if lock_pcs s h = Outside \<and> holder s = None then
        (case lock_test u (infos s) of
           Ret b \<Rightarrow> Some ((set_pc h (if b then Found_free u else Found_busy u) s)
                       \<lparr>holder := if shared then Some h else None\<rparr>)
         | Throw e \<Rightarrow> Some s
         | _ \<Rightarrow> None)
      else None)"
| "lock_step shared s (L_enter h now) =
     (case lock_pcs s h of
        Found_free u \<Rightarrow> after_section h u (lock_take now h u (infos s)) (s\<lparr>holder := None\<rparr>)
      | Found_busy u \<Rightarrow>
          (case lock_enqueue h u (infos s) of
             (Ret _, m) \<Rightarrow> Some (set_pc h (Queued u) (s\<lparr>infos := m, holder := None\<rparr>))
           | _ \<Rightarrow> None)
      | _ \<Rightarrow> None)"
| "lock_step shared s (L_wait h) =
     (case lock_pcs s h of Queued u \<Rightarrow> Some (set_pc h (Waiting u) s) | _ \<Rightarrow> None)"
| "lock_step shared s (L_wake h) =
     (case lock_pcs s h of Waiting u \<Rightarrow> Some (set_pc h (Woken u) s) | _ \<Rightarrow> None)"
| "lock_step shared s (L_resume h now) =
     (case lock_pcs s h of
        Woken u \<Rightarrow> if holder s = None then after_section h u (lock_resume now h u (infos s)) s else None
      | _ \<Rightarrow> None)"
| "lock_step shared s (L_relock h now) =
     (case lock_pcs s h of
        Holding u t \<Rightarrow> if holder s = None then after_section h u (relock_user now u t (infos s)) s else None
      | _ \<Rightarrow> None)"
| "lock_step shared s (L_unlock h) =
     (case lock_pcs s h of
        Holding u t \<Rightarrow>
          if holder s = None then
            (case unlock_user u t (infos s) of
               (Ret n, m) \<Rightarrow> Some (notify n (set_pc h Outside (s\<lparr>infos := m\<rparr>)))
             | _ \<Rightarrow> None)
          else None
      | _ \<Rightarrow> None)"

fun lock_run :: "bool \<Rightarrow> lock_state \<Rightarrow> lock_label list \<Rightarrow> lock_state option" where
  "lock_run shared s [] = Some s"
| "lock_run shared s (l # ls) = Option.bind (lock_step shared s l) (\<lambda>s. lock_run shared s ls)"

text \<open>At the start nobody has asked for a lock.\<close>

definition lock_init :: "User_info smap \<Rightarrow> lock_state \<Rightarrow> bool" where
  "lock_init m s \<longleftrightarrow> s = \<lparr>infos = m, lock_pcs = (\<lambda>h. Outside), holder = None\<rparr> \<and>
     list_all (\<lambda>(u, i). cv_vector i = []) m"

section \<open>The queue and the handlers agree\<close>

text \<open>The user whose queue a handler is in, and the user a handler asks for.\<close>

fun in_queue :: "string \<Rightarrow> lock_pc \<Rightarrow> bool" where
  "in_queue u (Queued v) = (v = u)"
| "in_queue u (Waiting v) = (v = u)"
| "in_queue u (Woken v) = (v = u)"
| "in_queue u (Holding v t) = (v = u)"
| "in_queue u pc = False"

fun in_section :: "lock_pc \<Rightarrow> bool" where
  "in_section (Found_free v) = True"
| "in_section (Found_busy v) = True"
| "in_section pc = False"

text \<open>
  The queue of a user holds the handlers that asked for it, each once; one that has the lock is the
  first, with the stored time; after a test that found the queue empty it still is.
\<close>

definition queue_ok :: "User_info option \<Rightarrow> (nat \<Rightarrow> lock_pc) \<Rightarrow> string \<Rightarrow> bool" where
  "queue_ok io pcs u =
     (case io of
        None \<Rightarrow> \<forall>h. \<not> in_queue u (pcs h) \<and> pcs h \<noteq> Found_free u \<and> pcs h \<noteq> Found_busy u
      | Some i \<Rightarrow> distinct (cv_vector i) \<and> set (cv_vector i) = {h. in_queue u (pcs h)} \<and>
          (\<forall>h t. pcs h = Holding u t \<longrightarrow> lock_time i = t \<and> (\<exists>q. cv_vector i = h # q)) \<and>
          (\<forall>h. pcs h = Found_free u \<longrightarrow> cv_vector i = []))"

definition lock_inv :: "lock_state \<Rightarrow> bool" where
  "lock_inv s \<longleftrightarrow> (\<forall>u. queue_ok (map_of (infos s) u) (lock_pcs s) u) \<and>
     (\<forall>h. in_section (lock_pcs s h) \<longleftrightarrow> holder s = Some h)"

lemma lock_invI:
  assumes "\<And>u. queue_ok (map_of (infos s) u) (lock_pcs s) u"
    and "\<And>h. in_section (lock_pcs s h) \<longleftrightarrow> holder s = Some h"
  shows "lock_inv s"
  using assms by (simp add: lock_inv_def)

lemma lock_invD:
  assumes "lock_inv s"
  shows "queue_ok (map_of (infos s) u) (lock_pcs s) u" "in_section (lock_pcs s h) \<longleftrightarrow> holder s = Some h"
  using assms by (simp_all add: lock_inv_def)

lemma lock_init_inv: "lock_init m s \<Longrightarrow> lock_inv s"
  by (rule lock_invI) (fastforce simp: lock_init_def queue_ok_def list_all_iff split: option.splits dest: map_of_SomeD)+

lemma queue_okD:
  assumes "queue_ok (Some i) pcs u"
  shows "distinct (cv_vector i)" "set (cv_vector i) = {h. in_queue u (pcs h)}"
    "pcs h = Holding u t \<Longrightarrow> lock_time i = t \<and> (\<exists>q. cv_vector i = h # q)"
    "pcs h = Found_free u \<Longrightarrow> cv_vector i = []"
  using assms unfolding queue_ok_def by simp_all blast

text \<open>A handler that does not ask for a user before or after its step leaves that user's queue as it is.\<close>

fun asks :: "string \<Rightarrow> lock_pc \<Rightarrow> bool" where
  "asks u (Found_free v) = (v = u)"
| "asks u (Found_busy v) = (v = u)"
| "asks u pc = in_queue u pc"

lemma asks_simps [simp]: "in_queue u p \<Longrightarrow> asks u p" "asks u (Holding u t)" "asks u Outside = False"
  by (cases p; simp)+

lemma queue_ok_cong:
  assumes "queue_ok io pcs u" "\<And>k. in_queue u (pcs' k) = in_queue u (pcs k)"
    and "\<And>k. pcs' k = Found_free u \<Longrightarrow> pcs k = Found_free u" "\<And>k. pcs' k = Found_busy u \<Longrightarrow> pcs k = Found_busy u"
    and "\<And>k t. pcs' k = Holding u t \<Longrightarrow> pcs k = Holding u t"
  shows "queue_ok io pcs' u"
proof (cases io)
  case None
  have d: "\<not> in_queue u (pcs k) \<and> pcs k \<noteq> Found_free u \<and> pcs k \<noteq> Found_busy u" for k
    using assms(1) by (simp add: None queue_ok_def)
  have "\<not> in_queue u (pcs' k)" "pcs' k \<noteq> Found_free u" "pcs' k \<noteq> Found_busy u" for k
    using d [of k] assms(2-4) [of k] by (iprover | simp)+
  then show ?thesis by (simp add: None queue_ok_def)
next
  case (Some i)
  note d = queue_okD [OF assms(1) [unfolded Some]]
  have "set (cv_vector i) = {h. in_queue u (pcs' h)}" unfolding assms(2) by (rule d(2))
  then show ?thesis
    unfolding Some queue_ok_def option.case
    using d(1) by (intro conjI allI impI) (use d(3) [OF assms(5)] d(4) [OF assms(3)] in blast)+
qed

lemma queue_ok_other:
  assumes "queue_ok io pcs u" "\<not> asks u (pcs h)" "\<not> asks u p"
  shows "queue_ok io (pcs(h := p)) u"
proof (rule queue_ok_cong [OF assms(1)])
  fix k t
  show "in_queue u ((pcs(h := p)) k) = in_queue u (pcs k)" using assms(2,3) asks_simps(1) by (cases "k = h") auto
  show "(pcs(h := p)) k = Found_free u \<Longrightarrow> pcs k = Found_free u" "(pcs(h := p)) k = Found_busy u \<Longrightarrow> pcs k = Found_busy u"
    "(pcs(h := p)) k = Holding u t \<Longrightarrow> pcs k = Holding u t"
    using assms(3) by (cases "k = h"; auto)+
qed

text \<open>A step from one place in the queue to another, which is not the lock.\<close>

lemma queue_ok_moves:
  assumes "queue_ok io pcs u" "in_queue u (pcs h)" "in_queue u p" "\<And>t. p \<noteq> Holding u t"
  shows "queue_ok io (pcs(h := p)) u"
proof (rule queue_ok_cong [OF assms(1)])
  fix k t
  show "in_queue u ((pcs(h := p)) k) = in_queue u (pcs k)" using assms(2,3) by (cases "k = h") auto
  show "(pcs(h := p)) k = Found_free u \<Longrightarrow> pcs k = Found_free u" "(pcs(h := p)) k = Found_busy u \<Longrightarrow> pcs k = Found_busy u"
    "(pcs(h := p)) k = Holding u t \<Longrightarrow> pcs k = Holding u t"
    using assms(3,4) by (cases "k = h"; auto)+
qed

section \<open>The steps with one mutex keep it\<close>

lemma inv_change:
  assumes "lock_inv s" "\<And>v. v \<noteq> u \<Longrightarrow> map_of (infos s') v = map_of (infos s) v" "lock_pcs s' = (lock_pcs s)(h := p)"
    and "\<And>v. asks v (lock_pcs s h) \<Longrightarrow> v = u" "\<And>v. asks v p \<Longrightarrow> v = u"
    and "queue_ok (map_of (infos s') u) ((lock_pcs s)(h := p)) u"
    and "\<And>k. in_section (((lock_pcs s)(h := p)) k) \<longleftrightarrow> holder s' = Some k"
  shows "lock_inv s'"
proof (rule lock_invI)
  fix v k
  show "queue_ok (map_of (infos s') v) (lock_pcs s') v"
  proof (cases "v = u")
    case False
    show ?thesis
      unfolding assms(2) [OF False] assms(3)
      by (rule queue_ok_other [OF lock_invD(1) [OF assms(1)]]) (use False assms(4,5) in blast)+
  qed (use assms(3,6) in simp)
  show "in_section (lock_pcs s' k) \<longleftrightarrow> holder s' = Some k" unfolding assms(3) by (rule assms(7))
qed

lemma no_section:
  assumes "lock_inv s" "holder s = None"
  shows "\<not> in_section (lock_pcs s k)" "lock_pcs s k \<noteq> Found_free u"
  using lock_invD(2) [OF assms(1), of k] assms(2) by auto

text \<open>The places outside the section, when nobody is in it.\<close>

lemma section_free:
  assumes "lock_inv s" "holder s = None" "\<not> in_section p"
  shows "in_section (((lock_pcs s)(h := p)) k) \<longleftrightarrow> None = Some k"
  using no_section(1) [OF assms(1,2)] assms(3) by simp

lemma in_queue_user:
  assumes "lock_inv s" "asks u (lock_pcs s h)"
  obtains i where "map_of (infos s) u = Some i" "queue_ok (Some i) (lock_pcs s) u"
proof (cases "map_of (infos s) u")
  case None
  with lock_invD(1) [OF assms(1), of u] have "\<not> in_queue u (lock_pcs s h) \<and> lock_pcs s h \<noteq> Found_free u \<and> lock_pcs s h \<noteq> Found_busy u"
    by (simp add: queue_ok_def)
  with assms(2) show ?thesis by (cases "lock_pcs s h") auto
next
  case (Some i)
  with lock_invD(1) [OF assms(1), of u] that show ?thesis by simp
qed

lemma one_holding:
  assumes "queue_ok (Some i) pcs u" "cv_vector i = h # q" "pcs k = Holding u t"
  shows "k = h"
  using queue_okD(3) [OF assms(1,3)] assms(2) by simp

lemma queue_okI:
  assumes "distinct (cv_vector i)" "\<And>k. k \<in> set (cv_vector i) \<longleftrightarrow> in_queue u (pcs k)"
    and "\<And>k t. pcs k = Holding u t \<Longrightarrow> lock_time i = t \<and> (\<exists>q. cv_vector i = k # q)"
    and "\<And>k. pcs k = Found_free u \<Longrightarrow> cv_vector i = []"
  shows "queue_ok (Some i) pcs u"
  using assms unfolding queue_ok_def option.case by blast

text \<open>The first of the queue gets the lock, or a new time for it.\<close>

lemma queue_ok_lock:
  assumes "queue_ok (Some i) pcs u" "cv_vector i = h # q" "\<And>k. pcs k \<noteq> Found_free u"
  shows "queue_ok (Some (i\<lparr>lock_time := now\<rparr>)) (pcs(h := Holding u now)) u"
proof (rule queue_okI)
  have h: "in_queue u (pcs h)" using queue_okD(2) [OF assms(1)] assms(2) by auto
  fix k t
  show "k \<in> set (cv_vector (i\<lparr>lock_time := now\<rparr>)) \<longleftrightarrow> in_queue u ((pcs(h := Holding u now)) k)"
    using queue_okD(2) [OF assms(1)] h by auto
  show "(pcs(h := Holding u now)) k = Holding u t \<Longrightarrow> lock_time (i\<lparr>lock_time := now\<rparr>) = t \<and> (\<exists>q. cv_vector (i\<lparr>lock_time := now\<rparr>) = k # q)"
    using one_holding [OF assms(1,2)] assms(2) by (cases "k = h") auto
  show "(pcs(h := Holding u now)) k = Found_free u \<Longrightarrow> cv_vector (i\<lparr>lock_time := now\<rparr>) = []"
    using assms(3) by (cases "k = h") auto
qed (use queue_okD(1) [OF assms(1)] in simp)

text \<open>A handler without the lock leaves the queue; the one with the lock leaves it to the others.\<close>

lemma queue_ok_leave:
  assumes "queue_ok (Some i) pcs u" "pcs h \<noteq> Outside" "in_queue u (pcs h)" "\<And>k. pcs k \<noteq> Found_free u"
    and "t' = lock_time i \<and> (\<forall>t. pcs h \<noteq> Holding u t) \<or> (\<exists>q. cv_vector i = h # q)"
  shows "queue_ok (Some (i\<lparr>lock_time := t', cv_vector := remove1 h (cv_vector i)\<rparr>)) (pcs(h := Outside)) u"
    (is "queue_ok (Some ?i) ?pcs u")
proof (rule queue_okI)
  note d = queue_okD [OF assms(1)]
  fix k t
  show "distinct (cv_vector ?i)" using d(1) by simp
  show "k \<in> set (cv_vector ?i) \<longleftrightarrow> in_queue u (?pcs k)" using d(1,2) by (cases "k = h") auto
  show "?pcs k = Found_free u \<Longrightarrow> cv_vector ?i = []" using assms(4) by (cases "k = h") auto
  assume k: "?pcs k = Holding u t"
  then have e: "k \<noteq> h" "pcs k = Holding u t" by (cases "k = h"; simp)+
  then obtain q where q: "cv_vector i = k # q" "lock_time i = t" using d(3) by blast
  with assms(5) e(1) have "t' = lock_time i" by auto
  with q e(1) show "lock_time ?i = t \<and> (\<exists>q. cv_vector ?i = k # q)" by simp
qed

lemma queue_ok_enter:
  assumes "queue_ok (Some i) pcs u" "pcs h = Found_free u \<or> pcs h = Found_busy u" "\<And>k. k \<noteq> h \<Longrightarrow> pcs k \<noteq> Found_free u"
  shows "queue_ok (Some (i\<lparr>cv_vector := cv_vector i @ [h]\<rparr>)) (pcs(h := Queued u)) u" (is "queue_ok (Some ?i) ?pcs u")
proof (rule queue_okI)
  note d = queue_okD [OF assms(1)]
  have h: "\<not> in_queue u (pcs h)" using assms(2) by auto
  fix k t
  show "distinct (cv_vector ?i)" using d(1,2) h by simp
  show "k \<in> set (cv_vector ?i) \<longleftrightarrow> in_queue u (?pcs k)" using d(2) by auto
  show "?pcs k = Found_free u \<Longrightarrow> cv_vector ?i = []" using assms(3) [of k] by (cases "k = h") auto
  show "?pcs k = Holding u t \<Longrightarrow> lock_time ?i = t \<and> (\<exists>q. cv_vector ?i = k # q)"
    using d(3) [of k t] by (cases "k = h") auto
qed

lemma inv_test:
  assumes "lock_inv s" "lock_step True s (L_test h u) = Some s'"
  shows "lock_inv s'"
proof -
  have h: "lock_pcs s h = Outside" "holder s = None" using assms(2) by (auto split: if_splits)
  note n = no_section [OF assms(1) h(2)]
  show ?thesis
  proof (cases "map_of (infos s) u")
    case None
    with assms h show ?thesis by (simp add: lock_test_def throw_reply_def)
  next
    case (Some i)
    let ?p = "if cv_vector i = [] then Found_free u else Found_busy u"
    have s': "s' = set_pc h ?p s\<lparr>holder := Some h\<rparr>" using assms(2) h Some by (simp add: lock_test_def)
    note d = queue_okD [OF lock_invD(1) [OF assms(1), of u, unfolded Some]]
    show ?thesis
    proof (rule inv_change [OF assms(1), where u = u and h = h and p = ?p])
      show "map_of (infos s') v = map_of (infos s) v" for v by (simp add: s' set_pc_def)
      show "lock_pcs s' = (lock_pcs s)(h := ?p)" by (simp add: s' set_pc_def)
      show "asks v (lock_pcs s h) \<Longrightarrow> v = u" for v using h by simp
      show "asks v ?p \<Longrightarrow> v = u" for v by (auto split: if_splits)
      show "in_section (((lock_pcs s)(h := ?p)) k) \<longleftrightarrow> holder s' = Some k" for k using n by (auto simp: s')
      have "infos s' = infos s" by (simp add: s' set_pc_def)
      moreover have "queue_ok (Some i) ((lock_pcs s)(h := ?p)) u"
      proof (rule queue_okI [OF d(1)])
        fix k t
        show "k \<in> set (cv_vector i) \<longleftrightarrow> in_queue u (((lock_pcs s)(h := ?p)) k)" using d(2) h by auto
        show "((lock_pcs s)(h := ?p)) k = Holding u t \<Longrightarrow> lock_time i = t \<and> (\<exists>q. cv_vector i = k # q)"
          using d(3) [of k t] by (cases "k = h") (auto split: if_splits)
        show "((lock_pcs s)(h := ?p)) k = Found_free u \<Longrightarrow> cv_vector i = []"
          using n(2) by (cases "k = h") (auto split: if_splits)
      qed
      ultimately show "queue_ok (map_of (infos s') u) ((lock_pcs s)(h := ?p)) u" using Some by simp
    qed
  qed
qed

text \<open>What the other steps do to the user they are about.\<close>

lemma inv_update:
  assumes "lock_inv s" "infos s' = map_assign u i (infos s) \<and> lock_pcs s' = (lock_pcs s)(h := p) \<and> holder s' = None"
    and "\<And>v. asks v (lock_pcs s h) \<Longrightarrow> v = u" "\<And>v. asks v p \<Longrightarrow> v = u"
    and "queue_ok (Some i) ((lock_pcs s)(h := p)) u" "\<And>k. \<not> in_section (((lock_pcs s)(h := p)) k)"
  shows "lock_inv s'"
  by (rule inv_change [OF assms(1), where u = u and h = h and p = p])
    (use assms(3-6) in \<open>simp_all add: assms(2) map_of_assign\<close>)

lemma inv_enter:
  assumes "lock_inv s" "lock_step shared s (L_enter h now) = Some s'"
  shows "lock_inv s'"
proof -
  obtain u where u: "lock_pcs s h = Found_free u \<or> lock_pcs s h = Found_busy u"
    using assms(2) by (auto split: lock_pc.splits)
  then have "in_section (lock_pcs s h)" by auto
  then have h: "holder s = Some h" using lock_invD(2) [OF assms(1)] by blast
  have n: "\<not> in_section (lock_pcs s k)" "lock_pcs s k \<noteq> Found_free v" if "k \<noteq> h" for k v
    using lock_invD(2) [OF assms(1), of k] h that by auto
  have "asks u (lock_pcs s h)" using u by auto
  then obtain i where i: "map_of (infos s) u = Some i" "queue_ok (Some i) (lock_pcs s) u"
    by (rule in_queue_user [OF assms(1)])
  let ?i = "i\<lparr>cv_vector := cv_vector i @ [h]\<rparr>"
  note e = queue_ok_enter [OF i(2) u n(2)]
  show ?thesis
  proof (cases "lock_pcs s h = Found_free u")
    case True
    then have c: "cv_vector ?i = h # []" using queue_okD(4) [OF i(2)] by simp
    have f: "((lock_pcs s)(h := Queued u)) k \<noteq> Found_free u" for k using n(2) by (cases "k = h") auto
    have "queue_ok (Some (?i\<lparr>lock_time := now\<rparr>)) ((lock_pcs s)(h := Holding u now)) u"
      using queue_ok_lock [where pcs = "(lock_pcs s)(h := Queued u)", OF e c f] unfolding fun_upd_upd .
    moreover have "infos s' = map_assign u (?i\<lparr>lock_time := now\<rparr>) (infos s) \<and> lock_pcs s' = (lock_pcs s)(h := Holding u now) \<and> holder s' = None"
      using assms(2) True i(1) by (auto simp: lock_take_def after_section_def stamp_def set_pc_def)
    ultimately show ?thesis using n(1) True by (intro inv_update [OF assms(1)]) auto
  next
    case False
    with u have b: "lock_pcs s h = Found_busy u" by blast
    have "infos s' = map_assign u ?i (infos s) \<and> lock_pcs s' = (lock_pcs s)(h := Queued u) \<and> holder s' = None"
      using assms(2) b i(1) by (auto simp: lock_enqueue_def set_pc_def)
    then show ?thesis using e n(1) b by (intro inv_update [OF assms(1)]) auto
  qed
qed

lemma inv_move:
  assumes "lock_inv s" "in_queue u (lock_pcs s h)" "in_queue u p" "\<And>t. p \<noteq> Holding u t"
  shows "lock_inv (set_pc h p s)"
proof (rule inv_change [OF assms(1), where u = u and h = h and p = p])
  have o: "asks v q \<Longrightarrow> v = u" "\<not> in_section q" if "in_queue u q" for v q using that by (cases q; simp)+
  show "asks v (lock_pcs s h) \<Longrightarrow> v = u" "asks v p \<Longrightarrow> v = u" for v using o assms(2,3) by blast+
  show "queue_ok (map_of (infos (set_pc h p s)) u) ((lock_pcs s)(h := p)) u"
    using queue_ok_moves [OF lock_invD(1) [OF assms(1)] assms(2-4)] by (simp add: set_pc_def)
  show "in_section (((lock_pcs s)(h := p)) k) \<longleftrightarrow> holder (set_pc h p s) = Some k" for k
    using lock_invD(2) [OF assms(1), of k] o(2) assms(2,3) by (auto simp: set_pc_def)
qed (simp_all add: set_pc_def)

lemma inv_resume:
  assumes "lock_inv s" "lock_step shared s (L_resume h now) = Some s'"
  shows "lock_inv s'"
proof -
  obtain u where u: "lock_pcs s h = Woken u" "holder s = None"
    "after_section h u (lock_resume now h u (infos s)) s = Some s'"
    using assms(2) by (auto split: lock_pc.splits if_splits)
  note n = no_section [OF assms(1) u(2)]
  have "asks u (lock_pcs s h)" using u(1) by simp
  then obtain i where i: "map_of (infos s) u = Some i" "queue_ok (Some i) (lock_pcs s) u"
    by (rule in_queue_user [OF assms(1)])
  have "h \<in> set (cv_vector i)" using queue_okD(2) [OF i(2)] u(1) by simp
  then obtain k q where c: "cv_vector i = k # q" by (cases "cv_vector i") auto
  show ?thesis
  proof (cases "k = h")
    case True
    have "infos s' = map_assign u (i\<lparr>lock_time := now\<rparr>) (infos s) \<and> lock_pcs s' = (lock_pcs s)(h := Holding u now) \<and> holder s' = None"
      using u(2,3) i(1) c True by (auto simp: lock_resume_def after_section_def stamp_def set_pc_def)
    then show ?thesis using queue_ok_lock [OF i(2) c [unfolded True] n(2)] n(1) u(1) by (intro inv_update [OF assms(1)]) auto
  next
    case False
    let ?i = "i\<lparr>lock_time := lock_time i, cv_vector := remove1 h (cv_vector i)\<rparr>"
    have "infos s' = map_assign u ?i (infos s) \<and> lock_pcs s' = (lock_pcs s)(h := Outside) \<and> holder s' = None"
      using u(2,3) i(1) c False by (auto simp: lock_resume_def after_section_def throw_reply_def set_pc_def)
    moreover have "queue_ok (Some ?i) ((lock_pcs s)(h := Outside)) u"
      by (rule queue_ok_leave [OF i(2) _ _ n(2)]) (simp_all add: u(1))
    ultimately show ?thesis using n(1) u(1) by (intro inv_update [OF assms(1)]) auto
  qed
qed

text \<open>A handler with the lock is the first of the queue and has the stored time.\<close>

lemma holding_user:
  assumes "lock_inv s" "lock_pcs s h = Holding u t"
  obtains i q where "map_of (infos s) u = Some i" "queue_ok (Some i) (lock_pcs s) u" "cv_vector i = h # q" "lock_time i = t"
proof -
  have "asks u (lock_pcs s h)" using assms(2) by simp
  then obtain i where i: "map_of (infos s) u = Some i" "queue_ok (Some i) (lock_pcs s) u"
    by (rule in_queue_user [OF assms(1)])
  from queue_okD(3) [OF i(2) assms(2)] i that show ?thesis by blast
qed

lemma inv_relock:
  assumes "lock_inv s" "lock_step shared s (L_relock h now) = Some s'"
  shows "lock_inv s'"
proof -
  obtain u t where u: "lock_pcs s h = Holding u t" "holder s = None"
    "after_section h u (relock_user now u t (infos s)) s = Some s'"
    using assms(2) by (auto split: lock_pc.splits if_splits)
  note n = no_section [OF assms(1) u(2)]
  obtain i q where i: "map_of (infos s) u = Some i" "queue_ok (Some i) (lock_pcs s) u" "cv_vector i = h # q" "lock_time i = t"
    by (rule holding_user [OF assms(1) u(1)])
  have "infos s' = map_assign u (i\<lparr>lock_time := now\<rparr>) (infos s) \<and> lock_pcs s' = (lock_pcs s)(h := Holding u now) \<and> holder s' = None"
    using u(2,3) i(1,4) by (auto simp: relock_user_def after_section_def stamp_def set_pc_def)
  then show ?thesis using queue_ok_lock [OF i(2,3) n(2)] n(1) u(1) by (intro inv_update [OF assms(1)]) auto
qed

lemma inv_notify: "lock_inv s \<Longrightarrow> lock_inv (notify n s)"
  by (auto simp: notify_def intro: inv_move split: option.splits lock_pc.splits)

lemma inv_unlock:
  assumes "lock_inv s" "lock_step shared s (L_unlock h) = Some s'"
  shows "lock_inv s'"
proof -
  obtain u t where u: "lock_pcs s h = Holding u t" "holder s = None"
    using assms(2) by (auto split: lock_pc.splits if_splits)
  note n = no_section [OF assms(1) u(2)]
  obtain i q where i: "map_of (infos s) u = Some i" "queue_ok (Some i) (lock_pcs s) u" "cv_vector i = h # q" "lock_time i = t"
    by (rule holding_user [OF assms(1) u(1)])
  let ?i = "i\<lparr>lock_time := 0, cv_vector := q\<rparr>"
  let ?s = "set_pc h Outside (s\<lparr>infos := map_assign u ?i (infos s)\<rparr>)"
  have "queue_ok (Some ?i) ((lock_pcs s)(h := Outside)) u"
    using queue_ok_leave [OF i(2) _ _ n(2), of h 0] u(1) i(3) by simp
  then have "lock_inv ?s" using n(1) u by (intro inv_update [OF assms(1)]) (auto simp: set_pc_def)
  moreover have "\<exists>n. s' = notify n ?s" using assms(2) u i(1,3,4) by (auto simp: unlock_user_def Let_def)
  ultimately show ?thesis using inv_notify by blast
qed

lemma inv_wait:
  assumes "lock_inv s" "lock_step shared s (L_wait h) = Some s' \<or> lock_step shared s (L_wake h) = Some s'"
  shows "lock_inv s'"
proof -
  consider u where "lock_pcs s h = Queued u" "s' = set_pc h (Waiting u) s"
    | u where "lock_pcs s h = Waiting u" "s' = set_pc h (Woken u) s"
    using assms(2) by (auto split: lock_pc.splits)
  then show ?thesis using inv_move [OF assms(1), of _ h] by cases simp_all
qed

lemma lock_step_inv:
  assumes "lock_inv s" "lock_step True s l = Some s'"
  shows "lock_inv s'"
proof (cases l)
  case (L_test h u)
  show ?thesis by (rule inv_test [OF assms [unfolded L_test]])
next
  case (L_enter h now)
  show ?thesis by (rule inv_enter [OF assms [unfolded L_enter]])
next
  case (L_wait h)
  show ?thesis by (rule inv_wait [OF assms(1) disjI1, OF assms(2) [unfolded L_wait]])
next
  case (L_wake h)
  show ?thesis by (rule inv_wait [OF assms(1) disjI2, OF assms(2) [unfolded L_wake]])
next
  case (L_resume h now)
  show ?thesis by (rule inv_resume [OF assms [unfolded L_resume]])
next
  case (L_relock h now)
  show ?thesis by (rule inv_relock [OF assms [unfolded L_relock]])
next
  case (L_unlock h)
  show ?thesis by (rule inv_unlock [OF assms [unfolded L_unlock]])
qed

lemma lock_run_inv: "lock_inv s \<Longrightarrow> lock_run True s ls = Some s' \<Longrightarrow> lock_inv s'"
  by (induction ls arbitrary: s) (auto dest: lock_step_inv split: bind_splits)

section \<open>Properties\<close>

text \<open>
  If the handlers shared one mutex, the lock of a user would exclude: whatever the order of steps,
  at most one handler has it, it is the first of the queue and has the time the server stored, so
  renewing the lock succeeds for it.
\<close>

theorem user_lock_exclusive:
  assumes "lock_init m s" "lock_run True s ls = Some s'" "lock_pcs s' h = Holding u t"
  shows "(\<forall>k t'. lock_pcs s' k = Holding u t' \<longrightarrow> k = h \<and> t' = t) \<and>
    (\<exists>i q. map_of (infos s') u = Some i \<and> cv_vector i = h # q \<and> lock_time i = t) \<and>
    fst (relock_user now u t (infos s')) = Ret now"
proof -
  have inv: "lock_inv s'" by (rule lock_run_inv [OF lock_init_inv [OF assms(1)] assms(2)])
  obtain i q where i: "map_of (infos s') u = Some i" "queue_ok (Some i) (lock_pcs s') u" "cv_vector i = h # q" "lock_time i = t"
    by (rule holding_user [OF inv assms(3)])
  have "k = h \<and> t' = t" if "lock_pcs s' k = Holding u t'" for k t'
    using one_holding [OF i(2,3) that] queue_okD(3) [OF i(2) that] i(4) by simp
  with i(1,3,4) show ?thesis by (simp add: relock_user_def)
qed

text \<open>Ann is registered, handler 1 has her lock, and handler 2 waits for it.\<close>

definition one_user :: "User_info smap" where
  "one_user = [(''ann@example.com'',
     \<lparr>user = \<lparr>User_uuid = ''ann@example.com'', User_password = ''x'', User_last_sync = 1\<rparr>, lock_time = 0, cv_vector = []\<rparr>)]"

theorem user_lock_exclusive_witness:
  "\<exists>s'. lock_run True \<lparr>infos = one_user, lock_pcs = (\<lambda>h. Outside), holder = None\<rparr>
       [L_test 1 ''ann@example.com'', L_enter 1 10, L_test 2 ''ann@example.com'', L_enter 2 11, L_wait 2] = Some s' \<and>
     (\<forall>k t'. lock_pcs s' k = Holding ''ann@example.com'' t' \<longrightarrow> k = 1 \<and> t' = 10)"
proof -
  let ?s = "\<lparr>infos = one_user, lock_pcs = (\<lambda>h. Outside), holder = None\<rparr>"
  let ?ls = "[L_test 1 ''ann@example.com'', L_enter 1 10, L_test 2 ''ann@example.com'', L_enter 2 11, L_wait 2]"
  have "lock_init one_user ?s" by (simp add: lock_init_def one_user_def)
  moreover obtain s' where "lock_run True ?s ?ls = Some s'" "lock_pcs s' 1 = Holding ''ann@example.com'' 10"
    by (simp add: one_user_def lock_test_def lock_take_def lock_enqueue_def stamp_def set_pc_def after_section_def)
  ultimately show ?thesis using user_lock_exclusive [of one_user ?s ?ls s' 1 "''ann@example.com''" 10 0] by blast
qed

text \<open>
  The lock of the code does not exclude, and it can be lost. The mutex belongs to the handler, so two
  handlers that ask for the lock of a registered user can both find the queue empty, and then both
  have the lock. With a shared mutex a handler that has entered the queue but does not wait yet misses
  the only notification there will be: it then waits as the first of the queue while nobody has
  the lock, and whoever asks next finds the queue taken.
\<close>

theorem user_lock_race:
  assumes "lock_init m s" "map_of m u = Some i"
  shows "(\<exists>s'. lock_run False s [L_test 1 u, L_test 2 u, L_enter 1 now, L_enter 2 now] = Some s' \<and>
      lock_pcs s' 1 = Holding u now \<and> lock_pcs s' 2 = Holding u now) \<and>
    (\<exists>s' i'. lock_run True s [L_test 1 u, L_enter 1 now, L_test 2 u, L_enter 2 now, L_unlock 1, L_wait 2] = Some s' \<and>
      (\<forall>k. lock_pcs s' k = (if k = 2 then Waiting u else Outside)) \<and>
      map_of (infos s') u = Some i' \<and> cv_vector i' = [2] \<and> lock_test u (infos s') = Ret False)"
proof -
  have i: "cv_vector i = []" using assms by (auto simp: lock_init_def list_all_iff dest: map_of_SomeD)
  have s: "s = \<lparr>infos = m, lock_pcs = (\<lambda>h. Outside), holder = None\<rparr>" using assms(1) by (simp add: lock_init_def)
  note ops = lock_test_def lock_take_def lock_enqueue_def unlock_user_def notify_def stamp_def set_pc_def
    after_section_def map_of_assign Let_def
  show ?thesis
    by (simp add: s ops assms(2) i)
qed

theorem user_lock_race_witness:
  "\<exists>s'. lock_run False \<lparr>infos = one_user, lock_pcs = (\<lambda>h. Outside), holder = None\<rparr>
       [L_test 1 ''ann@example.com'', L_test 2 ''ann@example.com'', L_enter 1 10, L_enter 2 10] = Some s' \<and>
     lock_pcs s' 1 = Holding ''ann@example.com'' 10 \<and> lock_pcs s' 2 = Holding ''ann@example.com'' 10"
proof -
  let ?s = "\<lparr>infos = one_user, lock_pcs = (\<lambda>h. Outside), holder = None\<rparr>"
  have "lock_init one_user ?s" by (simp add: lock_init_def one_user_def)
  moreover have "map_of one_user ''ann@example.com'' = Some (snd (hd one_user))" by (simp add: one_user_def)
  ultimately show ?thesis using user_lock_race [of one_user ?s "''ann@example.com''" "snd (hd one_user)" 10] by blast
qed

end
