(* ===== verification/ServiceThread.thy ===== *)
theory ServiceThread
  imports Sessions
begin

text \<open>
  One round of \<open>service_thread\<close> with a client whose TLS session is up: read the header, parse it,
  get the body, call the handler, write the reply. What the TLS session delivers is a parameter.
\<close>

section \<open>Serving one request\<close>

text \<open>
  What the thread does with its client: it writes at most one reply and then gives the connection
  back to the select loop or closes it.
\<close>

record served =
  written :: "string option"
  kept :: bool

definition reject :: "register_server_exception \<Rightarrow> 's sync_state \<Rightarrow> (unit, served) outcome \<times> 's sync_state" where
  "reject ex st = (Ret \<lparr>written = Some (what ex), kept = False\<rparr>, st)"

text \<open>The position of the first brace in the received text, \<open>strstr (header, "{")\<close>.\<close>

definition embed_json :: "string \<Rightarrow> nat option" where
  "embed_json header =
     map_option (\<lambda>rest. length (cstr_at header 0) - length rest) (strstr (cstr_at header 0) ''{'')"

definition answer ::
  "(handler_error, string) outcome \<times> 's sync_state \<Rightarrow> (unit, served) outcome \<times> 's sync_state" where
  "answer r =
     (case r of
        (Ret reply_msg, st) \<Rightarrow>
          (case build_reply HTTP_200 keep_alive (Some reply_msg) of
             Ret (cap, reply) \<Rightarrow> (Ret \<lparr>written = Some reply, kept = True\<rparr>, st)
           | _ \<Rightarrow> (Undefined, st))
      | (Throw (Reply ex), st) \<Rightarrow> reject ex st
      | (Throw (CString e), st) \<Rightarrow> (Undefined, st)
      | (Blocked, st) \<Rightarrow> (Blocked, st)
      | (Undefined, st) \<Rightarrow> (Undefined, st))"

text \<open>
  The body of a POST: the text from the first brace when the header came with one, else a second
  read. A C string thrown out of the thread would end the process (Undefined).
\<close>

definition request_body :: "string \<Rightarrow> string \<Rightarrow> ssl_read list \<Rightarrow> int \<Rightarrow> (unit, string option) outcome" where
  "request_body header parsed reads content_length =
     (case embed_json header of
        Some p \<Rightarrow> Ret (Some (cstr_at parsed p))
      | None \<Rightarrow>
          (case read_incoming_bytes reads content_length of
             Ret b \<Rightarrow> Ret (map_option (\<lambda>x. cstr_at x 0) b)
           | Throw e \<Rightarrow> Throw e | Blocked \<Rightarrow> Blocked | Undefined \<Rightarrow> Undefined))"

definition serve_parsed ::
  "'s IDataStore \<Rightarrow> 'd env \<Rightarrow> int \<Rightarrow> string \<Rightarrow> string \<Rightarrow> ssl_read list \<Rightarrow> operation_type \<Rightarrow> int \<Rightarrow> request_type \<Rightarrow>
   's sync_state \<Rightarrow> (unit, served) outcome \<times> 's sync_state" where
  "serve_parsed V E now header parsed reads op_type content_length requestType st =
     (if requestType = POST then
        (if content_length < 2 then reject bad_request_error st
         else
           (case request_body header parsed reads content_length of
              Ret request \<Rightarrow>
                (case request of
                   None \<Rightarrow> reject bad_request_error st
                 | Some r \<Rightarrow>
                     if length r < 2 then reject bad_request_error st
                     else answer (handle_request V E now op_type (Some r) POST st))
            | Blocked \<Rightarrow> (Blocked, st)
            | _ \<Rightarrow> (Undefined, st)))
      else answer (handle_request V E now op_type None GET st))"

definition serve_request ::
  "'s IDataStore \<Rightarrow> 'd env \<Rightarrow> int \<Rightarrow> ssl_read list \<Rightarrow> ssl_read list \<Rightarrow>
   's sync_state \<Rightarrow> (unit, served) outcome \<times> 's sync_state" where
  "serve_request V E now header_reads body_reads st =
     (case read_incoming_bytes header_reads 0 of
        Ret None \<Rightarrow> (Ret \<lparr>written = None, kept = False\<rparr>, st)
      | Ret (Some header) \<Rightarrow>
          (case parse_header header of
             Ret (parsed, None) \<Rightarrow> (Ret \<lparr>written = None, kept = True\<rparr>, st)
           | Ret (parsed, Some (op_type, content_length, requestType)) \<Rightarrow>
               serve_parsed V E now header parsed body_reads op_type content_length requestType st
           | Throw ex \<Rightarrow> reject ex st
           | Blocked \<Rightarrow> (Blocked, st)
           | Undefined \<Rightarrow> (Undefined, st))
      | Blocked \<Rightarrow> (Blocked, st)
      | _ \<Rightarrow> (Undefined, st))"

section \<open>Replies\<close>

definition complete_reply :: "http_status set \<Rightarrow> http_connection \<Rightarrow> string \<Rightarrow> bool" where
  "complete_reply statuses con t \<longleftrightarrow>
     (\<exists>status msg cap. status \<in> statuses \<and> build_reply status con msg = Ret (cap, t))"

text \<open>A round is orderly when what it writes and what it does with the connection agree.\<close>

definition orderly :: "served \<Rightarrow> bool" where
  "orderly s \<longleftrightarrow>
     (case written s of
        None \<Rightarrow> True
      | Some t \<Rightarrow>
          if kept s then complete_reply {HTTP_200} keep_alive t
          else complete_reply {HTTP_400, HTTP_403, HTTP_500} close_con t)"

lemma orderly_bad_request: "orderly \<lparr>written = Some (what bad_request_error), kept = False\<rparr>"
proof -
  obtain cap t where "build_reply HTTP_400 close_con None = Ret (cap, t)"
    "reply_text (build_reply HTTP_400 close_con None) = t"
    using build_reply_error [of HTTP_400 close_con None] by auto
  then show ?thesis
    unfolding orderly_def complete_reply_def bad_request_error_def build_reply_default_def by auto
qed

lemma verify_request_error: "verify_request m p = Throw ex \<Longrightarrow> ex = bad_request_error"
  by (auto simp: verify_request_def split: if_splits)

lemma parse_header_error: "parse_header b = Throw ex \<Longrightarrow> ex = bad_request_error"
  by (auto simp: parse_header_def Let_def dest!: verify_request_error
      split: prod.splits option.splits outcome.splits if_splits)

lemma answer_orderly:
  assumes "answer (handle_request V E now op_type request http_type st) = (Ret s, st')"
  shows "orderly s"
proof -
  obtain r st1 where h: "handle_request V E now op_type request http_type st = (r, st1)" by fastforce
  show ?thesis
  proof (cases r)
    case (Ret reply_msg)
    then show ?thesis using assms h
      by (auto simp: answer_def orderly_def complete_reply_def split: outcome.splits prod.splits) blast
  next
    case (Throw e)
    with h have "fst (handle_request V E now op_type request http_type st) = Throw e" by simp
    from handle_request_reply [OF this] obtain status msg cap t where
      t: "status \<in> {HTTP_400, HTTP_403, HTTP_500}" "build_reply status close_con msg = Ret (cap, t)"
      "e = Reply (new_exception t)" unfolding reply_error_def by blast
    with assms h Throw have "s = \<lparr>written = Some t, kept = False\<rparr>" by (simp add: answer_def reject_def)
    with t show ?thesis by (auto simp: orderly_def complete_reply_def)
  qed (use assms h in \<open>auto simp: answer_def\<close>)
qed

text \<open>
  C36: a round of a service thread answers as it acts. When it returns, either it wrote a complete
  200 reply with keep-alive and keeps the connection, or it wrote a complete 400, 403 or 500 reply
  with close and closed it, or it wrote nothing. It writes nothing and closes exactly when no byte
  could be read, and writes nothing and keeps the connection exactly when the request line has
  fewer than two words: such a client waits for a reply that never comes.
\<close>

theorem serve_request_orderly:
  assumes "serve_request V E now header_reads body_reads st = (Ret s, st')"
  shows "orderly s \<and>
    (written s = None \<and> \<not> kept s \<longleftrightarrow> read_incoming_bytes header_reads 0 = Ret None) \<and>
    (written s = None \<and> kept s \<longleftrightarrow>
       (\<exists>header. read_incoming_bytes header_reads 0 = Ret (Some header) \<and>
          parse_request (cstr_at header 0) = Ret None))"
proof -
  have a: "\<exists>t. written s = Some t" if "answer r = (Ret s, st')" for r :: "(handler_error, string) outcome \<times> 'a sync_state"
    using that by (auto simp: answer_def reject_def split: prod.splits outcome.splits handler_error.splits)
  have p: "orderly s \<and> (\<exists>t. written s = Some t)"
    if "serve_parsed V E now h b rs op n ty st = (Ret s, st')" for h b rs op n ty
    using that orderly_bad_request answer_orderly a
    by (auto simp: serve_parsed_def reject_def split: if_splits outcome.splits option.splits)
  show ?thesis
  proof (cases "read_incoming_bytes header_reads 0")
    case (Ret ho)
    show ?thesis
    proof (cases ho)
      case None
      with Ret assms show ?thesis by (auto simp: serve_request_def orderly_def)
    next
      case (Some header)
      have q: "parse_request (cstr_at header 0) = parse_result (parse_header header)"
        by (rule parse_header_reference [symmetric])
      show ?thesis
      proof (cases "parse_header header")
        case r: (Ret x)
        obtain parsed res where x: "x = (parsed, res)" by fastforce
        show ?thesis
        proof (cases res)
          case None
          with Ret Some r x assms q show ?thesis by (auto simp: serve_request_def orderly_def)
        next
          case s: (Some y)
          obtain op n ty where "y = (op, n, ty)" by (cases y)
          with Ret Some r x s assms have "serve_parsed V E now header parsed body_reads op n ty st = (Ret s, st')"
            by (simp add: serve_request_def)
          from p [OF this] Ret Some r x s q show ?thesis by auto
        qed
      next
        case (Throw ex)
        from parse_header_error [OF this] assms Ret Some Throw
        have "s = \<lparr>written = Some (what bad_request_error), kept = False\<rparr>"
          by (simp add: serve_request_def reject_def)
        with orderly_bad_request Ret Some Throw q show ?thesis by auto
      qed (use assms Ret Some in \<open>auto simp: serve_request_def\<close>)
    qed
  qed (use assms in \<open>auto simp: serve_request_def\<close>)
qed

theorem serve_request_orderly_witness:
  "\<exists>s. serve_request mem_store (sample_env sample_registration) 5 [\<lparr>bytes = 4, stored = ''GET'' @ [LF], pending = False\<rparr>] []
     empty_server = (Ret s, empty_server) \<and> written s = None \<and> kept s \<and> orderly s"
proof -
  have h: "read_incoming_bytes [\<lparr>bytes = 4, stored = ''GET'' @ [LF], pending = False\<rparr>] 0 = Ret (Some (''GET'' @ [LF, NUL]))"
    by (simp add: read_incoming_bytes_def Let_def SSL_READ_ATTEMPTS_def finish_read_def)
  have "parse_result (parse_header (''GET'' @ [LF, NUL])) = Ret None" by code_simp
  then obtain b where "parse_header (''GET'' @ [LF, NUL]) = Ret (b, None)"
    by (auto simp: parse_result_def split: outcome.splits)
  with h have s: "serve_request mem_store (sample_env sample_registration) 5
      [\<lparr>bytes = 4, stored = ''GET'' @ [LF], pending = False\<rparr>] [] empty_server =
      (Ret \<lparr>written = None, kept = True\<rparr>, empty_server)"
    by (simp add: serve_request_def)
  from serve_request_orderly [OF s] s show ?thesis by auto
qed

end
