(* ===== verification/Wire.thy ===== *)
theory Wire
  imports ServiceThread
begin

text \<open>
  From the bytes a client sends to the handler: the header parser, the search for the body and the
  second read together.
\<close>

section \<open>Lines of a header that a body follows\<close>




section \<open>A request that arrives\<close>







end
