(* ===== verification/Server.thy ===== *)
theory Server
  imports ServiceThread
begin

text \<open>
  The running server: the select loop of \<open>server::start\<close>, the service threads, the thread manager
  and the session manager, as steps on one state. The parts run in parallel; a step is what one of
  them does between two points at which another can interfere. The accesses the code leaves
  without a lock (\<open>current_thread_count\<close>, the queue's size, the map of connections) are taken as
  single accesses.
\<close>

section \<open>State\<close>

record conn_meta =
  socket :: int
  ssl :: bool
  last_used :: int
  active :: bool

text \<open>
  The queue holds pointers to entries of \<open>conn_map\<close>, which are named by their keys, and pointers
  to \<open>shut_thread_down_meta\<close>, the entry whose \<open>last_used\<close> is \<open>END_IT\<close>.
\<close>

datatype job = Client int | Shut_thread_down

text \<open>
  Where the select loop stands: in \<open>select\<close> with the copy of \<open>connection_fds\<close> it took; working
  off the result (was the control pipe, the second control pipe, the listening socket ready, and
  which clients); or inside \<open>close_clients\<close>, after the removal of the descriptors.
\<close>

datatype main_at =
    Waiting "int set"
  | Handling bool bool bool "int list"
  | Closing "int list" bool "int list"

text \<open>
  \<open>connection_fds\<close> holds the clients only; the pipes and the listening socket are always in it. (The
  \<open>fd_set\<close> of the code has room for \<open>FD_SETSIZE\<close> descriptors, which the model does not bound.) \<open>open_fds\<close>
  are the descriptors of clients, \<open>other_fds\<close> those that the rest of the process has open besides: the
  sockets of the store, files. The system gives a closed number to whoever opens something next. \<open>in_service\<close> are the clients whose request a thread is working on, \<open>returning\<close> those a
  thread has marked inactive and not yet put back. \<open>threads\<close> counts the service threads alive,
  \<open>control\<close> and \<open>control2\<close> the bytes in the pipes, \<open>to_shutdown\<close> the markers the thread manager
  has still to queue.
\<close>

record server_state =
  conn_map :: "int \<Rightarrow> conn_meta option"
  connection_fds :: "int set"
  service_q :: "job list"
  in_service :: "int list"
  returning :: "int list"
  open_fds :: "int set"
  other_fds :: "int set"
  current_connections :: int
  max_fd :: int
  read_fds_called :: bool
  control :: nat
  control2 :: nat
  clients_to_close :: "int list"
  main_thread :: main_at
  current_thread_count :: int
  threads :: int
  active_threads :: int
  thread_check_counter :: int
  to_shutdown :: int

text \<open>After the constructor, whose listening socket is \<open>listen_sd\<close>.\<close>

definition server_init :: "config \<Rightarrow> int \<Rightarrow> server_state" where
  "server_init cfg listen_sd = \<lparr>
     conn_map = (\<lambda>i. None), connection_fds = {}, service_q = [], in_service = [], returning = [], open_fds = {}, other_fds = {},
     current_connections = 0, max_fd = listen_sd, read_fds_called = False, control = 0, control2 = 0,
     clients_to_close = [], main_thread = Waiting {}, current_thread_count = max 0 (service_threads cfg),
     threads = max 0 (service_threads cfg), active_threads = 0, thread_check_counter = 0, to_shutdown = 0\<rparr>"

definition valid_fds :: "server_state \<Rightarrow> int set" where
  "valid_fds st = open_fds st \<union> other_fds st"

section \<open>The select loop\<close>

text \<open>
  Starting further threads when the queue is long. \<open>active_threads\<close> is read twice, and a thread
  can finish in between: None is the division by zero.
\<close>

definition scale_up :: "int \<Rightarrow> int \<Rightarrow> int \<Rightarrow> int \<Rightarrow> int \<Rightarrow> int option" where
  "scale_up mx q_sz cnt active1 active2 =
     (if cnt < mx \<and> q_sz > cnt \<and> active1 > 0 then
        (if active2 = 0 then None
         else if cnt div active2 < 2 then Some (if cnt div 2 < mx then cnt div 2 else mx) else Some 0)
      else Some 0)"

definition start_service_threads :: "int \<Rightarrow> server_state \<Rightarrow> server_state" where
  "start_service_threads n st =
     st\<lparr>current_thread_count := current_thread_count st + n, threads := threads st + n\<rparr>"

definition restart :: "server_state \<Rightarrow> server_state" where
  "restart st = st\<lparr>main_thread := Waiting (connection_fds st)\<rparr>"

text \<open>
  \<open>select\<close> returns: with an error when a descriptor in the set is not open, else with the clients
  that are ready, in ascending order.
\<close>

definition scaled :: "config \<Rightarrow> server_state \<Rightarrow> server_state option" where
  "scaled cfg st =
     map_option (\<lambda>n. start_service_threads n st)
       (scale_up (max_service_threads cfg) (int (length (service_q st))) (current_thread_count st)
          (active_threads st) (active_threads st))"

definition select_returns :: "config \<Rightarrow> bool \<Rightarrow> int list \<Rightarrow> server_state \<Rightarrow> server_state option" where
  "select_returns cfg listen ready st =
     (case main_thread st of
        Waiting R \<Rightarrow>
          (if (\<forall>i \<in> R. i \<le> max_fd st \<longrightarrow> i \<in> valid_fds st) \<and> sorted ready \<and> distinct ready \<and>
              (\<forall>i \<in> set ready. i \<in> R \<and> i \<le> max_fd st) \<and>
              (0 < control st \<or> 0 < control2 st \<or> listen \<or> ready \<noteq> []) then
             map_option
               (\<lambda>st. st\<lparr>main_thread := Handling (0 < control st) (0 < control2 st) listen ready\<rparr>)
               (scaled cfg st)
           else None)
      | _ \<Rightarrow> None)"

definition select_fails :: "config \<Rightarrow> server_state \<Rightarrow> server_state option" where
  "select_fails cfg st =
     (case main_thread st of
        Waiting R \<Rightarrow>
          (if \<exists>i \<in> R. i \<le> max_fd st \<and> i \<notin> valid_fds st then map_option restart (scaled cfg st) else None)
      | _ \<Rightarrow> None)"

text \<open>A byte in the control pipe: a thread has put a client back. Alone, it only restarts the loop.\<close>

definition read_control :: "server_state \<Rightarrow> server_state option" where
  "read_control st =
     (case main_thread st of
        Handling True c2 listen ready \<Rightarrow>
          (let st1 = st\<lparr>control := control st - 1, read_fds_called := False\<rparr>
           in Some (if \<not> c2 \<and> \<not> listen \<and> ready = [] then restart st1
                    else st1\<lparr>main_thread := Handling False c2 listen ready\<rparr>))
      | _ \<Rightarrow> None)"

text \<open>\<open>close_clients\<close>: first all descriptors leave the set, then the clients that are inactive are closed.\<close>

definition clear_clients :: "server_state \<Rightarrow> server_state option" where
  "clear_clients st =
     (case main_thread st of
        Handling False True listen ready \<Rightarrow>
          Some (st\<lparr>control2 := control2 st - 1, connection_fds := connection_fds st - set (clients_to_close st),
                   main_thread := Closing (clients_to_close st) listen ready\<rparr>)
      | _ \<Rightarrow> None)"

definition close_next :: "server_state \<Rightarrow> server_state option" where
  "close_next st =
     (case main_thread st of
        Closing (i # cs) listen ready \<Rightarrow>
          Some (case conn_map st i of
             Some m \<Rightarrow>
               if \<not> active m then
                 st\<lparr>open_fds := open_fds st - {i}, other_fds := other_fds st - {i},
                    current_connections := current_connections st - 1, conn_map := (conn_map st)(i := None), main_thread := Closing cs listen ready\<rparr>
               else st\<lparr>main_thread := Closing cs listen ready\<rparr>
           | None \<Rightarrow> st\<lparr>main_thread := Closing cs listen ready\<rparr>)
      | Closing [] listen ready \<Rightarrow>
          Some (st\<lparr>clients_to_close := [], main_thread := Handling False False listen ready\<rparr>)
      | _ \<Rightarrow> None)"

text \<open>
  A new connection. The result of \<open>accept\<close> is not checked: \<open>fd\<close> is -1 when it fails. When the
  server is full the client is answered 503, closed, and the loop restarted.
\<close>

definition accept_client :: "config \<Rightarrow> int \<Rightarrow> int \<Rightarrow> server_state \<Rightarrow> server_state option" where
  "accept_client cfg fd now st =
     (case main_thread st of
        Handling False False True ready \<Rightarrow>
          (if current_connections st \<ge> server_max_connections cfg \<or> fd \<in> valid_fds st \<or> (fd \<le> 0 \<and> fd \<noteq> - 1) then None
           else Some (st\<lparr>max_fd := max (max_fd st) fd,
             conn_map := (conn_map st)(fd := Some \<lparr>socket = fd, ssl = False, last_used = now, active = True\<rparr>),
             open_fds := (if fd = - 1 then open_fds st else insert fd (open_fds st)),
             current_connections := current_connections st + 1,
             service_q := service_q st @ [Client fd],
             main_thread := Handling False False False ready\<rparr>))
      | _ \<Rightarrow> None)"

definition reject_client :: "config \<Rightarrow> server_state \<Rightarrow> server_state option" where
  "reject_client cfg st =
     (case main_thread st of
        Handling False False True ready \<Rightarrow>
          (if current_connections st \<ge> server_max_connections cfg then Some (restart st) else None)
      | _ \<Rightarrow> None)"

text \<open>The entry \<open>conn_map[i]\<close> reads, default-initialised when there is none.\<close>

definition meta_at :: "server_state \<Rightarrow> int \<Rightarrow> conn_meta" where
  "meta_at st i =
     (case conn_map st i of Some m \<Rightarrow> m | None \<Rightarrow> \<lparr>socket = 0, ssl = False, last_used = 0, active = False\<rparr>)"

text \<open>
  The next ready client: skipped when active, closed when nothing can be read from it (the peer
  has closed it, or the descriptor is not open), else queued.
\<close>

definition next_ready :: "(int \<Rightarrow> int list \<Rightarrow> server_state option) \<Rightarrow> server_state \<Rightarrow> server_state option" where
  "next_ready f st = (case main_thread st of Handling False False False (i # ready) \<Rightarrow> f i ready | _ \<Rightarrow> None)"

definition skip_client :: "server_state \<Rightarrow> server_state option" where
  "skip_client st =
     next_ready (\<lambda>i ready. if active (meta_at st i) then Some (st\<lparr>main_thread := Handling False False False ready\<rparr>) else None) st"

definition close_client :: "int \<Rightarrow> server_state \<Rightarrow> server_state" where
  "close_client fd st =
     st\<lparr>connection_fds := connection_fds st - {fd}, open_fds := open_fds st - {fd}, other_fds := other_fds st - {fd}\<rparr>"

definition hang_up :: "server_state \<Rightarrow> server_state option" where
  "hang_up st =
     next_ready (\<lambda>i ready.
       if active (meta_at st i) then None
       else Some ((close_client i st)\<lparr>current_connections := current_connections st - 1,
         conn_map := (conn_map st)(i := None), main_thread := Handling False False False ready\<rparr>)) st"

definition enqueue_client :: "server_state \<Rightarrow> server_state option" where
  "enqueue_client st =
     next_ready (\<lambda>i ready.
       if active (meta_at st i) \<or> i \<notin> valid_fds st then None
       else Some (st\<lparr>connection_fds := connection_fds st - {i},
         conn_map := (conn_map st)(i := Some ((meta_at st i)\<lparr>active := True\<rparr>)),
         service_q := service_q st @ [Client i],
         main_thread := Handling False False False ready\<rparr>)) st"

definition end_round :: "server_state \<Rightarrow> server_state option" where
  "end_round st = (case main_thread st of Handling False False False [] \<Rightarrow> Some (restart st) | _ \<Rightarrow> None)"

section \<open>Service threads\<close>

definition busy :: "server_state \<Rightarrow> int" where
  "busy st = int (length (in_service st)) + int (length (returning st))"

definition take_client :: "server_state \<Rightarrow> server_state option" where
  "take_client st =
     (case service_q st of
        Client i # q \<Rightarrow>
          (if busy st < threads st then
             Some (st\<lparr>service_q := q, in_service := in_service st @ [i], active_threads := active_threads st + 1\<rparr>)
           else None)
      | _ \<Rightarrow> None)"

text \<open>A thread that meets the marker ends, and stays counted as active.\<close>

definition end_thread :: "server_state \<Rightarrow> server_state option" where
  "end_thread st =
     (case service_q st of
        Shut_thread_down # q \<Rightarrow>
          (if busy st < threads st then
             Some (st\<lparr>service_q := q, threads := threads st - 1, active_threads := active_threads st + 1\<rparr>)
           else None)
      | _ \<Rightarrow> None)"

text \<open>\<open>close_client\<close> of the threads leaves the entry in the map, active and with socket -1.\<close>

definition service_close :: "int \<Rightarrow> conn_meta \<Rightarrow> server_state \<Rightarrow> server_state" where
  "service_close i m st =
     st\<lparr>conn_map := (conn_map st)(i := Some (m\<lparr>socket := - 1\<rparr>)), open_fds := open_fds st - {socket m},
        other_fds := other_fds st - {socket m}, current_connections := current_connections st - 1, active_threads := active_threads st - 1,
        in_service := remove1 i (in_service st)\<rparr>"

definition service_keep :: "int \<Rightarrow> conn_meta \<Rightarrow> int \<Rightarrow> server_state \<Rightarrow> server_state" where
  "service_keep i m now st =
     st\<lparr>conn_map := (conn_map st)(i := Some (m\<lparr>last_used := now, active := False\<rparr>)),
        active_threads := active_threads st - 1,
        in_service := remove1 i (in_service st), returning := returning st @ [i]\<rparr>"

text \<open>
  The work of a thread on a client: the handshake when there is no session yet, which can fail,
  then a request, whose outcome \<open>r\<close> is what \<open>serve_request\<close> yields.
\<close>

definition handshake_fails :: "int \<Rightarrow> server_state \<Rightarrow> server_state option" where
  "handshake_fails i st =
     (case conn_map st i of
        Some m \<Rightarrow>
          (if i \<in> set (in_service st) \<and> \<not> ssl m then Some (service_close i (m\<lparr>ssl := True\<rparr>) st) else None)
      | None \<Rightarrow> None)"

definition finish_request :: "int \<Rightarrow> served \<Rightarrow> int \<Rightarrow> server_state \<Rightarrow> server_state option" where
  "finish_request i r now st =
     (case conn_map st i of
        Some m \<Rightarrow>
          (if i \<in> set (in_service st) then
             Some (if kept r then service_keep i (m\<lparr>ssl := True\<rparr>) now st else service_close i (m\<lparr>ssl := True\<rparr>) st)
           else None)
      | None \<Rightarrow> None)"

text \<open>
  Giving a client back, and waking the select loop unless that was done since it last woke up. When the
  session manager has had the entry erased in between, the thread works on freed memory; that step is left out.
\<close>

definition give_back :: "int \<Rightarrow> server_state \<Rightarrow> server_state option" where
  "give_back i st =
     (case conn_map st i of
        Some m \<Rightarrow>
          (if i \<in> set (returning st) then
             Some (st\<lparr>connection_fds := insert (socket m) (connection_fds st), returning := remove1 i (returning st),
               control := (if read_fds_called st then control st else control st + 1), read_fds_called := True\<rparr>)
           else None)
      | None \<Rightarrow> None)"

section \<open>Managers\<close>

text \<open>The session manager: which clients have been idle too long.\<close>

definition stale :: "config \<Rightarrow> int \<Rightarrow> server_state \<Rightarrow> int \<Rightarrow> bool" where
  "stale cfg now st i \<longleftrightarrow>
     (case conn_map st i of
        Some m \<Rightarrow> \<not> active m \<and> 0 < socket m \<and> now - last_used m \<ge> server_keep_alive cfg
      | None \<Rightarrow> False)"

definition mark_stale :: "config \<Rightarrow> int \<Rightarrow> server_state \<Rightarrow> server_state" where
  "mark_stale cfg now st =
     (if clients_to_close st = [] then
        (let cs = filter (stale cfg now st) [0..max_fd st]
         in st\<lparr>clients_to_close := cs, control2 := control2 st + (if cs = [] then 0 else 1)\<rparr>)
      else st)"

text \<open>
  The thread manager. \<open>current_thread_count/0.2\<close> is a floating-point quotient; against an integer
  it compares as five times the count.
\<close>

definition manage_threads :: "config \<Rightarrow> server_state \<Rightarrow> server_state" where
  "manage_threads cfg st =
     (if int (length (service_q st)) < 5 * current_thread_count st then
        (if thread_check_counter st + 1 > 20 then
           st\<lparr>thread_check_counter := 0,
              to_shutdown := max 0 ((current_thread_count st - service_threads cfg) div 2)\<rparr>
         else st\<lparr>thread_check_counter := thread_check_counter st + 1\<rparr>)
      else st\<lparr>thread_check_counter := max 0 (thread_check_counter st - 1)\<rparr>)"

definition shut_down_one :: "server_state \<Rightarrow> server_state" where
  "shut_down_one st =
     st\<lparr>current_thread_count := current_thread_count st - 1, service_q := service_q st @ [Shut_thread_down],
        to_shutdown := to_shutdown st - 1\<rparr>"

text \<open>\<open>shutdown (false)\<close>, called by the signal handler: a marker for every thread.\<close>

definition shutdown_server :: "server_state \<Rightarrow> server_state" where
  "shutdown_server st =
     st\<lparr>service_q := service_q st @ replicate (nat (current_thread_count st)) Shut_thread_down\<rparr>"

text \<open>It then waits until this holds, keeps the mutex of the queue, and deletes the store.\<close>

definition shutdown_over :: "server_state \<Rightarrow> bool" where
  "shutdown_over st \<longleftrightarrow> service_q st = []"

section \<open>Steps\<close>

datatype label =
    Select_returns bool "int list" | Select_fails | Read_control | Clear_clients | Close_next
  | Accept int int | Reject | Skip | Hang_up | Enqueue | End_round
  | Take | End_thread | Handshake_fails int | Finish_request int served int | Give_back int
  | Mark_stale int | Manage_threads | Shut_down_one
  | Other_opens int | Other_closes int

text \<open>
  The session manager runs when the configuration asks for it. Elsewhere in the process descriptors are
  opened and closed at any time.
\<close>

fun step :: "config \<Rightarrow> label \<Rightarrow> server_state \<Rightarrow> server_state option" where
  "step cfg (Select_returns listen ready) st = select_returns cfg listen ready st"
| "step cfg Select_fails st = select_fails cfg st"
| "step cfg Read_control st = read_control st"
| "step cfg Clear_clients st = clear_clients st"
| "step cfg Close_next st = close_next st"
| "step cfg (Accept fd now) st = accept_client cfg fd now st"
| "step cfg Reject st = reject_client cfg st"
| "step cfg Skip st = skip_client st"
| "step cfg Hang_up st = hang_up st"
| "step cfg Enqueue st = enqueue_client st"
| "step cfg End_round st = end_round st"
| "step cfg Take st = take_client st"
| "step cfg End_thread st = end_thread st"
| "step cfg (Handshake_fails i) st = handshake_fails i st"
| "step cfg (Finish_request i r now) st = finish_request i r now st"
| "step cfg (Give_back i) st = give_back i st"
| "step cfg (Mark_stale now) st = (if server_use_keep_alive_cleaner cfg then Some (mark_stale cfg now st) else None)"
| "step cfg Manage_threads st = (if to_shutdown st = 0 then Some (manage_threads cfg st) else None)"
| "step cfg Shut_down_one st = (if 0 < to_shutdown st then Some (shut_down_one st) else None)"
| "step cfg (Other_opens fd) st =
     (if 0 \<le> fd \<and> fd \<notin> valid_fds st then Some (st\<lparr>other_fds := insert fd (other_fds st)\<rparr>) else None)"
| "step cfg (Other_closes fd) st =
     (if fd \<in> other_fds st then Some (st\<lparr>other_fds := other_fds st - {fd}\<rparr>) else None)"

fun run :: "config \<Rightarrow> label list \<Rightarrow> server_state \<Rightarrow> server_state option" where
  "run cfg [] st = Some st"
| "run cfg (l # ls) st = (case step cfg l st of None \<Rightarrow> None | Some st' \<Rightarrow> run cfg ls st')"

text \<open>The states a run from the constructor on can reach with the steps that \<open>P\<close> allows.\<close>

inductive reachable :: "config \<Rightarrow> int \<Rightarrow> (label \<Rightarrow> bool) \<Rightarrow> server_state \<Rightarrow> bool" for cfg listen_sd P where
  reachable_init: "reachable cfg listen_sd P (server_init cfg listen_sd)"
| reachable_step: "reachable cfg listen_sd P st \<Longrightarrow> P l \<Longrightarrow> step cfg l st = Some st' \<Longrightarrow> reachable cfg listen_sd P st'"

lemma reachable_run:
  "reachable cfg listen_sd P st \<Longrightarrow> list_all P ls \<Longrightarrow> run cfg ls st = Some st' \<Longrightarrow> reachable cfg listen_sd P st'"
proof (induction ls arbitrary: st)
  case (Cons l ls)
  then show ?case by (auto split: option.splits intro: reachable_step)
qed simp

text \<open>An invariant of the steps that \<open>P\<close> allows holds in every state they reach.\<close>

lemma reachable_invariant:
  assumes "reachable cfg listen_sd P st" "I (server_init cfg listen_sd)"
    and "\<And>l st st'. reachable cfg listen_sd P st \<Longrightarrow> P l \<Longrightarrow> I st \<Longrightarrow> step cfg l st = Some st' \<Longrightarrow> I st'"
  shows "I st"
  using assms(1) by (induction rule: reachable.induct) (use assms(2,3) in blast)+

lemma reachable_mono: "reachable cfg listen_sd P st \<Longrightarrow> (\<And>l. P l \<Longrightarrow> Q l) \<Longrightarrow> reachable cfg listen_sd Q st"
  by (induction rule: reachable.induct) (auto intro: reachable.intros)

section \<open>What a step does\<close>

text \<open>
  The inversion rules of the steps: when a step can be made, where the select loop stood, which
  guards held, and the state it leads to. Every proof about runs uses these.
\<close>

lemma scaled_exact: "scaled cfg st = Some st' \<Longrightarrow> \<exists>n. st' = start_service_threads n st"
  by (auto simp: scaled_def)

lemma scaled_some: "\<exists>n. scaled cfg st = Some (start_service_threads n st)"
  by (auto simp: scaled_def scale_up_def)

lemma select_returnsE:
  assumes "select_returns cfg listen ready st = Some st'"
  obtains R st1 where "main_thread st = Waiting R" "scaled cfg st = Some st1" "distinct ready" "set ready \<subseteq> R"
    "\<forall>i \<in> R. i \<le> max_fd st \<longrightarrow> i \<in> valid_fds st"
    "st' = st1\<lparr>main_thread := Handling (0 < control st1) (0 < control2 st1) listen ready\<rparr>"
proof (cases "main_thread st")
  case (Waiting R)
  with assms obtain st1 where "scaled cfg st = Some st1" "distinct ready" "\<forall>i \<in> set ready. i \<in> R \<and> i \<le> max_fd st"
    "\<forall>i \<in> R. i \<le> max_fd st \<longrightarrow> i \<in> valid_fds st"
    "st' = st1\<lparr>main_thread := Handling (0 < control st1) (0 < control2 st1) listen ready\<rparr>"
    by (auto simp: select_returns_def split: if_splits)
  with Waiting show ?thesis by (intro that [of R st1]) auto
qed (use assms in \<open>simp_all add: select_returns_def\<close>)

lemma select_failsE:
  assumes "select_fails cfg st = Some st'"
  obtains R st1 where "main_thread st = Waiting R" "scaled cfg st = Some st1" "st' = restart st1"
  using assms by (auto simp: select_fails_def split: main_at.splits if_splits)

lemma read_controlE:
  assumes "read_control st = Some st'"
  obtains c2 listen ready st1 where "main_thread st = Handling True c2 listen ready"
    "st1 = st\<lparr>control := control st - 1, read_fds_called := False\<rparr>"
    "st' = restart st1 \<or> st' = st1\<lparr>main_thread := Handling False c2 listen ready\<rparr>"
  using assms by (auto simp: read_control_def Let_def split: main_at.splits bool.splits if_splits)

lemma clear_clientsE:
  assumes "clear_clients st = Some st'"
  obtains listen ready where "main_thread st = Handling False True listen ready"
    "st' = st\<lparr>control2 := control2 st - 1, connection_fds := connection_fds st - set (clients_to_close st),
       main_thread := Closing (clients_to_close st) listen ready\<rparr>"
  using assms by (auto simp: clear_clients_def split: main_at.splits bool.splits)

text \<open>Closing: the next client is closed, or left alone, or there is none left.\<close>

lemma close_nextE:
  assumes "close_next st = Some st'"
  obtains i m cs listen ready where "main_thread st = Closing (i # cs) listen ready" "conn_map st i = Some m" "\<not> active m"
      "st' = st\<lparr>open_fds := open_fds st - {i}, other_fds := other_fds st - {i},
         current_connections := current_connections st - 1, conn_map := (conn_map st)(i := None), main_thread := Closing cs listen ready\<rparr>"
  | i cs listen ready where "main_thread st = Closing (i # cs) listen ready"
      "st' = st\<lparr>main_thread := Closing cs listen ready\<rparr>"
  | listen ready where "main_thread st = Closing [] listen ready"
      "st' = st\<lparr>clients_to_close := [], main_thread := Handling False False listen ready\<rparr>"
  using assms by (auto simp: close_next_def split: main_at.splits list.splits option.splits if_splits)

lemma accept_clientE:
  assumes "accept_client cfg fd now st = Some st'"
  obtains ready where "main_thread st = Handling False False True ready"
    "current_connections st < server_max_connections cfg" "fd \<notin> valid_fds st"
    "st' = st\<lparr>max_fd := max (max_fd st) fd,
       conn_map := (conn_map st)(fd := Some \<lparr>socket = fd, ssl = False, last_used = now, active = True\<rparr>),
       open_fds := (if fd = - 1 then open_fds st else insert fd (open_fds st)),
       current_connections := current_connections st + 1,
       service_q := service_q st @ [Client fd],
       main_thread := Handling False False False ready\<rparr>"
  using assms by (auto simp: accept_client_def split: main_at.splits bool.splits if_splits)

lemma reject_clientE:
  assumes "reject_client cfg st = Some st'"
  obtains ready where "main_thread st = Handling False False True ready" "st' = restart st"
  using assms by (auto simp: reject_client_def split: main_at.splits bool.splits if_splits)

lemma next_readyE:
  assumes "next_ready f st = Some st'"
  obtains i ready where "main_thread st = Handling False False False (i # ready)" "f i ready = Some st'"
  using assms by (auto simp: next_ready_def split: main_at.splits bool.splits list.splits)

lemma skip_clientE:
  assumes "skip_client st = Some st'"
  obtains i ready where "main_thread st = Handling False False False (i # ready)" "active (meta_at st i)"
    "st' = st\<lparr>main_thread := Handling False False False ready\<rparr>"
  using assms unfolding skip_client_def by (auto elim!: next_readyE split: if_splits)

lemma hang_upE:
  assumes "hang_up st = Some st'"
  obtains i ready where "main_thread st = Handling False False False (i # ready)" "\<not> active (meta_at st i)"
    "st' = st\<lparr>connection_fds := connection_fds st - {i}, open_fds := open_fds st - {i},
       other_fds := other_fds st - {i}, current_connections := current_connections st - 1, conn_map := (conn_map st)(i := None),
       main_thread := Handling False False False ready\<rparr>"
  using assms unfolding hang_up_def close_client_def by (auto elim!: next_readyE split: if_splits)

lemma enqueue_clientE:
  assumes "enqueue_client st = Some st'"
  obtains i ready where "main_thread st = Handling False False False (i # ready)" "\<not> active (meta_at st i)" "i \<in> valid_fds st"
    "st' = st\<lparr>connection_fds := connection_fds st - {i},
       conn_map := (conn_map st)(i := Some ((meta_at st i)\<lparr>active := True\<rparr>)),
       service_q := service_q st @ [Client i],
       main_thread := Handling False False False ready\<rparr>"
  using assms unfolding enqueue_client_def by (auto elim!: next_readyE split: if_splits)

lemma end_roundE:
  assumes "end_round st = Some st'"
  obtains "main_thread st = Handling False False False []" "st' = restart st"
  using assms by (auto simp: end_round_def split: main_at.splits bool.splits list.splits)

lemma take_clientE:
  assumes "take_client st = Some st'"
  obtains i q where "service_q st = Client i # q" "busy st < threads st"
    "st' = st\<lparr>service_q := q, in_service := in_service st @ [i], active_threads := active_threads st + 1\<rparr>"
  using assms by (auto simp: take_client_def split: list.splits job.splits if_splits)

lemma end_threadE:
  assumes "end_thread st = Some st'"
  obtains q where "service_q st = Shut_thread_down # q" "busy st < threads st"
    "st' = st\<lparr>service_q := q, threads := threads st - 1, active_threads := active_threads st + 1\<rparr>"
  using assms by (auto simp: end_thread_def split: list.splits job.splits if_splits)

lemma handshake_failsE:
  assumes "handshake_fails i st = Some st'"
  obtains m where "conn_map st i = Some m" "i \<in> set (in_service st)" "st' = service_close i (m\<lparr>ssl := True\<rparr>) st"
  using assms by (auto simp: handshake_fails_def split: option.splits if_splits)

lemma finish_requestE:
  assumes "finish_request i r now st = Some st'"
  obtains m where "conn_map st i = Some m" "i \<in> set (in_service st)"
    "st' = (if kept r then service_keep i (m\<lparr>ssl := True\<rparr>) now st else service_close i (m\<lparr>ssl := True\<rparr>) st)"
  using assms by (auto simp: finish_request_def split: option.splits if_splits)

lemma give_backE:
  assumes "give_back i st = Some st'"
  obtains m where "conn_map st i = Some m" "i \<in> set (returning st)"
    "st' = st\<lparr>connection_fds := insert (socket m) (connection_fds st), returning := remove1 i (returning st),
       control := (if read_fds_called st then control st else control st + 1), read_fds_called := True\<rparr>"
  using assms by (auto simp: give_back_def split: option.splits if_splits)

lemmas loop_stepE = select_returnsE select_failsE read_controlE clear_clientsE close_nextE accept_clientE
  reject_clientE skip_clientE hang_upE enqueue_clientE end_roundE
lemmas thread_stepE = take_clientE end_threadE handshake_failsE finish_requestE give_backE

end
