(* ===== verification/Connections.thy ===== *)
theory Connections
  imports Server
begin

text \<open>
  Who owns a connection. Without the session manager, whose use is off by default, and while
  \<open>accept\<close> succeeds, every open client is at exactly one place: watched by \<open>select\<close>, queued, with a
  thread, or on its way back.
\<close>

section \<open>Places\<close>

fun queued :: "job list \<Rightarrow> int list" where
  "queued [] = []"
| "queued (Client i # q) = i # queued q"
| "queued (Shut_thread_down # q) = queued q"

lemma queued_append [simp]: "queued (q @ r) = queued q @ queued r"
  by (induction q rule: queued.induct) auto

definition working :: "server_state \<Rightarrow> int list" where
  "working st = queued (service_q st) @ in_service st"

definition with_threads :: "server_state \<Rightarrow> int list" where
  "with_threads st = working st @ returning st"

text \<open>The steps of a server without session manager whose \<open>accept\<close> always succeeds.\<close>

fun ordinary :: "label \<Rightarrow> bool" where
  "ordinary (Mark_stale now) = False"
| "ordinary (Accept fd now) = (0 < fd)"
| "ordinary l = True"

section \<open>The invariant\<close>

definition loop_ok :: "server_state \<Rightarrow> bool" where
  "loop_ok st \<longleftrightarrow>
     (case main_thread st of
        Waiting R \<Rightarrow> R \<subseteq> connection_fds st
      | Handling c1 c2 listen ready \<Rightarrow> \<not> c2 \<and> distinct ready \<and> set ready \<subseteq> connection_fds st
      | Closing cs listen ready \<Rightarrow> False)"

definition owned :: "server_state \<Rightarrow> bool" where
  "owned st \<longleftrightarrow>
     distinct (with_threads st) \<and> connection_fds st \<inter> set (with_threads st) = {} \<and>
     open_fds st = connection_fds st \<union> set (with_threads st) \<and>
     (\<forall>i \<in> open_fds st. 0 < i \<and> i \<le> max_fd st)"

definition entries_ok :: "server_state \<Rightarrow> bool" where
  "entries_ok st \<longleftrightarrow>
     (\<forall>i \<in> set (working st). \<exists>m. conn_map st i = Some m \<and> active m \<and> socket m = i) \<and>
     (\<forall>i \<in> connection_fds st \<union> set (returning st).
        \<exists>m. conn_map st i = Some m \<and> \<not> active m \<and> ssl m \<and> socket m = i)"

definition counted :: "config \<Rightarrow> server_state \<Rightarrow> bool" where
  "counted cfg st \<longleftrightarrow>
     finite (open_fds st) \<and> current_connections st = int (card (open_fds st)) \<and>
     current_connections st \<le> max 0 (server_max_connections cfg)"

definition no_closing :: "server_state \<Rightarrow> bool" where
  "no_closing st \<longleftrightarrow> clients_to_close st = [] \<and> control2 st = 0 \<and> loop_ok st"

definition accounted :: "config \<Rightarrow> server_state \<Rightarrow> bool" where
  "accounted cfg st \<longleftrightarrow> owned st \<and> entries_ok st \<and> counted cfg st \<and> no_closing st"

lemmas accounted_defs = accounted_def owned_def entries_ok_def counted_def no_closing_def loop_ok_def
  with_threads_def working_def

lemma working_entry:
  "entries_ok st \<Longrightarrow> i \<in> set (working st) \<Longrightarrow> conn_map st i = Some m \<Longrightarrow> active m \<and> socket m = i"
  unfolding entries_ok_def by fastforce

lemma idle_entry:
  "entries_ok st \<Longrightarrow> i \<in> connection_fds st \<union> set (returning st) \<Longrightarrow> conn_map st i = Some m \<Longrightarrow>
    \<not> active m \<and> ssl m \<and> socket m = i"
  unfolding entries_ok_def by (drule conjunct2, drule (1) bspec) auto

lemma card_remove:
  assumes "finite A" "x \<in> A"
  shows "int (card (A - {x})) = int (card A) - 1"
  using card.remove [OF assms] by simp

lemma accounted_init: "accounted cfg (server_init cfg listen_sd)"
  by (simp add: accounted_defs server_init_def)

section \<open>Steps keep it\<close>

text \<open>
  Steps that touch neither clients nor descriptors: what matters of the state is unchanged but for
  where the select loop stands.
\<close>

definition same_clients :: "server_state \<Rightarrow> server_state \<Rightarrow> bool" where
  "same_clients st st' \<longleftrightarrow>
     conn_map st' = conn_map st \<and> connection_fds st' = connection_fds st \<and> queued (service_q st') = queued (service_q st) \<and>
     in_service st' = in_service st \<and> returning st' = returning st \<and> open_fds st' = open_fds st \<and>
     current_connections st' = current_connections st \<and> max_fd st' = max_fd st \<and>
     clients_to_close st' = clients_to_close st \<and> control2 st' = control2 st"

lemma accounted_same:
  assumes "accounted cfg st" "same_clients st st'" "loop_ok st \<Longrightarrow> loop_ok st'"
  shows "accounted cfg st'"
proof -
  have "owned st' = owned st" "entries_ok st' = entries_ok st" "counted cfg st' = counted cfg st"
    using assms(2) by (simp_all add: same_clients_def owned_def entries_ok_def counted_def with_threads_def working_def)
  moreover have "no_closing st'" using assms by (simp add: accounted_def same_clients_def no_closing_def)
  ultimately show ?thesis using assms(1) by (simp add: accounted_def)
qed

lemma accounted_beside:
  assumes "accounted cfg st" "same_clients st st'" "main_thread st' = main_thread st"
  shows "accounted cfg st'"
proof (rule accounted_same [OF assms(1,2)])
  show "loop_ok st'" if "loop_ok st"
    using that assms(2,3) by (auto simp: loop_ok_def same_clients_def split: main_at.splits)
qed

lemma same_scaled:
  assumes "scaled cfg st = Some st1"
  shows "same_clients st st1" "main_thread st1 = main_thread st"
  using assms by (auto simp: scaled_def start_service_threads_def same_clients_def)

lemma accounted_select_returns:
  assumes "accounted cfg st" "select_returns cfg listen ready st = Some st'"
  shows "accounted cfg st'"
proof -
  from assms(2) obtain R st1 where m: "main_thread st = Waiting R" and s: "scaled cfg st = Some st1"
    and r: "distinct ready" "set ready \<subseteq> R"
    and st': "st' = st1\<lparr>main_thread := Handling (0 < control st1) (0 < control2 st1) listen ready\<rparr>"
    by (rule select_returnsE)
  show ?thesis
  proof (rule accounted_same [OF assms(1)])
    show "same_clients st st'" using same_scaled [OF s] by (simp add: same_clients_def st')
    have "control2 st1 = 0" using assms(1) same_scaled(1) [OF s] by (simp add: accounted_def no_closing_def same_clients_def)
    then show "loop_ok st'" if "loop_ok st"
      using that same_scaled(1) [OF s] m r by (auto simp: loop_ok_def st' same_clients_def)
  qed
qed

lemma accounted_restart: "accounted cfg st \<Longrightarrow> accounted cfg (restart st)"
  by (erule accounted_same) (simp_all add: restart_def same_clients_def loop_ok_def)

lemma accounted_select_fails:
  assumes "accounted cfg st" "select_fails cfg st = Some st'"
  shows "accounted cfg st'"
proof -
  from assms(2) obtain st1 where s: "scaled cfg st = Some st1" and st': "st' = restart st1"
    by (rule select_failsE)
  have "accounted cfg st1"
    using same_scaled [OF s] by (rule accounted_beside [OF assms(1)])
  then show ?thesis unfolding st' by (rule accounted_restart)
qed

lemma accounted_read_control:
  assumes "accounted cfg st" "read_control st = Some st'"
  shows "accounted cfg st'"
  using assms(2)
  by (elim read_controlE) (auto simp: restart_def same_clients_def loop_ok_def intro!: accounted_same [OF assms(1)])

lemma accounted_end_round: "accounted cfg st \<Longrightarrow> end_round st = Some st' \<Longrightarrow> accounted cfg st'"
  by (elim end_roundE) (simp add: accounted_restart)

lemma accounted_reject: "accounted cfg st \<Longrightarrow> reject_client cfg st = Some st' \<Longrightarrow> accounted cfg st'"
  by (elim reject_clientE) (simp add: accounted_restart)

lemma accounted_end_thread:
  assumes "accounted cfg st" "end_thread st = Some st'"
  shows "accounted cfg st'"
  using assms(2)
  by (elim end_threadE) (auto simp: same_clients_def intro!: accounted_beside [OF assms(1)])

lemma accounted_managers:
  "accounted cfg st \<Longrightarrow> accounted cfg (manage_threads cfg st)" "accounted cfg st \<Longrightarrow> accounted cfg (shut_down_one st)"
  by (erule accounted_beside; simp add: manage_threads_def shut_down_one_def same_clients_def)+

lemma accounted_take:
  assumes a: "accounted cfg st" and s: "take_client st = Some st'"
  shows "accounted cfg st'"
proof -
  from s obtain i q where q: "service_q st = Client i # q"
    and st': "st' = st\<lparr>service_q := q, in_service := in_service st @ [i], active_threads := active_threads st + 1\<rparr>"
    by (rule take_clientE)
  have w: "set (working st') = set (working st)" "set (with_threads st') = set (with_threads st)"
    "distinct (with_threads st') = distinct (with_threads st)"
    using q by (auto simp: working_def with_threads_def st')
  have "owned st'" using a w by (simp add: accounted_def owned_def st')
  moreover have "entries_ok st'" using a w(1) by (simp add: accounted_def entries_ok_def st')
  moreover have "counted cfg st'" using a by (simp add: accounted_def counted_def st')
  moreover have "no_closing st'" using a by (auto simp: accounted_def no_closing_def loop_ok_def st' split: main_at.splits)
  ultimately show ?thesis by (simp add: accounted_def)
qed

text \<open>Steps that hand a client on.\<close>

lemma accounted_accept:
  assumes a: "accounted cfg st" and fd: "0 < fd" and s: "accept_client cfg fd now st = Some st'"
  shows "accounted cfg st'"
proof -
  from s obtain ready where m: "main_thread st = Handling False False True ready"
    and g: "current_connections st < server_max_connections cfg" "fd \<notin> valid_fds st"
    and st': "st' = st\<lparr>max_fd := max (max_fd st) fd,
             conn_map := (conn_map st)(fd := Some \<lparr>socket = fd, ssl = False, last_used = now, active = True\<rparr>),
             open_fds := (if fd = - 1 then open_fds st else insert fd (open_fds st)),
             current_connections := current_connections st + 1,
             service_q := service_q st @ [Client fd],
             main_thread := Handling False False False ready\<rparr>"
    by (rule accept_clientE)
  have g: "current_connections st < server_max_connections cfg" "fd \<notin> open_fds st"
    using g by (simp_all add: valid_fds_def)
  have n: "fd \<notin> connection_fds st" "fd \<notin> set (with_threads st)" using a g(2) by (auto simp: accounted_def owned_def)
  have "fd \<noteq> - 1" using fd by simp
  note st' = st' [unfolded if_not_P [OF this]]
  have "owned st'" using a fd g(2) n by (auto simp: accounted_def owned_def st' with_threads_def working_def le_max_iff_disj)
  moreover have "entries_ok st'"
    using a n by (auto simp: accounted_def entries_ok_def st' with_threads_def working_def)
  moreover have "counted cfg st'" using a g by (auto simp: accounted_def counted_def st')
  moreover have "no_closing st'" using a m by (auto simp: accounted_def no_closing_def loop_ok_def st')
  ultimately show ?thesis by (simp add: accounted_def)
qed

lemma accounted_ready:
  assumes "accounted cfg st" "main_thread st = Handling False False False (i # ready)"
  shows "i \<in> connection_fds st" "i \<notin> set (with_threads st)" "i \<in> open_fds st" "i \<notin> set ready"
    "\<exists>m. conn_map st i = Some m \<and> \<not> active m \<and> ssl m \<and> socket m = i"
  using assms by (auto simp: accounted_defs)

lemma accounted_skip: "accounted cfg st \<Longrightarrow> skip_client st = None"
  using accounted_ready [of cfg st]
  by (force simp: skip_client_def next_ready_def meta_at_def split: main_at.splits bool.splits list.splits)

lemma accounted_hang_up:
  assumes a: "accounted cfg st" and s: "hang_up st = Some st'"
  shows "accounted cfg st'"
proof -
  from s obtain i ready where m: "main_thread st = Handling False False False (i # ready)"
    and st': "st' = st\<lparr>connection_fds := connection_fds st - {i}, open_fds := open_fds st - {i},
         other_fds := other_fds st - {i}, current_connections := current_connections st - 1, conn_map := (conn_map st)(i := None),
         main_thread := Handling False False False ready\<rparr>"
    by (rule hang_upE)
  note i = accounted_ready [OF a m]
  have "owned st'" using a i by (auto simp: accounted_def owned_def st' with_threads_def working_def)
  moreover have "entries_ok st'"
    using a i by (auto simp: accounted_def entries_ok_def st' with_threads_def working_def)
  moreover have "counted cfg st'"
    using a i(3) by (simp add: accounted_def counted_def st' card_remove del: card_Diff_insert card_Diff_singleton_if)
  moreover have "no_closing st'" using a m i(4) by (auto simp: accounted_def no_closing_def loop_ok_def st')
  ultimately show ?thesis by (simp add: accounted_def)
qed

lemma accounted_enqueue:
  assumes a: "accounted cfg st" and s: "enqueue_client st = Some st'"
  shows "accounted cfg st'"
proof -
  from s obtain i ready where m: "main_thread st = Handling False False False (i # ready)"
    and st': "st' = st\<lparr>connection_fds := connection_fds st - {i},
         conn_map := (conn_map st)(i := Some ((meta_at st i)\<lparr>active := True\<rparr>)),
         service_q := service_q st @ [Client i],
         main_thread := Handling False False False ready\<rparr>"
    by (rule enqueue_clientE)
  note i = accounted_ready [OF a m]
  then have sk: "socket (meta_at st i) = i" by (auto simp: meta_at_def)
  have "owned st'" using a i by (auto simp: accounted_def owned_def st' with_threads_def working_def)
  moreover have "entries_ok st'"
    using a i sk by (auto simp: accounted_def entries_ok_def st' with_threads_def working_def)
  moreover have "counted cfg st'" using a by (simp add: accounted_def counted_def st')
  moreover have "no_closing st'" using a m i(4) by (auto simp: accounted_def no_closing_def loop_ok_def st')
  ultimately show ?thesis by (simp add: accounted_def)
qed

lemma accounted_served:
  assumes "accounted cfg st" "i \<in> set (in_service st)" "conn_map st i = Some m"
  shows "active m" "socket m = i" "i \<in> open_fds st" "i \<notin> connection_fds st" "i \<notin> set (queued (service_q st))"
    "i \<notin> set (returning st)" "distinct (in_service st)"
proof -
  have w: "i \<in> set (working st)" using assms(2) by (simp add: working_def)
  have e: "owned st" "entries_ok st" using assms(1) by (simp_all add: accounted_def)
  from working_entry [OF e(2) w assms(3)] show "active m" "socket m = i" by simp_all
  show "i \<in> open_fds st" "i \<notin> connection_fds st" "i \<notin> set (queued (service_q st))"
    "i \<notin> set (returning st)" "distinct (in_service st)"
    using e(1) assms(2) by (auto simp: owned_def with_threads_def working_def)
qed

lemma accounted_service_close:
  assumes a: "accounted cfg st" and i: "i \<in> set (in_service st)" "conn_map st i = Some m" and m': "socket m' = socket m"
  shows "accounted cfg (service_close i m' st)"
proof -
  note s = accounted_served [OF a i]
  let ?s = "service_close i m' st"
  have "owned ?s"
    using a s m' by (auto simp: accounted_def owned_def service_close_def with_threads_def working_def set_remove1_eq)
  moreover have "entries_ok ?s"
    using a s m' by (auto simp: accounted_def entries_ok_def service_close_def with_threads_def working_def set_remove1_eq)
  moreover have "counted cfg ?s"
    using a s(2,3) m'
    by (simp add: accounted_def counted_def service_close_def card_remove del: card_Diff_insert card_Diff_singleton_if)
  moreover have "no_closing ?s" using a by (auto simp: accounted_def no_closing_def loop_ok_def service_close_def split: main_at.splits)
  ultimately show ?thesis by (simp add: accounted_def)
qed

lemma accounted_service_keep:
  assumes a: "accounted cfg st" and i: "i \<in> set (in_service st)" "conn_map st i = Some m"
    and m': "socket m' = socket m" "ssl m'"
  shows "accounted cfg (service_keep i m' now st)"
proof -
  note s = accounted_served [OF a i]
  let ?s = "service_keep i m' now st"
  have "owned ?s"
    using a s m' by (auto simp: accounted_def owned_def service_keep_def with_threads_def working_def set_remove1_eq)
  moreover have "entries_ok ?s"
    using a s m' by (auto simp: accounted_def entries_ok_def service_keep_def with_threads_def working_def set_remove1_eq)
  moreover have "counted cfg ?s" using a by (simp add: accounted_def counted_def service_keep_def)
  moreover have "no_closing ?s" using a by (auto simp: accounted_def no_closing_def loop_ok_def service_keep_def split: main_at.splits)
  ultimately show ?thesis by (simp add: accounted_def)
qed

lemma accounted_handshake: "accounted cfg st \<Longrightarrow> handshake_fails i st = Some st' \<Longrightarrow> accounted cfg st'"
  by (elim handshake_failsE) (auto intro!: accounted_service_close)

lemma accounted_finish: "accounted cfg st \<Longrightarrow> finish_request i r now st = Some st' \<Longrightarrow> accounted cfg st'"
  by (elim finish_requestE) (auto intro!: accounted_service_close accounted_service_keep)

lemma accounted_give_back:
  assumes a: "accounted cfg st" and s: "give_back i st = Some st'"
  shows "accounted cfg st'"
proof -
  from s obtain m where i: "i \<in> set (returning st)" "conn_map st i = Some m"
    and st': "st' = st\<lparr>connection_fds := insert (socket m) (connection_fds st), returning := remove1 i (returning st),
               control := (if read_fds_called st then control st else control st + 1), read_fds_called := True\<rparr>"
    by (rule give_backE)
  have m: "\<not> active m" "ssl m" "socket m = i"
    using a idle_entry [of st i m] i by (simp_all add: accounted_def)
  have d: "distinct (returning st)" "i \<notin> set (working st)"
    using a i by (auto simp: accounted_def owned_def with_threads_def)
  have "owned st'" using a i m d by (auto simp: accounted_def owned_def st' with_threads_def working_def set_remove1_eq)
  moreover have "entries_ok st'"
    using a i m d by (auto simp: accounted_def entries_ok_def st' with_threads_def working_def set_remove1_eq)
  moreover have "counted cfg st'" using a by (simp add: accounted_def counted_def st')
  moreover have "no_closing st'"
    using a by (auto simp: accounted_def no_closing_def loop_ok_def st' split: main_at.splits)
  ultimately show ?thesis by (simp add: accounted_def)
qed

lemma accounted_no_close: "accounted cfg st \<Longrightarrow> clear_clients st = None \<and> close_next st = None"
  by (auto simp: accounted_defs clear_clients_def close_next_def split: main_at.splits bool.splits)

lemma accounted_step:
  assumes a: "accounted cfg st" and "ordinary l" and "step cfg l st = Some st'"
  shows "accounted cfg st'"
proof (cases l)
  case Clear_clients then show ?thesis using assms accounted_no_close by fastforce
next
  case Close_next then show ?thesis using assms accounted_no_close by fastforce
next
  case Skip then show ?thesis using assms accounted_skip by fastforce
next
  case Manage_threads then show ?thesis using assms accounted_managers by (auto split: if_splits)
next
  case Shut_down_one then show ?thesis using assms accounted_managers by (auto split: if_splits)
next
  case Accept then show ?thesis using assms accounted_accept by auto
next
  case Select_returns then show ?thesis using assms accounted_select_returns [OF a] by simp
next
  case Select_fails then show ?thesis using assms accounted_select_fails [OF a] by simp
next
  case Read_control then show ?thesis using assms accounted_read_control [OF a] by simp
next
  case Reject then show ?thesis using assms accounted_reject [OF a] by simp
next
  case Hang_up then show ?thesis using assms accounted_hang_up [OF a] by simp
next
  case Enqueue then show ?thesis using assms accounted_enqueue [OF a] by simp
next
  case End_round then show ?thesis using assms accounted_end_round [OF a] by simp
next
  case Take then show ?thesis using assms accounted_take [OF a] by simp
next
  case End_thread then show ?thesis using assms accounted_end_thread [OF a] by simp
next
  case Handshake_fails then show ?thesis using assms accounted_handshake [OF a] by simp
next
  case Finish_request then show ?thesis using assms accounted_finish [OF a] by simp
next
  case Give_back then show ?thesis using assms accounted_give_back [OF a] by simp
next
  case Other_opens
  then show ?thesis using assms(3) by (auto simp: same_clients_def split: if_splits intro!: accounted_beside [OF a])
next
  case Other_closes
  then show ?thesis using assms(3) by (auto simp: same_clients_def split: if_splits intro!: accounted_beside [OF a])
qed (use assms(2) in simp)

lemma reachable_accounted: "reachable cfg listen_sd ordinary st \<Longrightarrow> accounted cfg st"
  by (erule reachable_invariant) (auto intro: accounted_init accounted_step)

section \<open>Every client has one owner\<close>

lemma accounted_select_works: "accounted cfg st \<Longrightarrow> select_fails cfg st = None"
  by (auto simp: accounted_defs select_fails_def valid_fds_def split: main_at.splits)

text \<open>
  C18: without the session manager and while \<open>accept\<close> succeeds, no client is lost, leaked, served
  twice or closed under a thread. In every reachable state the open clients are those that
  \<open>select\<close> watches and those queued or with a thread, no client being at two of these places; every
  entry a thread holds a pointer to exists; \<open>current_connections\<close> is the number of open clients
  and at most the configured maximum; and \<open>select\<close> does not fail.
\<close>

theorem connections_accounted:
  assumes "reachable cfg listen_sd ordinary st"
  shows "open_fds st = connection_fds st \<union> set (with_threads st) \<and>
    distinct (with_threads st) \<and> connection_fds st \<inter> set (with_threads st) = {} \<and>
    (\<forall>i. i \<in> set (with_threads st) \<longrightarrow> conn_map st i \<noteq> None) \<and>
    current_connections st = int (card (open_fds st)) \<and>
    current_connections st \<le> max 0 (server_max_connections cfg) \<and> select_fails cfg st = None"
proof -
  have a: "accounted cfg st" by (rule reachable_accounted [OF assms])
  then have "\<forall>i. i \<in> set (with_threads st) \<longrightarrow> conn_map st i \<noteq> None"
    by (fastforce simp: accounted_def entries_ok_def with_threads_def)
  moreover have "select_fails cfg st = None" by (rule accounted_select_works [OF a])
  moreover have "current_connections st \<le> max 0 (server_max_connections cfg)"
    "current_connections st = int (card (open_fds st))"
    using a by (simp_all add: accounted_def counted_def)
  moreover have "owned st" using a by (simp add: accounted_def)
  ultimately show ?thesis unfolding owned_def by blast
qed

theorem connections_accounted_witness:
  "\<exists>st. reachable default_config 5 ordinary st \<and> in_service st = [7] \<and> queued (service_q st) = [8] \<and>
     open_fds st = {7, 8} \<and> current_connections st = 2"
proof -
  let ?ls = "[Select_returns True [], Accept 7 100, End_round, Take, Select_returns True [], Accept 8 101]"
  obtain st where st: "run default_config ?ls (server_init default_config 5) = Some st"
    "in_service st = [7]" "service_q st = [Client 8]" "returning st = []" "connection_fds st = {}"
    by (simp add: server_init_def select_returns_def scaled_def scale_up_def start_service_threads_def
        accept_client_def valid_fds_def end_round_def restart_def take_client_def busy_def default_config_def)
  have r: "reachable default_config 5 ordinary st"
    by (rule reachable_run [OF reachable_init _ st(1)]) simp
  from connections_accounted [OF r] st(2-) show ?thesis
    by (intro exI [of _ st]) (simp add: r with_threads_def working_def insert_commute)
qed

end
