(* ===== verification/Wakeups.thy ===== *)
theory Wakeups
  imports Connections
begin

text \<open>
  Does the select loop notice the clients that threads put back while it waits, and what happens
  when a descriptor in its set is closed.
\<close>

section \<open>The control pipe\<close>

definition wakeful :: "server_state \<Rightarrow> bool" where
  "wakeful st \<longleftrightarrow>
     control st = (if read_fds_called st then 1 else 0) \<and>
     (case main_thread st of
        Waiting R \<Rightarrow> connection_fds st \<subseteq> R \<or> read_fds_called st
      | Handling c1 c2 listen ready \<Rightarrow> c1 \<longrightarrow> read_fds_called st
      | Closing cs listen ready \<Rightarrow> True)"

text \<open>Steps of threads and managers that only take descriptors out of the set.\<close>

lemma wakeful_beside:
  assumes "wakeful st" "control st' = control st" "read_fds_called st' = read_fds_called st"
    "main_thread st' = main_thread st" "connection_fds st' \<subseteq> connection_fds st"
  shows "wakeful st'"
  using assms by (auto simp: wakeful_def split: main_at.splits)

text \<open>Steps of the select loop after it has seen the control pipe.\<close>

definition past_control :: "main_at \<Rightarrow> bool" where
  "past_control m \<longleftrightarrow>
     (case m of Waiting R \<Rightarrow> False | Handling c1 c2 listen ready \<Rightarrow> \<not> c1 | Closing cs listen ready \<Rightarrow> True)"

lemma wakeful_past:
  assumes "wakeful st" "control st' = control st" "read_fds_called st' = read_fds_called st" "past_control (main_thread st')"
  shows "wakeful st'"
  using assms by (auto simp: wakeful_def past_control_def split: main_at.splits)

lemma wakeful_restart: "wakeful st \<Longrightarrow> wakeful (restart st)"
  by (simp add: wakeful_def restart_def)

lemma wakeful_threads_started: "wakeful st \<Longrightarrow> wakeful (start_service_threads n st)"
  by (erule wakeful_beside) (simp_all add: start_service_threads_def)

lemma wakeful_step:
  assumes w: "wakeful st" and s: "step cfg l st = Some st'"
  shows "wakeful st'"
proof (cases l)
  case (Select_returns listen ready)
  with s have "select_returns cfg listen ready st = Some st'" by simp
  then obtain R st1 where "scaled cfg st = Some st1"
    "st' = st1\<lparr>main_thread := Handling (0 < control st1) (0 < control2 st1) listen ready\<rparr>"
    by (rule select_returnsE)
  with wakeful_threads_started [OF w] scaled_exact show ?thesis by (fastforce simp: wakeful_def split: if_splits)
next
  case Select_fails
  with s have "select_fails cfg st = Some st'" by simp
  then obtain st1 where "scaled cfg st = Some st1" "st' = restart st1" by (rule select_failsE)
  with wakeful_threads_started [OF w] scaled_exact show ?thesis by (metis wakeful_restart)
next
  case Read_control
  with s have "read_control st = Some st'" by simp
  then show ?thesis using w by (elim read_controlE) (auto simp: wakeful_def restart_def)
next
  case Clear_clients
  with s have "clear_clients st = Some st'" by simp
  then show ?thesis by (elim clear_clientsE) (auto simp: past_control_def intro: wakeful_past [OF w])
next
  case Close_next
  with s have "close_next st = Some st'" by simp
  then show ?thesis by (elim close_nextE) (auto simp: past_control_def intro: wakeful_past [OF w])
next
  case (Accept fd now)
  with s have "accept_client cfg fd now st = Some st'" by simp
  then show ?thesis by (elim accept_clientE) (auto simp: past_control_def intro: wakeful_past [OF w])
next
  case Reject
  with s have "reject_client cfg st = Some st'" by simp
  then show ?thesis by (elim reject_clientE) (auto intro: wakeful_restart [OF w])
next
  case Skip
  with s have "skip_client st = Some st'" by simp
  then show ?thesis by (elim skip_clientE) (auto simp: past_control_def intro: wakeful_past [OF w])
next
  case Hang_up
  with s have "hang_up st = Some st'" by simp
  then show ?thesis by (elim hang_upE) (auto simp: past_control_def intro: wakeful_past [OF w])
next
  case Enqueue
  with s have "enqueue_client st = Some st'" by simp
  then show ?thesis by (elim enqueue_clientE) (auto simp: past_control_def intro: wakeful_past [OF w])
next
  case End_round
  with s have "end_round st = Some st'" by simp
  then show ?thesis by (elim end_roundE) (auto intro: wakeful_restart [OF w])
next
  case Take
  with s have "take_client st = Some st'" by simp
  then show ?thesis by (elim take_clientE) (auto intro: wakeful_beside [OF w])
next
  case End_thread
  with s have "end_thread st = Some st'" by simp
  then show ?thesis by (elim end_threadE) (auto intro: wakeful_beside [OF w])
next
  case (Handshake_fails i)
  with s have "handshake_fails i st = Some st'" by simp
  then show ?thesis by (elim handshake_failsE) (auto simp: service_close_def intro: wakeful_beside [OF w])
next
  case (Finish_request i r now)
  with s have "finish_request i r now st = Some st'" by simp
  then show ?thesis
    by (elim finish_requestE) (auto simp: service_close_def service_keep_def intro: wakeful_beside [OF w])
next
  case (Give_back i)
  with s have "give_back i st = Some st'" by simp
  then show ?thesis using w by (elim give_backE) (auto simp: wakeful_def split: main_at.splits)
next
  case (Mark_stale now)
  have "wakeful (mark_stale cfg now st)" by (rule wakeful_beside [OF w]) (simp_all add: mark_stale_def Let_def)
  with Mark_stale s show ?thesis by (simp split: if_splits)
next
  case Manage_threads
  with s show ?thesis by (auto simp: manage_threads_def split: if_splits intro: wakeful_beside [OF w])
next
  case Shut_down_one
  with s show ?thesis by (auto simp: shut_down_one_def split: if_splits intro: wakeful_beside [OF w])
next
  case (Other_opens fd)
  with s show ?thesis by (auto split: if_splits intro: wakeful_beside [OF w])
next
  case (Other_closes fd)
  with s show ?thesis by (auto split: if_splits intro: wakeful_beside [OF w])
qed

lemma reachable_wakeful: "reachable cfg listen_sd P st \<Longrightarrow> wakeful st"
proof (erule reachable_invariant)
  show "wakeful (server_init cfg listen_sd)" by (simp add: wakeful_def server_init_def)
qed (rule wakeful_step)

text \<open>
  C20: no wake-up is lost. Whenever the select loop waits on a set that lacks a client which threads
  have put back meanwhile, there is a byte in the control pipe; so, unless the second pipe is ready
  or a descriptor of the set is closed, \<open>select\<close> returns at once, even with nothing else to do, and
  the loop next waits on a set with every client. The flag \<open>read_fds_called\<close>, which keeps threads
  from filling the pipe, does not break this.
\<close>

theorem no_lost_wakeup:
  assumes "reachable cfg listen_sd P st" "main_thread st = Waiting R" "i \<in> connection_fds st" "i \<notin> R"
  shows "control st = 1 \<and>
    (control2 st = 0 \<and> select_fails cfg st = None \<longrightarrow>
      (\<exists>st'. run cfg [Select_returns False [], Read_control] st = Some st' \<and>
         main_thread st' = Waiting (connection_fds st)))"
proof -
  have c: "control st = 1" "read_fds_called st"
    using reachable_wakeful [OF assms(1)] assms(2-4) by (auto simp: wakeful_def split: if_splits)
  moreover have "\<exists>st'. run cfg [Select_returns False [], Read_control] st = Some st' \<and>
      main_thread st' = Waiting (connection_fds st)"
    if p: "control2 st = 0" "select_fails cfg st = None"
  proof -
    obtain n where n: "scaled cfg st = Some (start_service_threads n st)" using scaled_some by blast
    have "\<forall>i \<in> R. i \<le> max_fd st \<longrightarrow> i \<in> valid_fds st"
      using p(2) n assms(2) by (auto simp: select_fails_def split: if_splits)
    then have "select_returns cfg False [] st =
        Some ((start_service_threads n st)\<lparr>main_thread := Handling True False False []\<rparr>)"
      using assms(2) c(1) p(1) n by (simp add: select_returns_def start_service_threads_def)
    then show ?thesis by (simp add: read_control_def restart_def start_service_threads_def)
  qed
  ultimately show ?thesis by blast
qed

lemmas run_simps = server_init_def select_returns_def scaled_def scale_up_def start_service_threads_def read_control_def
  clear_clients_def close_next_def accept_client_def next_ready_def enqueue_client_def end_round_def restart_def
  valid_fds_def take_client_def busy_def finish_request_def service_keep_def give_back_def mark_stale_def stale_def meta_at_def
  default_config_def Let_def

theorem no_lost_wakeup_witness:
  "\<exists>st. reachable default_config 5 ordinary st \<and> main_thread st = Waiting {} \<and> connection_fds st = {7} \<and>
     (\<exists>st'. run default_config [Select_returns False [], Read_control] st = Some st' \<and> main_thread st' = Waiting {7})"
proof -
  let ?ls = "[Select_returns True [], Accept 7 100, End_round, Take, Finish_request 7 \<lparr>written = None, kept = True\<rparr> 101,
    Give_back 7]"
  obtain st where st: "run default_config ?ls (server_init default_config 5) = Some st"
    "main_thread st = Waiting {}" "connection_fds st = {7}" "control2 st = 0"
    by (simp add: run_simps)
  have r: "reachable default_config 5 ordinary st"
    by (rule reachable_run [OF reachable_init _ st(1)]) simp
  have "select_fails default_config st = None" using st(2) by (simp add: select_fails_def)
  with no_lost_wakeup [OF r st(2), of 7] st r show ?thesis by (intro exI [of _ st]) simp
qed

section \<open>A closed descriptor in the set\<close>

text \<open>
  \<open>select\<close> fails as long as the set holds a number that is not open, and nothing takes it out. Only
  another part of the process that opens something can make the number valid again.
\<close>

definition stuck :: "int \<Rightarrow> server_state \<Rightarrow> bool" where
  "stuck i st \<longleftrightarrow>
     (\<exists>R. main_thread st = Waiting R \<and> i \<in> R \<and> i \<in> connection_fds st \<and> i \<le> max_fd st \<and> i \<notin> valid_fds st)"

definition stays_stuck :: "int \<Rightarrow> server_state \<Rightarrow> server_state \<Rightarrow> bool" where
  "stays_stuck i st st' \<longleftrightarrow> stuck i st' \<and> connection_fds st \<subseteq> connection_fds st' \<and> open_fds st' \<subseteq> open_fds st"

lemma stuck_beside:
  assumes "stuck i st" "main_thread st' = main_thread st" "connection_fds st \<subseteq> connection_fds st'"
    "max_fd st' = max_fd st" "open_fds st' \<subseteq> open_fds st" "other_fds st' \<subseteq> insert j (other_fds st)" "j \<noteq> i"
  shows "stays_stuck i st st'"
  using assms unfolding stuck_def stays_stuck_def valid_fds_def by auto

lemma stuck_step:
  assumes w: "stuck i st" and s: "step cfg l st = Some st'" and o: "l \<noteq> Other_opens i"
  shows "stays_stuck i st st'"
proof -
  obtain R where st: "main_thread st = Waiting R" "i \<in> R" "i \<in> connection_fds st" "i \<le> max_fd st" "i \<notin> valid_fds st"
    using w unfolding stuck_def by blast
  have "i + 1 \<noteq> i" by simp
  note b = stuck_beside [OF w _ _ _ _ _ this]
  show ?thesis
  proof (cases l)
    case (Select_returns listen ready)
    with s have "select_returns cfg listen ready st = Some st'" by simp
    then show ?thesis using st by (elim select_returnsE) auto
  next
    case Select_fails
    with s have "select_fails cfg st = Some st'" by simp
    then obtain st1 where "scaled cfg st = Some st1" "st' = restart st1" by (rule select_failsE)
    with scaled_exact st show ?thesis
      by (fastforce simp: stays_stuck_def stuck_def restart_def start_service_threads_def valid_fds_def)
  next
    case Take
    with s have "take_client st = Some st'" by simp
    then show ?thesis by (elim take_clientE) (auto intro!: b)
  next
    case End_thread
    with s have "end_thread st = Some st'" by simp
    then show ?thesis by (elim end_threadE) (auto intro!: b)
  next
    case (Handshake_fails i)
    with s have "handshake_fails i st = Some st'" by simp
    then show ?thesis by (elim handshake_failsE) (auto simp: service_close_def intro!: b)
  next
    case (Finish_request i r now)
    with s have "finish_request i r now st = Some st'" by simp
    then show ?thesis by (elim finish_requestE) (auto simp: service_close_def service_keep_def intro!: b)
  next
    case (Give_back i)
    with s have "give_back i st = Some st'" by simp
    then show ?thesis by (elim give_backE) (auto intro!: b)
  next
    case (Mark_stale now)
    have "stays_stuck i st (mark_stale cfg now st)" by (rule b) (auto simp: mark_stale_def Let_def)
    with Mark_stale s show ?thesis by (simp split: if_splits)
  next
    case Manage_threads
    with s show ?thesis by (auto simp: manage_threads_def split: if_splits intro!: b)
  next
    case Shut_down_one
    with s show ?thesis by (auto simp: shut_down_one_def split: if_splits intro!: b)
  next
    case (Other_opens fd)
    with o have "fd \<noteq> i" by simp
    from stuck_beside [OF w _ _ _ _ _ this] Other_opens s show ?thesis by (auto split: if_splits)
  next
    case (Other_closes fd)
    with s show ?thesis by (auto split: if_splits intro!: b)
  qed (use s st in \<open>auto elim: loop_stepE\<close>)
qed

lemma stuck_run:
  "stuck i st \<Longrightarrow> Other_opens i \<notin> set ls \<Longrightarrow> run cfg ls st = Some st' \<Longrightarrow> stays_stuck i st st'"
proof (induction ls arbitrary: st)
  case Nil
  then show ?case by (simp add: stays_stuck_def)
next
  case (Cons l ls)
  then obtain st1 where s: "step cfg l st = Some st1" "run cfg ls st1 = Some st'" by (auto split: option.splits)
  from stuck_step [OF Cons.prems(1) s(1)] Cons.prems(2) have 1: "stays_stuck i st st1" by auto
  with Cons.IH [OF _ _ s(2)] Cons.prems(2) have "stays_stuck i st1 st'" by (simp add: stays_stuck_def)
  with 1 show ?case unfolding stays_stuck_def by blast
qed

text \<open>
  C21: with the session manager, which runs when the configuration has \<open>server_use_keep_alive_cleaner\<close>, the
  select loop can come to a halt. A client is marked as idle just as its next request arrives; the
  request is served, and while \<open>close_clients\<close> is between taking the descriptors out of the set and
  closing them, the thread puts this one back. The descriptor is then closed but in the set. From
  there on, whatever the select loop, the threads and the managers do and whatever else is opened and
  closed, the loop stays in the failing \<open>select\<close> as long as the number itself is not given to another part
  of the process: no connection is accepted and no watched client is served.
\<close>

theorem session_manager_race:
  "\<exists>st. reachable (default_config\<lparr>server_use_keep_alive_cleaner := True\<rparr>) 5
       (\<lambda>l. case l of Accept fd now \<Rightarrow> 0 < fd | _ \<Rightarrow> True) st \<and>
     (\<forall>ls. case run (default_config\<lparr>server_use_keep_alive_cleaner := True\<rparr>) ls st of
        None \<Rightarrow> True
      | Some st' \<Rightarrow> Other_opens 7 \<in> set ls \<or> stays_stuck 7 st st')"
proof -
  let ?cfg = "default_config\<lparr>server_use_keep_alive_cleaner := True\<rparr>"
  let ?P = "\<lambda>l. case l of Accept fd now \<Rightarrow> 0 < fd | _ \<Rightarrow> True"
  let ?k = "\<lparr>written = None, kept = True\<rparr>"
  let ?ls = "[Select_returns True [], Accept 7 100, End_round, Take, Finish_request 7 ?k 101, Give_back 7,
    Select_returns False [], Read_control, Select_returns False [7], Mark_stale 200, Enqueue, End_round,
    Take, Finish_request 7 ?k 201, Select_returns False [], Clear_clients, Give_back 7, Close_next, Close_next, End_round]"
  obtain st where st: "run ?cfg ?ls (server_init ?cfg 5) = Some st"
    "main_thread st = Waiting {7}" "connection_fds st = {7}" "valid_fds st = {}" "max_fd st = 7"
    by (simp add: run_simps upto_rec1)
  have r: "reachable ?cfg 5 ?P st"
    by (rule reachable_run [OF reachable_init _ st(1)]) simp
  have "stuck 7 st" using st by (simp add: stuck_def)
  with r show ?thesis by (intro exI [of _ st]) (auto split: option.split intro: stuck_run)
qed

end
