(* ===== verification/Threads.thy ===== *)
theory Threads
  imports Wakeups
begin

text \<open>
  The service threads: how many there are, and that they get through the queue.
\<close>

section \<open>The number of threads\<close>

definition markers :: "job list \<Rightarrow> int" where
  "markers q = int (count_list q Shut_thread_down)"

lemma markers_simps [simp]:
  "markers [] = 0" "markers (Client i # q) = markers q" "markers (Shut_thread_down # q) = markers q + 1"
  "markers (q @ r) = markers q + markers r" "markers (replicate n Shut_thread_down) = int n" "0 \<le> markers q"
  by (simp_all add: markers_def) (induction n; simp)

text \<open>
  The bound that starting threads keeps: the check is made before a number of threads is started
  that can be half of those there are.
\<close>

definition thread_limit :: "config \<Rightarrow> int" where
  "thread_limit cfg = max (service_threads cfg) (max_service_threads cfg - 1 + (max_service_threads cfg - 1) div 2)"

definition staffed :: "config \<Rightarrow> server_state \<Rightarrow> bool" where
  "staffed cfg st \<longleftrightarrow>
     threads st = current_thread_count st + markers (service_q st) \<and> 0 \<le> to_shutdown st \<and>
     service_threads cfg \<le> current_thread_count st - to_shutdown st \<and>
     current_thread_count st \<le> thread_limit cfg \<and> busy st \<le> threads st"

lemma half_more:
  assumes "0 \<le> (a :: int)" "a < b"
  shows "a + a div 2 \<le> b - 1 + (b - 1) div 2"
proof -
  have "a \<le> b - 1" using assms by simp
  moreover have "a div 2 \<le> (b - 1) div 2" using assms by (intro zdiv_mono1) simp_all
  ultimately show ?thesis by (rule add_mono)
qed

lemma half_less: "0 \<le> (a :: int) \<Longrightarrow> a < b \<Longrightarrow> a div 2 < b"
  by linarith

lemma scale_up_bounds:
  assumes "scale_up mx q cnt a a = Some n" "0 \<le> cnt"
  shows "0 \<le> n \<and> (n = 0 \<or> cnt + n \<le> mx - 1 + (mx - 1) div 2)"
  using assms half_more [of cnt mx] half_less [of cnt mx] by (auto simp: scale_up_def split: if_splits)

lemma staffed_scaled:
  assumes "staffed cfg st" "scaled cfg st = Some st1" "0 \<le> service_threads cfg"
  shows "staffed cfg st1"
proof -
  from assms(2) obtain n where n: "st1 = start_service_threads n st"
    "scale_up (max_service_threads cfg) (int (length (service_q st))) (current_thread_count st)
       (active_threads st) (active_threads st) = Some n"
    by (auto simp: scaled_def)
  have "0 \<le> current_thread_count st" using assms(1,3) by (simp add: staffed_def)
  from scale_up_bounds [OF n(2) this] assms(1) show ?thesis
    by (auto simp: n(1) staffed_def start_service_threads_def thread_limit_def busy_def)
qed

lemma staffed_beside:
  assumes "staffed cfg st" "threads st' = threads st" "current_thread_count st' = current_thread_count st"
    "markers (service_q st') = markers (service_q st)" "to_shutdown st' = to_shutdown st" "busy st' = busy st"
  shows "staffed cfg st'"
  using assms by (simp add: staffed_def)

lemma length_served: "i \<in> set xs \<Longrightarrow> int (length (remove1 i xs)) = int (length xs) - 1"
  using length_pos_if_in_set [of i xs] by (simp add: length_remove1 Suc_le_eq of_nat_diff)

lemma staffed_step:
  assumes w: "staffed cfg st" and t: "0 \<le> service_threads cfg" and s: "step cfg l st = Some st'"
  shows "staffed cfg st'"
proof (cases l)
  case (Select_returns listen ready)
  with s have "select_returns cfg listen ready st = Some st'" by simp
  then show ?thesis using staffed_scaled [OF w _ t] by (elim select_returnsE) (auto simp: staffed_def busy_def)
next
  case Select_fails
  with s have "select_fails cfg st = Some st'" by simp
  then show ?thesis using staffed_scaled [OF w _ t]
    by (elim select_failsE) (auto simp: restart_def staffed_def busy_def)
next
  case Read_control
  with s have "read_control st = Some st'" by simp
  then show ?thesis by (elim read_controlE) (auto simp: restart_def busy_def intro: staffed_beside [OF w])
next
  case Clear_clients
  with s have "clear_clients st = Some st'" by simp
  then show ?thesis by (elim clear_clientsE) (auto simp: busy_def intro: staffed_beside [OF w])
next
  case Close_next
  with s have "close_next st = Some st'" by simp
  then show ?thesis by (elim close_nextE) (auto simp: busy_def intro: staffed_beside [OF w])
next
  case (Accept fd now)
  with s have "accept_client cfg fd now st = Some st'" by simp
  then show ?thesis by (elim accept_clientE) (auto simp: busy_def intro: staffed_beside [OF w])
next
  case Reject
  with s have "reject_client cfg st = Some st'" by simp
  then show ?thesis by (elim reject_clientE) (auto simp: restart_def busy_def intro: staffed_beside [OF w])
next
  case Skip
  with s have "skip_client st = Some st'" by simp
  then show ?thesis by (elim skip_clientE) (auto simp: busy_def intro: staffed_beside [OF w])
next
  case Hang_up
  with s have "hang_up st = Some st'" by simp
  then show ?thesis by (elim hang_upE) (auto simp: busy_def intro: staffed_beside [OF w])
next
  case Enqueue
  with s have "enqueue_client st = Some st'" by simp
  then show ?thesis by (elim enqueue_clientE) (auto simp: busy_def intro: staffed_beside [OF w])
next
  case End_round
  with s have "end_round st = Some st'" by simp
  then show ?thesis by (elim end_roundE) (auto simp: restart_def busy_def intro: staffed_beside [OF w])
next
  case Take
  with s have "take_client st = Some st'" by simp
  then show ?thesis using w by (elim take_clientE) (auto simp: staffed_def busy_def)
next
  case End_thread
  with s have "end_thread st = Some st'" by simp
  then show ?thesis using w by (elim end_threadE) (auto simp: staffed_def busy_def)
next
  case (Handshake_fails i)
  with s have "handshake_fails i st = Some st'" by simp
  then show ?thesis using w
    by (elim handshake_failsE) (auto simp: service_close_def staffed_def busy_def length_served)
next
  case (Finish_request i r now)
  with s have "finish_request i r now st = Some st'" by simp
  then show ?thesis using w
    by (elim finish_requestE) (auto simp: service_close_def service_keep_def staffed_def busy_def length_served)
next
  case (Give_back i)
  with s have "give_back i st = Some st'" by simp
  then show ?thesis using w by (elim give_backE) (auto simp: staffed_def busy_def length_served)
next
  case (Mark_stale now)
  have "staffed cfg (mark_stale cfg now st)" by (rule staffed_beside [OF w]) (simp_all add: mark_stale_def Let_def busy_def)
  with Mark_stale s show ?thesis by (simp split: if_splits)
next
  case (Other_opens fd)
  with s show ?thesis by (auto simp: busy_def split: if_splits intro: staffed_beside [OF w])
next
  case (Other_closes fd)
  with s show ?thesis by (auto simp: busy_def split: if_splits intro: staffed_beside [OF w])
next
  case Manage_threads
  with s w show ?thesis by (auto simp: manage_threads_def staffed_def busy_def split: if_splits)
next
  case Shut_down_one
  with s w show ?thesis by (auto simp: shut_down_one_def staffed_def busy_def split: if_splits)
qed

lemma reachable_staffed:
  assumes "reachable cfg listen_sd P st" "0 \<le> service_threads cfg"
  shows "staffed cfg st"
proof (rule reachable_invariant [OF assms(1)])
  show "staffed cfg (server_init cfg listen_sd)"
    using assms(2) by (simp add: staffed_def server_init_def thread_limit_def busy_def)
qed (rule staffed_step [OF _ assms(2)])

text \<open>
  C33: \<open>current_thread_count\<close> never goes below the configured number of service threads, and never
  above the larger of that number and what starting threads can lead to when one less than the configured
  maximum is there: \<open>(max - 1) + (max - 1) div 2\<close>. The threads alive are those counted and, besides, those
  a marker in the queue will still stop. The maximum itself can be exceeded: with 4 threads of at most
  5, two more are started.
\<close>

theorem thread_count_bounds:
  assumes "reachable cfg listen_sd P st" "0 \<le> service_threads cfg"
  shows "service_threads cfg \<le> current_thread_count st \<and> current_thread_count st \<le> thread_limit cfg \<and>
    threads st = current_thread_count st + markers (service_q st)"
  using reachable_staffed [OF assms] by (simp add: staffed_def)

text \<open>The state before \<open>select\<close> returns: four threads at work and five clients waiting.\<close>

definition crowd :: "label list" where
  "crowd = concat (map (\<lambda>i. [Select_returns True [], Accept i 100, End_round] @ (if i < 10 then [Take] else [])) [6..14])"

theorem thread_count_bounds_witness:
  "\<exists>st. reachable (default_config\<lparr>service_threads := 4, max_service_threads := 5\<rparr>) 5 ordinary st \<and>
     current_thread_count st = 6 \<and> thread_limit (default_config\<lparr>service_threads := 4, max_service_threads := 5\<rparr>) = 6 \<and>
     threads st = 6 + markers (service_q st)"
proof -
  let ?cfg = "default_config\<lparr>service_threads := 4, max_service_threads := 5\<rparr>"
  obtain st where st: "run ?cfg (crowd @ [Select_returns True []]) (server_init ?cfg 5) = Some st"
    "current_thread_count st = 6"
    by (simp add: crowd_def upto_rec1 run_simps)
  have r: "reachable ?cfg 5 ordinary st"
    by (rule reachable_run [OF reachable_init _ st(1)]) (simp add: crowd_def upto_rec1)
  from thread_count_bounds [OF r] st r show ?thesis
    by (intro exI [of _ st]) (simp add: default_config_def thread_limit_def)
qed

section \<open>Getting through the queue\<close>

text \<open>The steps of the service threads.\<close>

fun thread_label :: "label \<Rightarrow> bool" where
  "thread_label Take = True"
| "thread_label End_thread = True"
| "thread_label (Handshake_fails i) = True"
| "thread_label (Finish_request i r now) = True"
| "thread_label (Give_back i) = True"
| "thread_label l = False"

lemma thread_label_ordinary: "thread_label l \<Longrightarrow> ordinary l"
  by (cases l) simp_all

text \<open>What the threads have still to do: a client in the queue is taken, served and given back.\<close>

definition work :: "server_state \<Rightarrow> nat" where
  "work st = 3 * length (service_q st) + 2 * length (in_service st) + length (returning st)"

definition drained :: "server_state \<Rightarrow> bool" where
  "drained st \<longleftrightarrow> service_q st = [] \<and> in_service st = [] \<and> returning st = []"

text \<open>\<open>n\<close> threads suffice for a queue when one is left for every client behind the markers.\<close>

fun enough :: "int \<Rightarrow> job list \<Rightarrow> bool" where
  "enough n [] = (0 \<le> n)"
| "enough n (Client i # q) = (0 < n \<and> enough n q)"
| "enough n (Shut_thread_down # q) = (0 < n \<and> enough (n - 1) q)"

lemma enough_markers: "markers q < n \<Longrightarrow> enough n q"
proof (induction n q rule: enough.induct)
  case (2 n i q)
  then show ?case using markers_simps(6) [of q] by (simp del: markers_simps(6))
next
  case (3 n q)
  then show ?case using markers_simps(6) [of q] by (simp del: markers_simps(6))
qed simp

lemma enough_replicate: "int k \<le> n \<Longrightarrow> enough n (replicate k Shut_thread_down)"
  by (induction k arbitrary: n) auto

lemma enough_append: "markers q < n \<Longrightarrow> enough (n - markers q) r \<Longrightarrow> enough n (q @ r)"
proof (induction n q rule: enough.induct)
  case (1 n)
  then show ?case by simp
next
  case (2 n i q)
  then show ?case using markers_simps(6) [of q] by (simp del: markers_simps(6))
next
  case (3 n q)
  have "n - 1 - markers q = n - markers (Shut_thread_down # q)" by simp
  with 3 show ?case using markers_simps(6) [of q] by (simp del: markers_simps(6))
qed

text \<open>What the steps of the threads keep, and what they use up.\<close>

definition draining :: "config \<Rightarrow> server_state \<Rightarrow> bool" where
  "draining cfg st \<longleftrightarrow> accounted cfg st \<and> enough (threads st) (service_q st)"

lemma remove1_length: "i \<in> set xs \<Longrightarrow> length (remove1 i xs) < length xs"
  using length_pos_if_in_set [of i xs] by (simp add: length_remove1)

lemma draining_step:
  assumes d: "draining cfg st" and l: "thread_label l" and s: "step cfg l st = Some st'"
  shows "draining cfg st' \<and> work st' < work st \<and> threads st' - markers (service_q st') = threads st - markers (service_q st)"
proof -
  have a: "accounted cfg st'"
    using accounted_step [OF _ thread_label_ordinary [OF l] s] d by (simp add: draining_def)
  have "enough (threads st') (service_q st') \<and> work st' < work st \<and>
      threads st' - markers (service_q st') = threads st - markers (service_q st)"
  proof (cases l)
    case Take
    with s have "take_client st = Some st'" by simp
    then show ?thesis using d by (elim take_clientE) (auto simp: draining_def work_def)
  next
    case End_thread
    with s have "end_thread st = Some st'" by simp
    then show ?thesis using d by (elim end_threadE) (auto simp: draining_def work_def)
  next
    case (Handshake_fails i)
    with s have "handshake_fails i st = Some st'" by simp
    then show ?thesis using d
      by (elim handshake_failsE) (auto simp: draining_def work_def service_close_def dest: remove1_length)
  next
    case (Finish_request i r now)
    with s have "finish_request i r now st = Some st'" by simp
    then obtain m where i: "i \<in> set (in_service st)"
      "st' = (if kept r then service_keep i (m\<lparr>ssl := True\<rparr>) now st else service_close i (m\<lparr>ssl := True\<rparr>) st)"
      by (rule finish_requestE)
    with d remove1_length [OF i(1)] show ?thesis
      by (auto simp: draining_def work_def service_close_def service_keep_def)
  next
    case (Give_back i)
    with s have "give_back i st = Some st'" by simp
    then show ?thesis using d
      by (elim give_backE) (auto simp: draining_def work_def dest: remove1_length)
  qed (use l in simp_all)
  with a show ?thesis by (simp add: draining_def)
qed


text \<open>Whenever something is left to do, a thread can do it.\<close>

lemma draining_progress:
  assumes d: "draining cfg st" and n: "\<not> drained st"
  shows "\<exists>l. thread_label l \<and> step cfg l st \<noteq> None"
proof -
  have e: "conn_map st i \<noteq> None" if "i \<in> set (in_service st) \<union> set (returning st)" for i
    using d that by (fastforce simp: draining_def accounted_def entries_ok_def working_def)
  consider i xs where "in_service st = i # xs" | i xs where "returning st = i # xs"
    | "in_service st = []" "returning st = []" by (meson list.exhaust)
  then show ?thesis
  proof cases
    case (1 i xs)
    then have "step cfg (Finish_request i \<lparr>written = None, kept = False\<rparr> 0) st \<noteq> None"
      using e [of i] by (auto simp: finish_request_def)
    then show ?thesis by (intro exI [of _ "Finish_request i \<lparr>written = None, kept = False\<rparr> 0"]) simp
  next
    case (2 i xs)
    then have "step cfg (Give_back i) st \<noteq> None" using e [of i] by (auto simp: give_back_def)
    then show ?thesis by (intro exI [of _ "Give_back i"]) simp
  next
    case 3
    with n obtain j q where q: "service_q st = j # q" by (auto simp: drained_def neq_Nil_conv)
    have "busy st < threads st" using d 3 q by (cases j) (simp_all add: draining_def busy_def)
    then have "step cfg Take st \<noteq> None \<or> step cfg End_thread st \<noteq> None"
      using q by (cases j) (simp_all add: take_client_def end_thread_def)
    then show ?thesis by (metis thread_label.simps(1,2))
  qed
qed

lemma reachable_draining:
  assumes "reachable cfg listen_sd ordinary st" "1 \<le> service_threads cfg"
  shows "draining cfg st" "markers (service_q st) < threads st" "threads st = current_thread_count st + markers (service_q st)"
proof -
  have "staffed cfg st" using reachable_staffed [OF assms(1)] assms(2) by simp
  then show m: "markers (service_q st) < threads st" "threads st = current_thread_count st + markers (service_q st)"
    using assms(2) by (simp_all add: staffed_def)
  show "draining cfg st"
    using reachable_accounted [OF assms(1)] enough_markers [OF m(1)] by (simp add: draining_def)
qed



text \<open>
  While \<open>shutdown\<close> waits, in the signal handler that has interrupted the select loop, the threads and
  the thread manager go on.
\<close>

fun shutdown_label :: "label \<Rightarrow> bool" where
  "shutdown_label Manage_threads = True"
| "shutdown_label Shut_down_one = True"
| "shutdown_label (Other_opens fd) = True"
| "shutdown_label (Other_closes fd) = True"
| "shutdown_label l = thread_label l"

lemma thread_shutdown_label: "thread_label l \<Longrightarrow> shutdown_label l"
  by (cases l) simp_all

definition surplus :: "server_state \<Rightarrow> int" where
  "surplus st = threads st - markers (service_q st)"

text \<open>No thread does two things at once, and only the manager changes the balance of threads and markers.\<close>

lemma busy_step:
  assumes "busy st \<le> threads st" "shutdown_label l" "step cfg l st = Some st'"
  shows "busy st' \<le> threads st' \<and> surplus st' = surplus st - (if l = Shut_down_one then 1 else 0)"
proof (cases l)
  case Take
  with assms(3) have "take_client st = Some st'" by simp
  with Take show ?thesis by (elim take_clientE) (auto simp: busy_def surplus_def)
next
  case End_thread
  with assms(3) have "end_thread st = Some st'" by simp
  with End_thread show ?thesis by (elim end_threadE) (auto simp: busy_def surplus_def)
next
  case (Handshake_fails i)
  with assms(3) have "handshake_fails i st = Some st'" by simp
  with Handshake_fails assms(1) show ?thesis
    by (elim handshake_failsE) (auto simp: service_close_def busy_def surplus_def length_served)
next
  case (Finish_request i r now)
  with assms(3) have "finish_request i r now st = Some st'" by simp
  with Finish_request assms(1) show ?thesis
    by (elim finish_requestE) (auto simp: service_close_def service_keep_def busy_def surplus_def length_served)
next
  case (Give_back i)
  with assms(3) have "give_back i st = Some st'" by simp
  with Give_back assms(1) show ?thesis by (elim give_backE) (auto simp: busy_def surplus_def length_served)
next
  case Manage_threads
  with assms show ?thesis by (auto simp: manage_threads_def busy_def surplus_def split: if_splits)
next
  case Shut_down_one
  with assms show ?thesis by (auto simp: shut_down_one_def busy_def surplus_def split: if_splits)
next
  case (Other_opens fd)
  with assms show ?thesis by (auto simp: busy_def surplus_def split: if_splits)
next
  case (Other_closes fd)
  with assms show ?thesis by (auto simp: busy_def surplus_def split: if_splits)
qed (use assms(2) in simp_all)

lemma busy_run:
  "busy st \<le> threads st \<Longrightarrow> list_all shutdown_label ls \<Longrightarrow> run cfg ls st = Some st' \<Longrightarrow>
    busy st' \<le> threads st' \<and> surplus st' = surplus st - int (count_list ls Shut_down_one)"
proof (induction ls arbitrary: st)
  case (Cons l ls)
  then obtain st1 where s: "step cfg l st = Some st1" "run cfg ls st1 = Some st'" "shutdown_label l" "list_all shutdown_label ls"
    by (auto split: option.splits)
  from busy_step [OF Cons.prems(1) s(3,1)] Cons.IH [OF _ s(4,2)] show ?case by auto
qed simp

lemma busy_none: "busy st \<le> 0 \<Longrightarrow> in_service st = [] \<and> returning st = []" "0 \<le> busy st"
  by (cases "in_service st"; cases "returning st"; simp add: busy_def)+

text \<open>As long as the manager stops no thread, the queue is worked off.\<close>

lemma draining_shutdown_step:
  assumes "draining cfg st" "shutdown_label l" "l \<noteq> Shut_down_one" "step cfg l st = Some st'"
  shows "draining cfg st' \<and> work st' + (if thread_label l then 1 else 0) \<le> work st"
proof (cases "thread_label l")
  case True
  with draining_step [OF assms(1) True assms(4)] show ?thesis by simp
next
  case False
  have "accounted cfg st" using assms(1) by (simp add: draining_def)
  moreover have "ordinary l" using assms(2) by (cases l) simp_all
  ultimately have "accounted cfg st'" using assms(4) by (rule accounted_step)
  moreover have "threads st' = threads st" "service_q st' = service_q st" "work st' = work st"
    using False assms(2-4) by (cases l; auto simp: manage_threads_def work_def split: if_splits)+
  ultimately show ?thesis using assms(1) False by (simp add: draining_def)
qed

lemma draining_shutdown_run:
  "draining cfg st \<Longrightarrow> list_all shutdown_label ls \<Longrightarrow> Shut_down_one \<notin> set ls \<Longrightarrow> run cfg ls st = Some st' \<Longrightarrow>
    draining cfg st' \<and> length (filter thread_label ls) + work st' \<le> work st"
proof (induction ls arbitrary: st)
  case (Cons l ls)
  then obtain st1 where s: "step cfg l st = Some st1" "run cfg ls st1 = Some st'" "shutdown_label l" "list_all shutdown_label ls"
    "l \<noteq> Shut_down_one" "Shut_down_one \<notin> set ls"
    by (auto split: option.splits)
  from draining_shutdown_step [OF Cons.prems(1) s(3,5,1)] Cons.IH [OF _ s(4,6,2)] show ?case by auto
qed simp

text \<open>
  C22: what \<open>shutdown (false)\<close> comes to on a server without the session manager, while the threads and the
  thread manager go on, if the mutex of the queue is free when the signal arrives and the requests in
  service come to an end. As long as the manager stops no thread, the markers
  that \<open>shutdown\<close> queues are exactly those that stop the threads: the clients queued before are served or closed
  first, which takes the threads at most \<open>work\<close> steps, and there is a step to make until the queue is empty and no
  thread is left. If the manager stops a thread after \<open>shutdown\<close> has queued its markers, there is a marker that no
  thread takes, and the wait is never over. In either case, if it is over, which is as soon as
  the queue is empty, every thread has ended and no request is being served, so the store is not
  deleted under one.
\<close>

theorem graceful_shutdown:
  assumes "reachable cfg listen_sd ordinary st" "1 \<le> service_threads cfg"
    and "list_all shutdown_label ls" "run cfg ls (shutdown_server st) = Some st'"
  shows "(Shut_down_one \<notin> set ls \<longrightarrow> length (filter thread_label ls) \<le> work (shutdown_server st) \<and>
      (drained st' \<and> threads st' = 0 \<or> \<not> drained st' \<and> (\<exists>l. thread_label l \<and> step cfg l st' \<noteq> None))) \<and>
    (Shut_down_one \<in> set ls \<longrightarrow> \<not> shutdown_over st') \<and>
    (shutdown_over st' \<longrightarrow> threads st' = 0 \<and> in_service st' = [] \<and> returning st' = [])"
proof -
  note r = reachable_draining [OF assms(1,2)]
  let ?s = "shutdown_server st"
  have q: "queued (replicate n Shut_thread_down) = []" for n by (induction n) simp_all
  have "accounted cfg ?s"
    using r(1) by (intro accounted_beside [of cfg st ?s]) (simp_all add: draining_def shutdown_server_def same_clients_def q)
  moreover have "enough (threads ?s) (service_q ?s)"
    using r(2,3) by (auto simp: shutdown_server_def intro!: enough_append enough_replicate)
  ultimately have d: "draining cfg ?s" by (simp add: draining_def)
  have "surplus ?s = 0" using r(2,3) by (simp add: shutdown_server_def surplus_def)
  moreover have "busy ?s \<le> threads ?s"
    using reachable_staffed [OF assms(1)] assms(2) by (simp add: staffed_def shutdown_server_def busy_def)
  note busy_run [OF this assms(3,4)]
  ultimately have b: "busy st' \<le> threads st'" "surplus st' = - int (count_list ls Shut_down_one)" by simp_all
  then have o: "threads st' = 0 \<and> count_list ls Shut_down_one = 0" if "shutdown_over st'"
    using that busy_none(2) [of st'] by (simp add: surplus_def shutdown_over_def)
  have "threads st' = 0 \<and> in_service st' = [] \<and> returning st' = []" if "shutdown_over st'"
    using o [OF that] b(1) busy_none(1) [of st'] by simp
  moreover have "\<not> shutdown_over st'" if "Shut_down_one \<in> set ls"
    using o that by (auto simp: count_list_0_iff)
  moreover have "length (filter thread_label ls) \<le> work ?s \<and>
      (drained st' \<and> threads st' = 0 \<or> \<not> drained st' \<and> (\<exists>l. thread_label l \<and> step cfg l st' \<noteq> None))"
    if "Shut_down_one \<notin> set ls"
    using draining_shutdown_run [OF d assms(3) that assms(4)] draining_progress [of cfg st'] o
    by (auto simp: drained_def shutdown_over_def)
  ultimately show ?thesis by blast
qed

theorem graceful_shutdown_witness:
  "\<exists>st st'. reachable (default_config\<lparr>service_threads := 1\<rparr>) 5 ordinary st \<and> service_q st = [Client 7] \<and>
     run (default_config\<lparr>service_threads := 1\<rparr>)
       [Take, Finish_request 7 \<lparr>written = None, kept = False\<rparr> 101, End_thread] (shutdown_server st) = Some st' \<and>
     drained st' \<and> threads st' = 0"
proof -
  let ?cfg = "default_config\<lparr>service_threads := 1\<rparr>"
  let ?ls = "[Take, Finish_request 7 \<lparr>written = None, kept = False\<rparr> 101, End_thread]"
  obtain st where st: "run ?cfg [Select_returns True [], Accept 7 100] (server_init ?cfg 5) = Some st"
    "service_q st = [Client 7]" "current_thread_count st = 1" "threads st = 1" "in_service st = []" "returning st = []"
    "conn_map st 7 = Some \<lparr>socket = 7, ssl = False, last_used = 100, active = True\<rparr>"
    by (simp add: run_simps)
  then obtain st' where st': "run ?cfg ?ls (shutdown_server st) = Some st'" "drained st'"
    by (simp add: shutdown_server_def take_client_def finish_request_def end_thread_def busy_def service_close_def drained_def)
  have r: "reachable ?cfg 5 ordinary st"
    by (rule reachable_run [OF reachable_init _ st(1)]) simp
  have "1 \<le> service_threads ?cfg" by simp
  from graceful_shutdown [OF r this _ st'(1)] st st' r show ?thesis by (intro exI [of _ st] exI [of _ st']) simp
qed

text \<open>
  The thread manager goes on during a shutdown. When it is shutting threads down at the time, it queues
  a marker more than there are threads left to take one, and the wait of \<open>shutdown\<close> is never over,
  whatever the threads do: the process does not end.
\<close>

theorem shutdown_never_over:
  assumes "reachable cfg listen_sd P st" "0 \<le> service_threads cfg" "step cfg Shut_down_one (shutdown_server st) = Some st1"
    and "list_all shutdown_label ls" "run cfg ls st1 = Some st'"
  shows "\<not> shutdown_over st'"
proof
  assume o: "shutdown_over st'"
  have w: "staffed cfg st" by (rule reachable_staffed [OF assms(1,2)])
  have s: "st1 = shut_down_one (shutdown_server st)" using assms(3) by (auto split: if_splits)
  have "busy st1 \<le> threads st1" "surplus st1 = - 1"
    using w assms(2) by (simp_all add: s shut_down_one_def shutdown_server_def staffed_def busy_def surplus_def)
  from busy_run [OF this(1) assms(4,5)] this(2) o busy_none(2) [of st'] show False by (simp add: shutdown_over_def surplus_def)
qed

text \<open>A minute after the crowd has gone the manager decides to stop one of the six threads.\<close>

definition quiet :: "label list" where
  "quiet = crowd @ [Select_returns True []] @ replicate 21 Manage_threads"

theorem shutdown_never_over_witness:
  "\<exists>st st1. reachable (default_config\<lparr>service_threads := 4, max_service_threads := 5\<rparr>) 5 ordinary st \<and>
     step (default_config\<lparr>service_threads := 4, max_service_threads := 5\<rparr>) Shut_down_one (shutdown_server st) = Some st1 \<and>
     \<not> shutdown_over st1"
proof -
  let ?cfg = "default_config\<lparr>service_threads := 4, max_service_threads := 5\<rparr>"
  obtain st where st: "run ?cfg quiet (server_init ?cfg 5) = Some st" "to_shutdown st = 1"
    by (simp add: quiet_def crowd_def upto_rec1 run_simps manage_threads_def eval_nat_numeral)
  have r: "reachable ?cfg 5 ordinary st"
    by (rule reachable_run [OF reachable_init _ st(1)]) (simp add: quiet_def crowd_def upto_rec1 eval_nat_numeral)
  obtain st1 where s: "step ?cfg Shut_down_one (shutdown_server st) = Some st1" using st(2) by (simp add: shutdown_server_def)
  have "0 \<le> service_threads ?cfg" by simp
  from shutdown_never_over [OF r this s, of "[]" st1] have "\<not> shutdown_over st1" by simp
  with r s show ?thesis by blast
qed

end
