(* ===== verification/StoreRefinement.thy ===== *)
theory StoreRefinement
  imports UserMap Synchronisation
begin

text \<open>
  Data refinement of the store behind the handlers. The handlers reach the store through the
  virtual operations of \<open>IDataStore\<close> only; the locale states what it takes for one store to do what
  another one promises, and from it follows that a server on the one answers every sequence of
  requests, restarts included, as a server on the other does.
\<close>

section \<open>Results that agree\<close>

definition agree :: "('s \<Rightarrow> 'a \<Rightarrow> bool) \<Rightarrow> ('e, 'x) outcome \<times> 's \<Rightarrow> ('e, 'x) outcome \<times> 'a \<Rightarrow> bool" where
  "agree rel r r' \<longleftrightarrow> fst r = fst r' \<and> rel (snd r) (snd r')"

named_theorems agree_intros "results that agree"

lemma agreeI [agree_intros]: "rel s a \<Longrightarrow> agree rel (x, s) (x, a)"
  by (simp add: agree_def)

lemma agreeE:
  assumes "agree rel r r'"
  obtains x s a where "r = (x, s)" "r' = (x, a)" "rel s a"
  using assms by (cases r; cases r') (auto simp: agree_def)

section \<open>Maps of users with the same passwords\<close>

definition passwords :: "User_info smap \<Rightarrow> string \<Rightarrow> string option" where
  "passwords m u = map_option (\<lambda>info. User_password (user info)) (map_of m u)"

lemma passwords_assign: "passwords (map_assign u info m) = (passwords m)(u \<mapsto> User_password (user info))"
  by (simp add: fun_eq_iff passwords_def map_of_assign)

lemma passwords_erase: "passwords (map_erase u m) = (passwords m)(u := None)"
  by (simp add: fun_eq_iff passwords_def map_of_erase)

lemma passwords_empty: "passwords m = (\<lambda>u. None) \<longleftrightarrow> m = []"
proof
  assume "passwords m = (\<lambda>u. None)"
  then have "map_of m u = None" for u by (simp add: fun_eq_iff passwords_def)
  then show "m = []" by (cases m) (metis map_of_Cons_code(2) option.distinct(1) surj_pair)+
qed (simp add: fun_eq_iff passwords_def)

lemma passwords_count: "passwords m = passwords m' \<Longrightarrow> map_count u m = map_count u m'"
  by (metis map_count_def option.map_disc_iff passwords_def)

lemma passwords_verify:
  assumes "passwords m = passwords m'"
  shows "verify_password f m usr pw = verify_password f m' usr pw"
proof (cases usr)
  case None
  then show ?thesis using assms passwords_empty [of m] passwords_empty [of m'] by (simp add: verify_password_def)
next
  case (Some u)
  have "map_option (\<lambda>info. User_password (user info)) (map_of m u) = map_option (\<lambda>info. User_password (user info)) (map_of m' u)"
    using fun_cong [OF assms, of u] by (simp add: passwords_def)
  then show ?thesis unfolding verify_password_def Some
    by (cases "map_of m u"; cases "map_of m' u") (simp_all split: option.splits outcome.splits)
qed

definition stored_passwords :: "User list \<Rightarrow> string \<Rightarrow> string option" where
  "stored_passwords us = map_of (rev (map (\<lambda>u. (User_uuid u, User_password u)) us))"

lemma passwords_load:
  "passwords (fold (\<lambda>x. map_assign (User_uuid x) \<lparr>user = x, lock_time = 0, cv_vector = []\<rparr>) us m) =
     passwords m ++ stored_passwords us"
  by (induction us arbitrary: m)
    (simp_all add: passwords_assign stored_passwords_def fun_eq_iff map_add_def split: option.splits)

section \<open>Requests of known users\<close>

text \<open>
  A request that names only users of a given set, and whose accounts, if it carries any, are of a
  given kind. \<open>carried\<close> are the accounts a request would store.
\<close>

definition carried :: "'d env \<Rightarrow> string \<Rightarrow> (string \<times> account list) option" where
  "carried E request =
     Option.bind (parse (json_lib E) request) (\<lambda>pDoc.
     Option.bind (get_string_value (json_lib E) pDoc ''/user'') (\<lambda>email.
     Option.bind (get_object_id (json_lib E) pDoc ''/accounts'') (\<lambda>i.
     Option.bind (array_elements (json_lib E) pDoc i) (\<lambda>es.
     map_option (\<lambda>as. (email, as)) (read_accounts (json_lib E) pDoc email es)))))"

definition admissible :: "string set \<Rightarrow> (account list \<Rightarrow> bool) \<Rightarrow> 'd env \<Rightarrow> string option \<Rightarrow> bool" where
  "admissible known fits E request \<longleftrightarrow>
     (case request of
        None \<Rightarrow> True
      | Some r \<Rightarrow>
          (case parse (json_lib E) r of
             None \<Rightarrow> True
           | Some pDoc \<Rightarrow>
               pred_option (\<lambda>e. e \<in> known) (get_string_value (json_lib E) pDoc ''/email'') \<and>
               pred_option (\<lambda>e. e \<in> known) (get_string_value (json_lib E) pDoc ''/user'') \<and>
               pred_option (\<lambda>(e, as). fits as) (carried E r)))"

section \<open>A server and its history\<close>

datatype event = Request int operation_type "string option" request_type | Restart

text \<open>After a restart the handler of the first thread loads the users; nothing is answered.\<close>

definition service_event :: "'s IDataStore \<Rightarrow> 'd env \<Rightarrow> event \<Rightarrow> ('s, string) handler" where
  "service_event V E ev st =
     (case ev of
        Request now op_type request http_type \<Rightarrow> handle_request V E now op_type request http_type st
      | Restart \<Rightarrow> on_ret (sync_handler V False (fresh_server (data st))) (\<lambda>_ st. (Ret [], st)))"

text \<open>A history ends where a request blocks for ever or its behaviour is undefined.\<close>

fun service_run :: "'s IDataStore \<Rightarrow> 'd env \<Rightarrow> event list \<Rightarrow> 's sync_state \<Rightarrow> (handler_error, string) outcome list \<times> 's sync_state" where
  "service_run V E [] st = ([], st)"
| "service_run V E (ev # evs) st =
     (case service_event V E ev st of
        (r, st') \<Rightarrow>
          if r = Blocked \<or> r = Undefined then ([r], st')
          else (case service_run V E evs st' of (rs, st'') \<Rightarrow> (r # rs, st'')))"

definition admissible_event :: "string set \<Rightarrow> (account list \<Rightarrow> bool) \<Rightarrow> 'd env \<Rightarrow> event \<Rightarrow> bool" where
  "admissible_event known fits E ev =
     (case ev of Request now op_type request http_type \<Rightarrow> admissible known fits E request | Restart \<Rightarrow> True)"

section \<open>Servers on two stores\<close>

definition related :: "('s \<Rightarrow> 'a \<Rightarrow> bool) \<Rightarrow> 's sync_state \<Rightarrow> 'a sync_state \<Rightarrow> bool" where
  "related sim st sa \<longleftrightarrow> sim (data st) (data sa) \<and> passwords (user_infos st) = passwords (user_infos sa) \<and>
     users_ok (user_infos st) \<and> users_ok (user_infos sa)"

lemma relatedD:
  assumes "related sim st sa"
  shows "sim (data st) (data sa)" "passwords (user_infos st) = passwords (user_infos sa)"
    "users_ok (user_infos st)" "users_ok (user_infos sa)"
  using assms by (simp_all add: related_def)

lemma related_assign:
  assumes "related sim st sa" "User_uuid u = k"
  shows "related sim (st\<lparr>user_infos := map_assign k \<lparr>user = u, lock_time = t, cv_vector = q\<rparr> (user_infos st)\<rparr>)
    (sa\<lparr>user_infos := map_assign k \<lparr>user = u, lock_time = t, cv_vector = q\<rparr> (user_infos sa)\<rparr>)"
  using assms by (simp add: related_def passwords_assign users_ok_assign)

lemma related_erase:
  "related sim st sa \<Longrightarrow>
    related sim (st\<lparr>user_infos := map_erase k (user_infos st)\<rparr>) (sa\<lparr>user_infos := map_erase k (user_infos sa)\<rparr>)"
  by (simp add: related_def passwords_erase users_ok_erase)

lemma agree_call [agree_intros]:
  "related sim st sa \<Longrightarrow> agree sim (f (data st)) (g (data sa)) \<Longrightarrow> agree (related sim) (call_store f st) (call_store g sa)"
  by (cases "f (data st)"; cases "g (data sa)") (simp add: agree_def call_store_def related_def)

lemma agree_on_ret [agree_intros]:
  assumes "agree rel r r'" "\<And>x st sa. r = (Ret x, st) \<Longrightarrow> r' = (Ret x, sa) \<Longrightarrow> rel st sa \<Longrightarrow> agree rel (k x st) (k' x sa)"
  shows "agree rel (on_ret r k) (on_ret r' k')"
  using assms by (elim agreeE) (auto simp: on_ret_def agree_def split: outcome.splits)

lemma agree_authenticate:
  assumes "related sim st sa"
    and "\<And>pDoc e. parse (json_lib E) request = Some pDoc \<Longrightarrow> get_string_value (json_lib E) pDoc ''/user'' = Some e \<Longrightarrow>
      authentic E request st \<Longrightarrow> agree (related sim) (k pDoc e st) (k' pDoc e sa)"
  shows "agree (related sim) (authenticate E status request k st) (authenticate E status request k' sa)"
proof (cases "parse (json_lib E) request")
  case None
  then show ?thesis using assms(1) by (auto simp: authenticate_def intro!: agreeI)
next
  case (Some pDoc)
  note v = passwords_verify [OF relatedD(2) [OF assms(1)]]
  let ?e = "get_string_value (json_lib E) pDoc ''/user''" and ?p = "get_string_value (json_lib E) pDoc ''/password''"
  show ?thesis
  proof (cases "verify_password (sha3_512 E) (user_infos st) ?e ?p = (Ret True :: (handler_error, bool) outcome)")
    case False
    have "agree (related sim) (authenticate E status request k st) (authenticate E status request k' sa)" if
      "verify_password (sha3_512 E) (user_infos sa) ?e ?p = r" "r \<noteq> Ret True" for r :: "(handler_error, bool) outcome"
      using that Some assms(1) by (cases r) (auto simp: authenticate_def Let_def v intro!: agreeI)
    with False v show ?thesis by metis
  next
    case True
    then have a: "authentic E request st" using Some by (auto simp: authentic_def)
    show ?thesis
      using True True [unfolded v] assms(1) assms(2) [OF Some _ a] Some
      by (cases ?e) (auto simp: authenticate_def Let_def intro!: agreeI)
  qed
qed

locale store_refinement =
  fixes V :: "'s IDataStore" and W :: "'a IDataStore" and sim :: "'s \<Rightarrow> 'a \<Rightarrow> bool"
    and known :: "string set" and fits :: "account list \<Rightarrow> bool"
  assumes load: "sim s a \<Longrightarrow> \<exists>us us' s' a'. getAllUsers V s = (Ret us, s') \<and> getAllUsers W a = (Ret us', a') \<and>
      sim s' a' \<and> stored_passwords us = stored_passwords us'"
    and create: "sim s a \<Longrightarrow> User_uuid u \<in> known \<Longrightarrow> agree sim (createUser V u s) (createUser W u a)"
    and delete: "sim s a \<Longrightarrow> User_uuid u \<in> known \<Longrightarrow> User_uuid u' = User_uuid u \<Longrightarrow>
      agree sim (delete_user_op V u s) (delete_user_op W u' a)"
    and get: "sim s a \<Longrightarrow> e \<in> known \<Longrightarrow> agree sim (get_accounts_for_user V e s) (get_accounts_for_user W e a)"
    and upsert: "sim s a \<Longrightarrow> e \<in> known \<Longrightarrow> list_all (\<lambda>x. account_uuid x = e) as \<Longrightarrow> fits as \<Longrightarrow>
      agree sim (upsert_accounts_for_user V e as s) (upsert_accounts_for_user W e as a)"
    and update: "sim s a \<Longrightarrow> e \<in> known \<Longrightarrow> agree sim (update_last_sync_for_user V e t s) (update_last_sync_for_user W e t a)"
begin

lemma register_user_agrees:
  assumes "related sim st sa" "email \<in> known"
  shows "agree (related sim) (register_user V E now email p h st) (register_user W E now email p h sa)"
proof -
  let ?u = "\<lparr>User_uuid = email, User_password = h, User_last_sync = 1\<rparr>"
  have c: "agree sim (createUser V ?u (data st)) (createUser W ?u (data sa))"
    by (rule create [OF relatedD(1) [OF assms(1)]]) (simp add: assms(2))
  show ?thesis
    unfolding register_user_def Let_def passwords_count [OF relatedD(2) [OF assms(1)]]
    using assms(1) c by (auto simp: related_assign related_erase intro!: agree_intros)
qed

lemma delete_account_agrees:
  assumes "related sim st sa" "email \<in> known"
  shows "agree (related sim) (delete_account V email st) (delete_account W email sa)"
proof (cases "map_of (user_infos st) email")
  case None
  then have "map_of (user_infos sa) email = None"
    using fun_cong [OF relatedD(2) [OF assms(1)], of email] by (simp add: passwords_def)
  then show ?thesis using None assms(1) by (auto simp: delete_account_def intro!: agree_intros)
next
  case (Some i)
  then obtain j where j: "map_of (user_infos sa) email = Some j"
    using fun_cong [OF relatedD(2) [OF assms(1)], of email] by (cases "map_of (user_infos sa) email") (auto simp: passwords_def)
  have "User_uuid (user i) = email" "User_uuid (user j) = email"
    using Some j relatedD(3,4) [OF assms(1)] by (auto simp: users_ok_def)
  then have "agree sim (delete_user_op V (user i) (data st)) (delete_user_op W (user j) (data sa))"
    using delete [OF relatedD(1) [OF assms(1)]] assms(2) by simp
  then show ?thesis
    using Some j assms(1) by (auto simp: delete_account_def related_erase intro!: agree_intros)
qed

lemma sync_accounts_agrees:
  assumes "related sim st sa" "email \<in> known"
  shows "agree (related sim) (sync_accounts V E now pDoc email st) (sync_accounts W E now pDoc email sa)"
  unfolding sync_accounts_def
  using get [OF relatedD(1) [OF assms(1)] assms(2)] assms(1)
  by (auto intro!: agree_intros split: option.splits outcome.splits)

lemma store_accounts_agrees:
  assumes "related sim st sa" "email \<in> known" "list_all (\<lambda>x. account_uuid x = email) as" "fits as"
  shows "agree (related sim) (store_accounts V now email as st) (store_accounts W now email as sa)"
  unfolding store_accounts_def
  using upsert [OF relatedD(1) [OF assms(1)] assms(2,3,4)] assms(1)
  by (auto intro!: agree_intros update assms(2) dest: relatedD(1))

lemma receive_accounts_agrees:
  assumes "related sim st sa" "email \<in> known"
    and "\<And>i es as. get_object_id (json_lib E) pDoc ''/accounts'' = Some i \<Longrightarrow> array_elements (json_lib E) pDoc i = Some es \<Longrightarrow>
      read_accounts (json_lib E) pDoc email es = Some as \<Longrightarrow> fits as"
  shows "agree (related sim) (receive_accounts V E now pDoc email st) (receive_accounts W E now pDoc email sa)"
proof -
  have "list_all (\<lambda>x. account_uuid x = email) as \<and> fits as" if "get_object_id (json_lib E) pDoc ''/accounts'' = Some i"
    "array_elements (json_lib E) pDoc i = Some es" "read_accounts (json_lib E) pDoc email es = Some as" for i es as
    using assms(3) [OF that] read_accounts_owner [OF that(3)] by (auto simp: list_all_iff)
  then show ?thesis
    using assms(1,2) by (auto simp: receive_accounts_def intro!: agreeI store_accounts_agrees split: option.splits)
qed

lemma dispatch_agrees:
  assumes "related sim st sa" "admissible known fits E request"
  shows "agree (related sim) (dispatch V E now op_type request http_type st) (dispatch W E now op_type request http_type sa)"
proof (cases request)
  case None
  then show ?thesis using assms(1) by (auto simp: dispatch_def handle_config_def intro!: agreeI split: operation_type.splits)
next
  case (Some r)
  have a: "e \<in> known" if "parse (json_lib E) r = Some pDoc"
    "get_string_value (json_lib E) pDoc ''/email'' = Some e \<or> get_string_value (json_lib E) pDoc ''/user'' = Some e" for pDoc e
    using assms(2) that Some by (auto simp: admissible_def)
  have f: "fits as" if "parse (json_lib E) r = Some pDoc" "get_string_value (json_lib E) pDoc ''/user'' = Some e"
    "get_object_id (json_lib E) pDoc ''/accounts'' = Some i" "array_elements (json_lib E) pDoc i = Some es"
    "read_accounts (json_lib E) pDoc e es = Some as" for pDoc e i es as
    using assms(2) that Some by (simp add: admissible_def carried_def)
  show ?thesis
  proof (cases op_type)
    case register_config
    show ?thesis
      using assms(1) a unfolding dispatch_def Some register_config
      by (auto simp: handle_register_def handle_config_def intro!: agreeI register_user_agrees split: option.splits outcome.splits)
  next
    case delete_user
    show ?thesis
      using assms(1) a unfolding dispatch_def Some delete_user
      by (auto simp: handle_delete_def intro!: agree_authenticate delete_account_agrees)
  next
    case sync_initial
    show ?thesis
      using assms(1) a unfolding dispatch_def Some sync_initial
      by (auto simp: handle_sync_initial_def intro!: agree_authenticate sync_accounts_agrees)
  next
    case sync_final
    show ?thesis
      using assms(1) a f unfolding dispatch_def Some sync_final
      by (auto simp: handle_sync_final_def intro!: agree_authenticate receive_accounts_agrees)
  qed
qed

lemma handle_request_agrees:
  assumes "related sim st sa" "admissible known fits E request"
  shows "agree (related sim) (handle_request V E now op_type request http_type st) (handle_request W E now op_type request http_type sa)"
  using dispatch_agrees [OF assms, of now op_type http_type]
  by (elim agreeE) (auto simp: handle_request_def agree_def split: outcome.splits handler_error.splits)

lemma restart_agrees:
  assumes "related sim st sa"
  shows "agree (related sim) (sync_handler V False (fresh_server (data st))) (sync_handler W False (fresh_server (data sa)))"
proof -
  obtain us us' s' a' where l: "getAllUsers V (data st) = (Ret us, s')" "getAllUsers W (data sa) = (Ret us', a')"
    "sim s' a'" "stored_passwords us = stored_passwords us'"
    using load [OF relatedD(1) [OF assms]] by blast
  then show ?thesis
    by (simp add: sync_handler_def fresh_server_def call_store_def on_ret_def agree_def related_def passwords_load users_ok_load)
qed

lemma service_event_agrees:
  assumes "related sim st sa" "admissible_event known fits E ev"
  shows "agree (related sim) (service_event V E ev st) (service_event W E ev sa)"
  using assms handle_request_agrees restart_agrees [OF assms(1)]
  by (cases ev) (auto simp: service_event_def admissible_event_def intro!: agree_intros)

lemma service_run_agrees:
  "related sim st sa \<Longrightarrow> list_all (admissible_event known fits E) evs \<Longrightarrow>
    fst (service_run V E evs st) = fst (service_run W E evs sa) \<and>
    related sim (snd (service_run V E evs st)) (snd (service_run W E evs sa))"
proof (induction evs arbitrary: st sa)
  case (Cons ev evs)
  from Cons.prems have "agree (related sim) (service_event V E ev st) (service_event W E ev sa)"
    by (intro service_event_agrees) simp_all
  then obtain r st' sa' where e: "service_event V E ev st = (r, st')" "service_event W E ev sa = (r, sa')" "related sim st' sa'"
    by (rule agreeE)
  from Cons.IH [OF e(3)] Cons.prems(2) e show ?case by (auto split: prod.splits)
qed simp

end

end
