(* ===== verification/Restart.thy ===== *)
theory Restart
  imports RedisServer UserMap
begin

text \<open>
  The users in the Redis database, and what a server finds when it starts: the handler of the first
  service thread loads them into the map that authenticates requests.
\<close>

section \<open>The users in the database\<close>

definition stored_users :: "redis_db \<Rightarrow> (string \<times> string) list" where
  "stored_users d = hash_of d ''USERS''"

definition users_db_ok :: "redis_db \<Rightarrow> bool" where
  "users_db_ok d \<longleftrightarrow> \<not> is_text d ''USERS'' \<and> distinct (map fst (stored_users d)) \<and>
     (\<forall>u \<in> fst ` set (stored_users d). is_text d (lastSync_key u))"

lemma key_ends: "last (lastSync_key u) = CHR ''c''" "last (accounts_key u) = CHR ''s''"
  "length (accounts_key u) = length u + 9" "length (lastSync_key u) = length u + 9"
  by (simp_all add: lastSync_key_def accounts_key_def)

lemma users_keys:
  "lastSync_key u \<noteq> ''USERS''" "accounts_key u \<noteq> ''USERS''" "lastSync_key u \<noteq> accounts_key v"
proof -
  show "lastSync_key u \<noteq> ''USERS''" using key_ends(4) [of u] by (intro notI) simp
  show "accounts_key u \<noteq> ''USERS''" using key_ends(3) [of u] by (intro notI) simp
  show "lastSync_key u \<noteq> accounts_key v" using key_ends(1) [of u] key_ends(2) [of v] by (intro notI) simp
qed

lemma lastSync_key_inj: "lastSync_key u = lastSync_key v \<longleftrightarrow> u = v"
  by (simp add: lastSync_key_def)

section \<open>Loading the users\<close>

definition loaded :: "int \<Rightarrow> redis_db \<Rightarrow> string \<times> string \<Rightarrow> User" where
  "loaded now d = (\<lambda>(u, p).
     (let t = (case d (lastSync_key u) of Some (Str s) \<Rightarrow> atol s | _ \<Rightarrow> 0)
      in \<lparr>User_uuid = u, User_password = p, User_last_sync = (if t < 1 then now else t)\<rparr>))"

lemma load_users_serves:
  assumes "serves R db pend good"
  shows "ready pend good c st \<Longrightarrow> db (net st) = d \<Longrightarrow> \<forall>u \<in> fst ` set xs. is_text d (lastSync_key u) \<Longrightarrow>
    \<exists>st'. load_users R now c (reply_pairs xs) users st = (Ret (True, rev (map (loaded now d) xs) @ users), st') \<and>
      ready pend good c st' \<and> db (net st') = d \<and> pool st' = pool st"
proof (induction xs arbitrary: users st)
  case Nil
  then show ?case by (simp add: reply_pairs_def)
next
  case (Cons up xs)
  obtain u p where up: "up = (u, p)" by (cases up)
  obtain s where s: "d (lastSync_key u) = Some (Str s)" using Cons.prems(3) up by (auto simp: is_text_def)
  obtain r st1 where c: "redis_command R c (command.GET (lastSync_key u)) st = (Some r, st1)"
    "redis_exec (command.GET (lastSync_key u)) d r (db (net st1))" "ready pend good c st1" "pool st1 = pool st"
    using command_serves [OF assms Cons.prems(1)] Cons.prems(2) by metis
  from c(2) s have r: "r = Reply_string s" "db (net st1) = d" by simp_all
  let ?u = "loaded now d (u, p)"
  obtain st' where "load_users R now c (reply_pairs xs) (?u # users) st1 =
      (Ret (True, rev (map (loaded now d) xs) @ ?u # users), st') \<and>
      ready pend good c st' \<and> db (net st') = d \<and> pool st' = pool st1"
    using Cons.IH [OF c(3) r(2)] Cons.prems(3) by fastforce
  then show ?case using c(1,4) r s up by (auto simp: reply_pairs_def areReplyErrors_def loaded_def Let_def)
qed

lemma getAllUsers_serves:
  assumes "serves R db pend good" "ready pend good c st" "connections (pool st) = c # cs"
    and "users_db_ok (db (net st))"
  shows "\<exists>st'. redis_getAllUsers R now (Suc n) True st =
      (Ret (rev (map (loaded now (db (net st))) (stored_users (db (net st))))), st') \<and> db (net st') = db (net st) \<and>
      ready pend good c st' \<and> connections (pool st') = c # cs"
proof -
  let ?d = "db (net st)" and ?s = "set_idle cs st"
  have s: "ready pend good c ?s" "db (net ?s) = ?d" using assms(2) by (simp_all add: set_idle_def ready_def)
  obtain r st1 where c: "redis_command R c (HGETALL ''USERS'') ?s = (Some r, st1)"
    "redis_exec (HGETALL ''USERS'') ?d r (db (net st1))" "ready pend good c st1" "pool st1 = pool ?s"
    using command_serves [OF assms(1) s(1)] s(2) by metis
  from c(2) assms(4) have r: "r = Reply_array (reply_pairs (stored_users ?d))" "db (net st1) = ?d"
    by (simp_all add: users_db_ok_def stored_users_def)
  have t: "\<forall>u \<in> fst ` set (stored_users ?d). is_text ?d (lastSync_key u)" using assms(4) by (simp add: users_db_ok_def)
  obtain st2 where l: "load_users R now c (reply_pairs (stored_users ?d)) [] st1 =
      (Ret (True, rev (map (loaded now ?d) (stored_users ?d)) @ []), st2)" "ready pend good c st2" "db (net st2) = ?d"
    "pool st2 = pool st1"
    using load_users_serves [OF assms(1) c(3) r(2) t] by blast
  have "\<not> redisErr R c (net st2)" using servesD(1) [OF assms(1)] l(2) by (simp add: ready_def)
  then have "db (net (releaseConnection R (Some c) st2)) = ?d \<and> ready pend good c (releaseConnection R (Some c) st2) \<and>
      connections (pool (releaseConnection R (Some c) st2)) = c # cs"
    using l(2-4) c(4) by (simp add: releaseConnection_def set_idle_def ready_def)
  moreover have "redis_getAllUsers R now (Suc n) True st =
      (Ret (rev (map (loaded now ?d) (stored_users ?d))), releaseConnection R (Some c) st2)"
    using assms(3) c(1) r(1) l(1)
    by (simp add: redis_getAllUsers_def attempt_users_def getConnection.simps areReplyErrors_def)
  ultimately show ?thesis by blast
qed

lemma loaded_simps [simp]: "User_uuid (loaded now d up) = fst up" "User_password (loaded now d up) = snd up"
  by (simp_all add: loaded_def Let_def split: prod.splits)

lemma map_of_loaded:
  "map_option (\<lambda>info. User_password (user info)) (map_of (map ((\<lambda>x. (User_uuid x, \<lparr>user = x, lock_time = 0, cv_vector = []\<rparr>)) \<circ> loaded now d) xs) u) =
     map_of xs u"
  by (induction xs) auto

text \<open>The start-up of a server on a database: who is registered afterwards.\<close>

lemma startup_serves:
  assumes "serves R db pend good" "ready pend good c st" "connections (pool st) = c # cs"
    and "users_db_ok (db (net st))"
  shows "\<exists>st'. sync_handler (RedisStore R now (Suc n)) False (fresh_server st) = (Ret True, st') \<and>
    (\<forall>u. map_option (\<lambda>info. User_password (user info)) (map_of (user_infos st') u) = map_of (stored_users (db (net st))) u)"
proof -
  let ?d = "db (net st)"
  let ?f = "\<lambda>x. \<lparr>user = x, lock_time = 0, cv_vector = []\<rparr> :: User_info"
  obtain st1 where g: "redis_getAllUsers R now (Suc n) True st = (Ret (rev (map (loaded now ?d) (stored_users ?d))), st1)"
    using getAllUsers_serves [OF assms] by blast
  let ?m = "fold (\<lambda>x. map_assign (User_uuid x) (?f x)) (rev (map (loaded now ?d) (stored_users ?d))) []"
  have "map_option (\<lambda>info. User_password (user info)) (map_of ?m u) = map_of (stored_users ?d) u" for u
    using map_of_loaded [of now ?d "stored_users ?d" u] unfolding map_of_load
    by (auto simp: rev_map split: option.splits)
  moreover have "sync_handler (RedisStore R now (Suc n)) False (fresh_server st) = (Ret True, \<lparr>user_infos = ?m, data = st1\<rparr>)"
    by (simp add: sync_handler_def fresh_server_def call_store_def RedisStore_def g on_ret_def)
  ultimately show ?thesis by (intro exI [of _ "\<lparr>user_infos = ?m, data = st1\<rparr>"]) simp
qed

section \<open>Creating a user\<close>

definition create_commands :: "User \<Rightarrow> command list" where
  "create_commands u =
     [HSET ''USERS'' (User_uuid u) (User_password u), SET (lastSync_key (User_uuid u)) (show_int (User_last_sync u)),
      DEL (accounts_key (User_uuid u))]"

lemma create_exec:
  assumes "exec_all (create_commands u) d d'" "users_db_ok d"
  shows "users_db_ok d' \<and> map_of (stored_users d') = (map_of (stored_users d))(User_uuid u \<mapsto> User_password u)"
proof -
  let ?l = "lastSync_key (User_uuid u)" and ?a = "accounts_key (User_uuid u)"
  obtain d1 where s: "set_hash d ''USERS'' ((map_of (hash_of d ''USERS''))(User_uuid u \<mapsto> User_password u)) d1"
    and d': "d' = (d1(?l \<mapsto> Str (show_int (User_last_sync u))))(?a := None)"
    using assms by (auto simp: create_commands_def users_db_ok_def)
  note h = set_hashD [OF s]
  have k: "d' ''USERS'' = d1 ''USERS''" using users_keys [of "User_uuid u"] by (simp add: d')
  then have u: "hash_of d' ''USERS'' = hash_of d1 ''USERS''" "\<not> is_text d' ''USERS''"
    using h(3) by (simp_all add: hash_of_def is_text_def)
  have t: "is_text d' (lastSync_key v)" if "v = User_uuid u \<or> is_text d (lastSync_key v)" for v
    using that h(4) [of "lastSync_key v"] users_keys [of v] users_keys(3) [of v "User_uuid u"]
    by (auto simp: d' is_text_def lastSync_key_inj)
  have "fst ` set (stored_users d') = insert (User_uuid u) (fst ` set (stored_users d))"
    using h(1) by (auto simp: stored_users_def u(1) keys_dom)
  then show ?thesis using assms(2) u h(1,2) t by (auto simp: users_db_ok_def stored_users_def)
qed

lemma createUser_serves:
  assumes "serves R db pend good" "ready pend good c st" "connections (pool st) = c # cs"
  shows "\<exists>st'. redis_createUser R u st = (Ret True, st') \<and> exec_all (create_commands u) (db (net st)) (db (net st')) \<and>
    ready pend good c st' \<and> connections (pool st') = c # cs"
proof -
  let ?body = "\<lambda>c st. ret_flag (pipeline R (create_commands u) c st)"
  have b: "\<exists>x st'. ?body c s = (Ret x, st') \<and> ready pend good c st' \<and> pool st' = pool s \<and>
      (fst x \<and> exec_all (create_commands u) (db (net st)) (db (net st')))"
    if "ready pend good c s" "net s = net st" for s
    using pipeline_serves [OF assms(1) that(1), of "create_commands u"] that(2) by (auto simp: ret_flag_def)
  have "\<exists>x st'. attempt R (False, ()) False ?body st = (Ret (x, True), st') \<and> ready pend good c st' \<and>
      connections (pool st') = c # cs \<and> (\<lambda>x w. fst x \<and> exec_all (create_commands u) (db (net st)) (db w)) x (net st')"
    by (rule attempt_serves [OF assms _ refl]) (use b in blast)
  then obtain x st' where a: "attempt R (False, ()) False ?body st = (Ret (x, True), st')" "ready pend good c st'"
    "connections (pool st') = c # cs" "fst x" "exec_all (create_commands u) (db (net st)) (db (net st'))" by blast
  have "x = (True, ())" using a(4) by (cases x) simp
  then have "redis_createUser R u st = (Ret True, st')"
    using a(1) by (simp add: redis_createUser_def result_flag_def REDIS_MAX_ATTEMPS_def numeral_3_eq_3 create_commands_def)
  with a show ?thesis by blast
qed

text \<open>A registration that was answered with a success, and what it asked the store for.\<close>

lemma register_creates:
  assumes "handle_request V E later register_config (Some request) POST st = (Ret r, st')"
  obtains pDoc email pass h where "parse (json_lib E) request = Some pDoc"
    "get_string_value (json_lib E) pDoc ''/email'' = Some email"
    "get_string_value (json_lib E) pDoc ''/password'' = Some pass"
    "(hash_password (sha3_512 E) pass :: (handler_error, string option) outcome) = Ret (Some h)"
    "createUser V \<lparr>User_uuid = email, User_password = h, User_last_sync = 1\<rparr> (data st) = (Ret True, data st')"
proof -
  have "fst (handle_register V E later request st) = Ret r" "snd (handle_register V E later request st) = st'"
    using assms by (auto simp: handle_request_def dispatch_def throw_reply_def
        split: prod.splits outcome.splits handler_error.splits)
  from register_success [OF this(1)] this(2) obtain pDoc email pass h where p: "parse (json_lib E) request = Some pDoc"
    "get_string_value (json_lib E) pDoc ''/email'' = Some email"
    "get_string_value (json_lib E) pDoc ''/password'' = Some pass"
    "(hash_password (sha3_512 E) pass :: (handler_error, string option) outcome) = Ret (Some h)"
    "fst (register_user V E later email pass h st) = Ret r"
    "snd (register_user V E later email pass h st) = st'" by metis
  with register_user_success(3) [OF p(5)] that show ?thesis by simp
qed

text \<open>
  A registration survives a restart. When the Redis server works and a registration has been
  answered with a success, a server that is started on the same database finishes loading the
  users in its first attempt and then accepts the registered password for the registered address;
  it knows exactly the users that were stored before, and the new one.
\<close>

theorem registration_survives_restart:
  assumes "serves R db pend good" "ready pend good c (data st)" "connections (pool (data st)) = c # cs"
    and "users_db_ok (db (net (data st)))"
    and "handle_request (RedisStore R now rounds) E later register_config (Some request) POST st = (Ret r, st')"
  shows "\<exists>pDoc email pass h st2.
    parse (json_lib E) request = Some pDoc \<and> get_string_value (json_lib E) pDoc ''/email'' = Some email \<and>
    get_string_value (json_lib E) pDoc ''/password'' = Some pass \<and>
    sync_handler (RedisStore R now2 (Suc n)) False (fresh_server (data st')) = (Ret True, st2) \<and>
    (verify_password (sha3_512 E) (user_infos st2) (Some email) (Some pass) :: (handler_error, bool) outcome) = Ret True \<and>
    (\<forall>u. map_option (\<lambda>info. User_password (user info)) (map_of (user_infos st2) u) =
       ((map_of (stored_users (db (net (data st)))))(email \<mapsto> h)) u)"
proof -
  obtain pDoc email pass h where p: "parse (json_lib E) request = Some pDoc"
    "get_string_value (json_lib E) pDoc ''/email'' = Some email"
    "get_string_value (json_lib E) pDoc ''/password'' = Some pass"
    "(hash_password (sha3_512 E) pass :: (handler_error, string option) outcome) = Ret (Some h)"
    "createUser (RedisStore R now rounds) \<lparr>User_uuid = email, User_password = h, User_last_sync = 1\<rparr> (data st) = (Ret True, data st')"
    by (rule register_creates [OF assms(5)])
  let ?u = "\<lparr>User_uuid = email, User_password = h, User_last_sync = 1\<rparr>"
  have cr: "redis_createUser R ?u (data st) = (Ret True, data st')" using p(5) by (simp add: RedisStore_def)
  obtain s1 where s1: "redis_createUser R ?u (data st) = (Ret True, s1)"
    "exec_all (create_commands ?u) (db (net (data st))) (db (net s1))" "ready pend good c s1" "connections (pool s1) = c # cs"
    using createUser_serves [OF assms(1-3)] by blast
  with cr have e: "s1 = data st'" by simp
  from create_exec [OF s1(2) assms(4)] have d: "users_db_ok (db (net s1))"
    "map_of (stored_users (db (net s1))) = (map_of (stored_users (db (net (data st)))))(email \<mapsto> h)" by simp_all
  obtain st2 where l: "sync_handler (RedisStore R now2 (Suc n)) False (fresh_server (data st')) = (Ret True, st2)"
    "\<forall>u. map_option (\<lambda>info. User_password (user info)) (map_of (user_infos st2) u) = map_of (stored_users (db (net s1))) u"
    using startup_serves [OF assms(1) s1(3,4) d(1), of now2 n] unfolding e by blast
  obtain info where i: "map_of (user_infos st2) email = Some info" "User_password (user info) = h"
    using l(2) [rule_format, of email] d(2) by auto
  from verify_registered [OF p(4) i] p l d(2) show ?thesis by auto
qed

theorem registration_survives_restart_witness:
  "\<exists>r st' h st2. handle_request (RedisStore mem_redis 7 3) (sample_env sample_registration) 5 register_config (Some ''{}'') POST
       (fresh_server (mem_redis_state (\<lambda>k. None))) = (Ret r, st') \<and>
     sync_handler (RedisStore mem_redis 8 1) False (fresh_server (data st')) = (Ret True, st2) \<and>
     map_option (\<lambda>info. User_password (user info)) (map_of (user_infos st2) ''ann@example.com'') = Some h"
proof -
  let ?st = "fresh_server (mem_redis_state (\<lambda>k. None))"
  have d: "data ?st = mem_redis_state (\<lambda>k. None)" "users_db_ok (mem_data (net (data ?st)))"
    by (simp_all add: fresh_server_def mem_redis_ready(3) users_db_ok_def stored_users_def is_text_def hash_of_def)
  have r: "ready (\<lambda>c. mem_sent) (\<lambda>c w. hashes_distinct (mem_data w)) () (data ?st)" "connections (pool (data ?st)) = () # []"
    unfolding d(1) by (rule mem_redis_ready(1) [OF empty_db(1)], rule mem_redis_ready(2))
  have "\<exists>s. redis_createUser mem_redis u (mem_redis_state (\<lambda>k. None)) = (Ret True, s)" for u
    using createUser_serves [OF mem_redis_serves r, of u] unfolding d(1) by blast
  then obtain f where f: "redis_createUser mem_redis u (mem_redis_state (\<lambda>k. None)) = (Ret True, f u)" for u by metis
  obtain r st' where h: "handle_request (RedisStore mem_redis 7 3) (sample_env sample_registration) 5 register_config
      (Some ''{}'') POST ?st = (Ret r, st')"
    by (simp add: handler_simps sample_simps fresh_server_def RedisStore_def f)
  from registration_survives_restart [OF mem_redis_serves r d(2) h, of 8 0] obtain pDoc email pass k st2 where
    p: "parse (json_lib (sample_env sample_registration)) ''{}'' = Some pDoc"
    "get_string_value (json_lib (sample_env sample_registration)) pDoc ''/email'' = Some email"
    "sync_handler (RedisStore mem_redis 8 (Suc 0)) False (fresh_server (data st')) = (Ret True, st2)"
    "\<forall>u. map_option (\<lambda>info. User_password (user info)) (map_of (user_infos st2) u) =
       ((map_of (stored_users (mem_data (net (data ?st)))))(email \<mapsto> k)) u" by blast
  from p(4) have k: "map_option (\<lambda>info. User_password (user info)) (map_of (user_infos st2) email) = Some k" by simp
  from p(1,2) have "email = ''ann@example.com''" by (auto simp: sample_simps)
  with p(3) k h show ?thesis by auto
qed

end
