(* ===== verification/Keys.thy ===== *)
theory Keys
  imports Restart "HOL-Library.Sublist"
begin

text \<open>
  The keys under which the Redis store keeps its users. They are built by appending to the address,
  so those of two users are apart unless one address continues the other with \<open>.account\<close>. What the
  operations of one user do to the keys of another follows; and what happens where they meet.
\<close>

section \<open>Separate addresses\<close>

definition key_of :: "string \<Rightarrow> string \<Rightarrow> bool" where
  "key_of u k \<longleftrightarrow> k = accounts_key u \<or> k = lastSync_key u \<or> prefix (account_key u []) k"

definition separate :: "string \<Rightarrow> string \<Rightarrow> bool" where
  "separate u v \<longleftrightarrow> \<not> prefix (u @ ''.account'') v \<and> \<not> prefix (v @ ''.account'') u"

lemma account_key_append: "account_key u n = account_key u [] @ n"
  by (simp add: account_key_def)

lemma key_ofI [simp, intro]: "key_of u (accounts_key u)" "key_of u (lastSync_key u)" "key_of u (account_key u n)"
  by (simp_all add: key_of_def account_key_append [of u n])

lemma key_of_tail:
  assumes "key_of u k"
  obtains x where "k = u @ x" "x = ''.accounts'' \<or> x = ''.lastSync'' \<or> (\<exists>n. x = ''.account.'' @ n)"
  using assms by (fastforce simp: key_of_def accounts_key_def lastSync_key_def account_key_def prefix_def)

lemma tail_dot: "x = ''.accounts'' \<or> x = ''.lastSync'' \<or> (\<exists>n. x = ''.account.'' @ n) \<Longrightarrow> 9 \<le> length x \<and> hd x = CHR ''.'' \<and> x \<noteq> []"
  by auto

text \<open>In \<open>.account.\<close> there is no dot but at the ends, so a tail can only start behind it.\<close>

lemma tails_apart:
  assumes "w @ x = y" "w \<noteq> []" "9 \<le> length x" "hd x = CHR ''.''" "x \<noteq> []"
    and "y = ''.accounts'' \<or> y = ''.lastSync'' \<or> (\<exists>n. y = ''.account.'' @ n)"
  shows "prefix ''.account'' w"
proof -
  have l: "9 < length y" using assms(1-3) by (cases w) auto
  then obtain n where n: "y = ''.account.'' @ n" using assms(6) by auto
  show ?thesis
  proof (cases "length w < 8")
    case True
    have d: "y ! length w = CHR ''.''" using assms(1,4,5) by (metis hd_conv_nth nth_append_length_plus add.right_neutral length_greater_0_conv)
    have "length w \<noteq> 0" using assms(2) by simp
    then have "length w = 1 \<or> length w = 2 \<or> length w = 3 \<or> length w = 4 \<or> length w = 5 \<or> length w = 6 \<or> length w = 7"
      using True by linarith
    with d show ?thesis unfolding n by (elim disjE) (simp_all add: nth_append)
  next
    case False
    then have "take 8 w = take 8 y" using assms(1) by auto
    also have "\<dots> = ''.account''" by (simp add: n)
    finally show ?thesis by (metis take_is_prefix)
  qed
qed

lemma keys_apart:
  assumes "separate u v" "u \<noteq> v" "key_of u k"
  shows "\<not> key_of v k"
proof
  assume "key_of v k"
  obtain x where x: "k = u @ x" "x = ''.accounts'' \<or> x = ''.lastSync'' \<or> (\<exists>n. x = ''.account.'' @ n)" by (rule key_of_tail [OF assms(3)])
  obtain y where y: "k = v @ y" "y = ''.accounts'' \<or> y = ''.lastSync'' \<or> (\<exists>n. y = ''.account.'' @ n)" by (rule key_of_tail [OF \<open>key_of v k\<close>])
  from x(1) y(1) obtain w where w: "u @ w = v \<and> x = w @ y \<or> u = v @ w \<and> w @ x = y"
    by (auto simp: append_eq_append_conv2)
  then have "w \<noteq> []" using assms(2) by auto
  with w tails_apart [of w y x] tails_apart [of w x y] tail_dot [OF x(2)] tail_dot [OF y(2)] x(2) y(2)
  have "prefix (u @ ''.account'') v \<or> prefix (v @ ''.account'') u" by (auto simp: same_prefix_prefix)
  with assms(1) show False by (simp add: separate_def)
qed

lemma users_key: "\<not> key_of u ''USERS''"
proof
  assume "key_of u ''USERS''"
  then obtain x where x: "''USERS'' = u @ x" "x = ''.accounts'' \<or> x = ''.lastSync'' \<or> (\<exists>n. x = ''.account.'' @ n)" by (rule key_of_tail)
  then have "9 \<le> length ''USERS''" using tail_dot [OF x(2)] by simp
  then show False by simp
qed

section \<open>What a command changes\<close>

fun written :: "command \<Rightarrow> string set" where
  "written (SET k v) = {k}"
| "written (DEL k) = {k}"
| "written (HSET k f v) = {k}"
| "written (HMSET k fvs) = {k}"
| "written (HDEL k f) = {k}"
| "written cmd = {}"

lemma exec_frame: "redis_exec cmd d r d' \<Longrightarrow> k \<notin> written cmd \<Longrightarrow> d' k = d k"
  by (cases cmd) (auto simp: set_hash_def split: if_splits)

lemma exec_all_frame: "exec_all cmds d d' \<Longrightarrow> k \<notin> (\<Union>cmd \<in> set cmds. written cmd) \<Longrightarrow> d' k = d k"
proof (induction cmds arbitrary: d)
  case (Cons cmd cmds)
  then obtain r d1 where "redis_exec cmd d r d1" "exec_all cmds d1 d'" by (auto simp del: redis_exec.simps)
  with Cons exec_frame show ?case by (metis UN_iff list.set_intros)
qed simp

text \<open>A database that agrees on the keys of a user holds the same accounts for it.\<close>

definition same_keys :: "string \<Rightarrow> redis_db \<Rightarrow> redis_db \<Rightarrow> bool" where
  "same_keys u d d' \<longleftrightarrow> (\<forall>k. key_of u k \<longrightarrow> d' k = d k)"

lemma same_keys_trans: "same_keys u d d1 \<Longrightarrow> same_keys u d1 d2 \<Longrightarrow> same_keys u d d2"
  by (simp add: same_keys_def)

lemma same_keys_view:
  assumes "same_keys u d d'"
  shows "user_ok d' u \<longleftrightarrow> user_ok d u" "redis_view d' u = redis_view d u" "is_text d' (lastSync_key u) \<longleftrightarrow> is_text d (lastSync_key u)"
proof -
  have "d' (accounts_key u) = d (accounts_key u)" "d' (account_key u n) = d (account_key u n)" "d' (lastSync_key u) = d (lastSync_key u)" for n
    using assms by (simp_all add: same_keys_def)
  then have h: "hash_of d' (accounts_key u) = hash_of d (accounts_key u)" "hash_of d' (account_key u n) = hash_of d (account_key u n)"
    "is_text d' (accounts_key u) = is_text d (accounts_key u)" "is_text d' (account_key u n) = is_text d (account_key u n)"
    "is_text d' (lastSync_key u) = is_text d (lastSync_key u)" for n
    unfolding hash_of_def is_text_def by simp_all
  show "user_ok d' u \<longleftrightarrow> user_ok d u" by (simp add: user_ok_def h)
  show "redis_view d' u = redis_view d u" by (simp add: fun_eq_iff redis_view_def h)
  show "is_text d' (lastSync_key u) \<longleftrightarrow> is_text d (lastSync_key u)" by (rule h)
qed

text \<open>Commands on the keys of one user, and on the hash of the users, leave a separate user alone.\<close>

lemma commands_apart:
  assumes "exec_all cmds d d'" "separate u v" "u \<noteq> v"
    and "\<And>cmd k. cmd \<in> set cmds \<Longrightarrow> k \<in> written cmd \<Longrightarrow> key_of v k \<or> k = ''USERS''"
  shows "same_keys u d d'"
  unfolding same_keys_def
proof (intro allI impI)
  fix k
  assume k: "key_of u k"
  have "k \<notin> (\<Union>cmd \<in> set cmds. written cmd)"
    using assms(4) keys_apart [OF assms(2,3) k] users_key k by blast
  with exec_all_frame [OF assms(1)] show "d' k = d k" by blast
qed

section \<open>Where the keys of two users meet\<close>

lemma keys_meet:
  "accounts_key (u @ ''.account'') = account_key u ''accounts''"
  "lastSync_key (u @ ''.account'') = account_key u ''lastSync''"
  "account_key (u @ ''.account'') n = account_key u (''account.'' @ n)"
  by (simp_all add: accounts_key_def lastSync_key_def account_key_def)

text \<open>
  C11: a registration can delete an account of someone else. With a working Redis server, a user
  who registers the address of another one followed by \<open>.account\<close> destroys the account named
  \<open>accounts\<close> of that other user, because its key is the key of the new user's list of accounts, and
  leaves a text where the account named \<open>lastSync\<close> is kept, so that it can no longer be read.
\<close>

theorem registration_deletes_account:
  assumes "serves R db pend good" "ready pend good c (data st)" "connections (pool (data st)) = c # cs"
    and "users_db_ok (db (net (data st)))"
    and "handle_request (RedisStore R t rounds) E now register_config (Some request) POST st = (Ret r, st')"
    and "Option.bind (parse (json_lib E) request) (\<lambda>pDoc. get_string_value (json_lib E) pDoc ''/email'') = Some (u @ ''.account'')"
  shows "redis_view (db (net (data st'))) u ''accounts'' = None \<and> is_text (db (net (data st'))) (account_key u ''lastSync'')"
proof -
  let ?d = "db (net (data st))" and ?d' = "db (net (data st'))" and ?v = "u @ ''.account''"
  obtain pDoc email pass h where p: "parse (json_lib E) request = Some pDoc"
    "get_string_value (json_lib E) pDoc ''/email'' = Some email"
    "createUser (RedisStore R t rounds) \<lparr>User_uuid = email, User_password = h, User_last_sync = 1\<rparr> (data st) = (Ret True, data st')"
    by (rule register_creates [OF assms(5)])
  then have v: "email = ?v" using assms(6) by simp
  let ?u = "\<lparr>User_uuid = ?v, User_password = h, User_last_sync = 1\<rparr>"
  obtain s1 where "redis_createUser R ?u (data st) = (Ret True, s1)" "exec_all (create_commands ?u) ?d (db (net s1))"
    using createUser_serves [OF assms(1-3)] by blast
  with p(3) have x: "exec_all (create_commands ?u) ?d ?d'" by (simp add: v RedisStore_def)
  then obtain d1 where "?d' = (d1(lastSync_key ?v \<mapsto> Str (show_int 1)))(accounts_key ?v := None)"
    by (auto simp: create_commands_def split: if_splits)
  then have "?d' (accounts_key ?v) = None" "?d' (lastSync_key ?v) = Some (Str (show_int 1))"
    by (simp_all add: users_keys(3))
  then show ?thesis unfolding keys_meet by (simp add: redis_view_def hash_of_def is_text_def)
qed

text \<open>Ann has an account named \<open>accounts\<close>; someone registers an address that continues hers.\<close>

definition ann_accounts_db :: redis_db where
  "ann_accounts_db =
     [accounts_key ''ann@example.com'' \<mapsto> Hash [(''accounts'', ''1'')],
      account_key ''ann@example.com'' ''accounts'' \<mapsto> Hash [(''account_name'', ''accounts''), (''user_name'', ''ann''),
        (''password'', ''pw''), (''old_password'', []), (''url'', ''http://x''), (''update_time'', ''17''), (''deleted'', ''0'')]]"

definition look_alike_registration :: sample_doc where
  "look_alike_registration =
     \<lparr>strings = [(''/email'', ''ann@example.com.account''), (''/password'', ''secret'')], longs = [], objects = []\<rparr>"

lemma look_alike_email: "verify_email ''ann@example.com.account''"
  by code_simp

theorem registration_deletes_account_witness:
  "redis_view ann_accounts_db ''ann@example.com'' ''accounts'' \<noteq> None \<and>
   (\<exists>r st'. handle_request (RedisStore mem_redis 7 3) (sample_env look_alike_registration) 5 register_config (Some ''{}'') POST
       (fresh_server (mem_redis_state ann_accounts_db)) = (Ret r, st') \<and>
     redis_view (mem_data (net (data st'))) ''ann@example.com'' ''accounts'' = None)"
proof
  let ?st = "fresh_server (mem_redis_state ann_accounts_db)"
  show "redis_view ann_accounts_db ''ann@example.com'' ''accounts'' \<noteq> None"
    by (simp add: redis_view_def ann_accounts_db_def hash_of_def account_keys)
  have dist: "hashes_distinct ann_accounts_db"
    by (auto simp: hashes_distinct_def ann_accounts_db_def hash_of_def)
  have d: "data ?st = mem_redis_state ann_accounts_db" "users_db_ok (mem_data (net (data ?st)))"
    by (simp_all add: fresh_server_def mem_redis_ready(3) users_db_ok_def stored_users_def is_text_def hash_of_def
        ann_accounts_db_def accounts_key_def account_key_def)
  have r: "ready (\<lambda>c. mem_sent) (\<lambda>c w. hashes_distinct (mem_data w)) () (data ?st)" "connections (pool (data ?st)) = () # []"
    unfolding d(1) by (rule mem_redis_ready(1) [OF dist], rule mem_redis_ready(2))
  have "\<exists>s. redis_createUser mem_redis u (mem_redis_state ann_accounts_db) = (Ret True, s)" for u
    using createUser_serves [OF mem_redis_serves r, of u] unfolding d(1) by blast
  then obtain f where f: "redis_createUser mem_redis u (mem_redis_state ann_accounts_db) = (Ret True, f u)" for u by metis
  obtain q st' where h: "handle_request (RedisStore mem_redis 7 3) (sample_env look_alike_registration) 5 register_config
      (Some ''{}'') POST ?st = (Ret q, st')"
    by (simp add: handler_simps sample_simps fresh_server_def RedisStore_def f look_alike_registration_def look_alike_email)
  have "Option.bind (parse (json_lib (sample_env look_alike_registration)) ''{}'')
      (\<lambda>pDoc. get_string_value (json_lib (sample_env look_alike_registration)) pDoc ''/email'') = Some (''ann@example.com'' @ ''.account'')"
    by (simp add: look_alike_registration_def sample_simps)
  from registration_deletes_account [OF mem_redis_serves r d(2) h this] h
  show "\<exists>r st'. handle_request (RedisStore mem_redis 7 3) (sample_env look_alike_registration) 5 register_config (Some ''{}'') POST ?st = (Ret r, st') \<and>
     redis_view (mem_data (net (data st'))) ''ann@example.com'' ''accounts'' = None" by blast
qed

end
