(* ===== verification/EndToEnd.thy ===== *)
theory EndToEnd
  imports Restart Synchronisation
begin

text \<open>
  The handler of sync-final and the Redis store together: what a client finds after its accounts
  were accepted, with a server that works and with one that cannot be reached.
\<close>

section \<open>Storing the time of a synchronisation\<close>

lemma lastSync_view:
  fixes d :: redis_db and u s :: string
  defines "d' \<equiv> d(lastSync_key u \<mapsto> Str s)"
  shows "user_ok d u \<Longrightarrow> user_ok d' u" "redis_view d' u = redis_view d u"
proof -
  have k: "lastSync_key u \<noteq> accounts_key u" "lastSync_key u \<noteq> account_key u n" for n
    by (simp_all add: lastSync_key_def accounts_key_def account_key_def)
  have s: "d' (accounts_key u) = d (accounts_key u)" "d' (account_key u n) = d (account_key u n)" for n
    unfolding d'_def by (rule fun_upd_other, use k in metis)+
  have h: "hash_of d' (accounts_key u) = hash_of d (accounts_key u)" "hash_of d' (account_key u n) = hash_of d (account_key u n)"
    "is_text d' (accounts_key u) = is_text d (accounts_key u)" "is_text d' (account_key u n) = is_text d (account_key u n)" for n
    unfolding hash_of_def is_text_def s by simp_all
  show "user_ok d u \<Longrightarrow> user_ok d' u" by (simp add: user_ok_def h)
  show "redis_view d' u = redis_view d u" by (simp add: fun_eq_iff redis_view_def h)
qed

lemma update_last_sync_serves:
  assumes "serves R db pend good" "ready pend good c st" "connections (pool st) = c # cs"
  shows "\<exists>st'. redis_update_last_sync R u time st = (Ret True, st') \<and> ready pend good c st' \<and> connections (pool st') = c # cs \<and>
    db (net st') = (db (net st))(lastSync_key u \<mapsto> Str (show_int time))"
proof -
  let ?cmds = "[SET (lastSync_key u) (show_int time)]"
  let ?body = "\<lambda>c st. ret_flag (pipeline R ?cmds c st)"
  let ?P = "\<lambda>x w. fst x \<and> db w = (db (net st))(lastSync_key u \<mapsto> Str (show_int time))"
  have "\<exists>x st'. attempt R (True, ()) False ?body st = (Ret (x, True), st') \<and> ready pend good c st' \<and>
      connections (pool st') = c # cs \<and> ?P x (net st')"
  proof (rule attempt_serves [OF assms _ refl])
    fix s
    assume s: "ready pend good c s" "net s = net st"
    show "\<exists>x st'. ?body c s = (Ret x, st') \<and> ready pend good c st' \<and> pool st' = pool s \<and> ?P x (net st')"
      using pipeline_serves [OF assms(1) s(1), of ?cmds] s(2) by (auto simp: ret_flag_def)
  qed
  then obtain x st' where a: "attempt R (True, ()) False ?body st = (Ret (x, True), st')" "ready pend good c st'"
    "connections (pool st') = c # cs" "?P x (net st')" by blast
  then have "redis_update_last_sync R u time st = (Ret True, st')"
    by (cases x) (simp add: redis_update_last_sync_def result_flag_def)
  with a show ?thesis by blast
qed

section \<open>The reply of the handler\<close>

text \<open>An authentic request whose accounts can be read, and both operations of the store succeed.\<close>

definition carries :: "'d env \<Rightarrow> string \<Rightarrow> string \<Rightarrow> account list \<Rightarrow> bool" where
  "carries E request email accts \<longleftrightarrow>
     (\<exists>pDoc i es. parse (json_lib E) request = Some pDoc \<and> get_string_value (json_lib E) pDoc ''/user'' = Some email \<and>
        get_object_id (json_lib E) pDoc ''/accounts'' = Some i \<and> array_elements (json_lib E) pDoc i = Some es \<and>
        read_accounts (json_lib E) pDoc email es = Some accts)"

lemma sync_final_accepts:
  assumes "authentic E request st" "carries E request email accts"
    and "upsert_accounts_for_user V email accts (data st) = (Ret True, s')"
    and "update_last_sync_for_user V email now s' = (Ret True, s'')"
  shows "handle_request V E now sync_final (Some request) POST st = (Ret sync_final_resp, st\<lparr>data := s''\<rparr>)"
proof -
  obtain pDoc i es where d: "parse (json_lib E) request = Some pDoc" "get_string_value (json_lib E) pDoc ''/user'' = Some email"
    "get_object_id (json_lib E) pDoc ''/accounts'' = Some i" "array_elements (json_lib E) pDoc i = Some es"
    "read_accounts (json_lib E) pDoc email es = Some accts"
    using assms(2) by (auto simp: carries_def)
  have "receive_accounts V E now pDoc email st = (Ret sync_final_resp, st\<lparr>data := s''\<rparr>)"
    using d(3-5) assms(3,4) by (simp add: receive_accounts_def store_accounts_def call_store_def on_ret_def)
  then show ?thesis
    by (simp add: handle_request_def dispatch_def handle_sync_final_def authenticate_success(2) [OF d(1,2) assms(1)])
qed

lemma carries_owner: "carries E request email accts \<Longrightarrow> a \<in> set accts \<Longrightarrow> account_uuid a = email"
  using read_accounts_owner by (auto simp: carries_def)

text \<open>
  With a Redis server that works, an authentic sync-final is answered with a success, and what
  the next synchronisation of the user reads from the store is what the store held before,
  overridden by the accounts of the request: each with all its fields as the client sent them, the
  last one where a name occurs twice. The users of the server are as before.
\<close>

theorem sync_final_stored:
  assumes "serves R db pend good" "ready pend good c (data st)" "connections (pool (data st)) = c # cs"
    and "user_ok (db (net (data st))) email" "view_fits (db (net (data st))) email"
    and "authentic E request st" "carries E request email accts"
    and "list_all (\<lambda>a. in_long (update_time a) \<and> account_fits a) accts"
  shows "\<exists>st' m s. handle_request (RedisStore R t rounds) E now sync_final (Some request) POST st = (Ret sync_final_resp, st') \<and>
    user_infos st' = user_infos st \<and>
    get_accounts_for_user (RedisStore R t rounds) email (data st') = (Ret m, s) \<and> smap_inv m \<and>
    map_of m = redis_view (db (net (data st))) email ++ newest_of accts"
proof -
  have a: "list_all (\<lambda>a. account_uuid a = email \<and> in_long (update_time a)) accts"
    using assms(8) carries_owner [OF assms(7)] by (auto simp: list_all_iff)
  obtain s1 where u: "redis_upsert R email accts (data st) = (Ret True, s1)" "ready pend good c s1"
    "connections (pool s1) = c # cs" "user_ok (db (net s1)) email"
    "redis_view (db (net s1)) email = redis_view (db (net (data st))) email ++ newest_of accts"
    using upsert_serves [OF assms(1-4) a] by blast
  obtain s2 where l: "redis_update_last_sync R email now s1 = (Ret True, s2)" "ready pend good c s2"
    "connections (pool s2) = c # cs" "db (net s2) = (db (net s1))(lastSync_key email \<mapsto> Str (show_int now))"
    using update_last_sync_serves [OF assms(1) u(2,3)] by blast
  have ok: "user_ok (db (net s2)) email" unfolding l(4) by (rule lastSync_view(1) [OF u(4)])
  have v: "redis_view (db (net s2)) email = redis_view (db (net (data st))) email ++ newest_of accts"
    unfolding l(4) lastSync_view(2) by (rule u(5))
  have "account_fits x" if "newest_of accts n = Some x" for n x
    using map_of_SomeD [OF that [unfolded newest_of_def]] assms(8) by (auto simp: list_all_iff)
  then have "view_fits (db (net s2)) email"
    using assms(5) by (auto simp: view_fits_def v map_add_Some_iff)
  from redis_get_accounts_view [OF assms(1) l(2,3) ok this] obtain m s where
    "redis_get_accounts R email s2 = (Ret m, s)" "smap_inv m" "map_of m = redis_view (db (net s2)) email" by blast
  moreover have "handle_request (RedisStore R t rounds) E now sync_final (Some request) POST st =
      (Ret sync_final_resp, st\<lparr>data := s2\<rparr>)"
    by (rule sync_final_accepts [OF assms(6,7), where s' = s1]) (simp_all add: RedisStore_def u(1) l(1))
  ultimately show ?thesis using v by (simp add: RedisStore_def)
qed

definition ann_on :: "'s \<Rightarrow> 's sync_state" where
  "ann_on s = \<lparr>user_infos = [(''ann@example.com'', \<lparr>user = ann, lock_time = 0, cv_vector = []\<rparr>)], data = s\<rparr>"

definition ann_upload :: sample_doc where
  "ann_upload = ann_request ''secret'' []
     [([(''accountName'', ''mail''), (''userName'', ''ann''), (''password'', ''pw''), (''oldPassword'', []),
        (''url'', ''http://mail'')], 17)]"

definition ann_mail :: account where
  "ann_mail = \<lparr>account_name = ''mail'', account_uuid = ''ann@example.com'', user_name = ''ann'', password = ''pw'',
     old_password = [], url = ''http://mail'', update_time = 17, deleted = False\<rparr>"

lemma ann_uploads:
  "authentic (sample_env ann_upload) ''{}'' (ann_on s)" "carries (sample_env ann_upload) ''{}'' ''ann@example.com'' [ann_mail]"
proof -
  show "authentic (sample_env ann_upload) ''{}'' (ann_on s)"
    by (simp add: authentic_def verify_password_def ann_on_def ann_upload_def sample_simps)
  show "carries (sample_env ann_upload) ''{}'' ''ann@example.com'' [ann_mail]"
    by (simp add: carries_def ann_upload_def ann_mail_def read_account_def sample_simps)
qed

theorem sync_final_stored_witness:
  "\<exists>st' m s. handle_request (RedisStore mem_redis 7 3) (sample_env ann_upload) 5 sync_final (Some ''{}'') POST
       (ann_on (mem_redis_state (\<lambda>k. None))) = (Ret sync_final_resp, st') \<and>
     get_accounts_for_user (RedisStore mem_redis 7 3) ''ann@example.com'' (data st') = (Ret m, s) \<and>
     map_of m ''mail'' = Some ann_mail"
proof -
  let ?st = "ann_on (mem_redis_state (\<lambda>k. None))"
  have d: "data ?st = mem_redis_state (\<lambda>k. None)" by (simp add: ann_on_def)
  note r = mem_redis_ready [where d = "\<lambda>k. None"]
  have f: "list_all (\<lambda>a. in_long (update_time a) \<and> account_fits a) [ann_mail]"
    by (simp add: ann_mail_def in_long_def account_fits_def account_strings_def row_length_def)
  have p: "ready (\<lambda>c. mem_sent) (\<lambda>c w. hashes_distinct (mem_data w)) () (data ?st)" "connections (pool (data ?st)) = () # []"
    "user_ok (mem_data (net (data ?st))) ''ann@example.com''" "view_fits (mem_data (net (data ?st))) ''ann@example.com''"
    "redis_view (mem_data (net (data ?st))) ''ann@example.com'' = (\<lambda>n. None)"
    unfolding d r(3) using r(1) [OF empty_db(1)] r(2) empty_db(2-4) by simp_all
  from sync_final_stored [OF mem_redis_serves p(1-4) ann_uploads f, of 7 3 5] obtain st' m s where w:
    "handle_request (RedisStore mem_redis 7 3) (sample_env ann_upload) 5 sync_final (Some ''{}'') POST ?st = (Ret sync_final_resp, st')"
    "get_accounts_for_user (RedisStore mem_redis 7 3) ''ann@example.com'' (data st') = (Ret m, s)"
    "map_of m = redis_view (mem_data (net (data ?st))) ''ann@example.com'' ++ newest_of [ann_mail]" by blast
  have "newest_of [ann_mail] ''mail'' = Some ann_mail" by (simp add: newest_of_def ann_mail_def)
  then have "map_of m ''mail'' = Some ann_mail" unfolding w(3) by (rule map_add_find_right)
  with w(1,2) show ?thesis by blast
qed

text \<open>
  C31: accounts can be lost without an error. When no connection is idle and the Redis server
  refuses connections, an authentic sync-final with accounts is still answered with a success,
  although the store was not reached; the next synchronisation reads no account at all.
\<close>

theorem sync_final_unreachable:
  assumes "unreachable R (data st)" "authentic E request st" "carries E request email accts"
  shows "\<exists>st'. handle_request (RedisStore R t rounds) E now sync_final (Some request) POST st = (Ret sync_final_resp, st') \<and>
    user_infos st' = user_infos st \<and> net (data st') = net (data st) \<and>
    fst (get_accounts_for_user (RedisStore R t rounds) email (data st')) = Ret []"
proof -
  let ?s1 = "add_count (- 1) (data st)"
  have u: "unreachable R ?s1" "unreachable R (add_count (- 1) ?s1)"
    using assms(1) by (simp_all add: unreachable_def add_count_def)
  have "handle_request (RedisStore R t rounds) E now sync_final (Some request) POST st =
      (Ret sync_final_resp, st\<lparr>data := add_count (- 1) ?s1\<rparr>)"
    by (rule sync_final_accepts [OF assms(2,3), where s' = ?s1])
      (simp_all add: RedisStore_def redis_unreachable [OF assms(1)] redis_unreachable [OF u(1)])
  then show ?thesis using redis_unreachable [OF u(2), of email] by (simp add: RedisStore_def add_count_def)
qed

theorem sync_final_unreachable_witness:
  "\<exists>st'. handle_request (RedisStore refusing_redis 7 3) (sample_env ann_upload) 5 sync_final (Some ''{}'') POST
       (ann_on \<lparr>pool = \<lparr>connections = [], currentConnections = 3\<rparr>, net = ()\<rparr>) = (Ret sync_final_resp, st') \<and>
     fst (get_accounts_for_user (RedisStore refusing_redis 7 3) ''ann@example.com'' (data st')) = Ret []"
proof -
  let ?s = "\<lparr>pool = \<lparr>connections = [], currentConnections = 3\<rparr>, net = ()\<rparr> :: (nat, unit) store_state"
  have "unreachable refusing_redis (data (ann_on ?s))"
    by (simp add: unreachable_def refusing_redis_def default_config_def ann_on_def)
  from sync_final_unreachable [OF this ann_uploads, of 7 3 5] show ?thesis by blast
qed

end
