(* ===== verification/RedisRefines.thy ===== *)
theory RedisRefines
  imports StoreRefinement Keys EndToEnd
begin

text \<open>
  The Redis store implements an abstract store: two maps, from the registered addresses to their
  passwords and from addresses to accounts, and operations that never fail. The relation between
  the two holds as long as the Redis server works and the addresses are separate; so a server on Redis
  answers every history of requests and restarts as one on the abstract store.
\<close>

section \<open>The abstract store\<close>

record abstract_db =
  abs_users :: "string smap"
  abs_accounts :: "string \<Rightarrow> account smap"

definition abstract_store :: "abstract_db IDataStore" where
  "abstract_store = \<lparr>
     getAllUsers = (\<lambda>a. (Ret (map (\<lambda>(u, p). \<lparr>User_uuid = u, User_password = p, User_last_sync = 0\<rparr>) (abs_users a)), a)),
     createUser = (\<lambda>u a. (Ret True, a\<lparr>abs_users := map_assign (User_uuid u) (User_password u) (abs_users a),
       abs_accounts := (abs_accounts a)(User_uuid u := [])\<rparr>)),
     delete_user_op = (\<lambda>u a. (Ret True, a\<lparr>abs_users := map_erase (User_uuid u) (abs_users a),
       abs_accounts := (abs_accounts a)(User_uuid u := [])\<rparr>)),
     get_accounts_for_user = (\<lambda>e a. (Ret (abs_accounts a e), a)),
     upsert_accounts_for_user = (\<lambda>e as a. (Ret True, a\<lparr>abs_accounts := (abs_accounts a)
       (e := fold (\<lambda>x. map_assign (account_name x) x) as (abs_accounts a e))\<rparr>)),
     update_last_sync_for_user = (\<lambda>e t a. (Ret True, a))\<rparr>"

lemma map_of_store_accounts:
  "map_of (fold (\<lambda>x. map_assign (account_name x) x) as m) = map_of m ++ newest_of as"
  by (induction as arbitrary: m) (simp_all add: newest_of_def map_of_assign fun_eq_iff map_add_def split: option.splits)

lemma smap_inv_store_accounts: "smap_inv m \<Longrightarrow> smap_inv (fold (\<lambda>x. map_assign (account_name x) x) as m)"
  by (induction as arbitrary: m) (simp_all add: smap.inv_assign)

section \<open>Operations as sequences of commands\<close>

lemma exec_all_append: "exec_all (xs @ ys) d d' \<longleftrightarrow> (\<exists>d1. exec_all xs d d1 \<and> exec_all ys d1 d')"
  by (induction xs arbitrary: d) (auto simp del: redis_exec.simps)

lemma pipeline_attempt:
  assumes "serves R db pend good" "ready pend good c st" "connections (pool st) = c # cs"
  shows "\<exists>st'. attempt R y False (\<lambda>c st. ret_flag (pipeline R cmds c st)) st = (Ret ((True, ()), True), st') \<and>
    exec_all cmds (db (net st)) (db (net st')) \<and> ready pend good c st' \<and> connections (pool st') = c # cs"
proof -
  let ?body = "\<lambda>c st. ret_flag (pipeline R cmds c st)"
  have "\<exists>x st'. attempt R y False ?body st = (Ret (x, True), st') \<and> ready pend good c st' \<and>
      connections (pool st') = c # cs \<and> (\<lambda>x w. x = (True, ()) \<and> exec_all cmds (db (net st)) (db w)) x (net st')"
  proof (rule attempt_serves [OF assms _ refl])
    fix s
    assume "ready pend good c s" "net s = net st"
    then show "\<exists>x st'. ?body c s = (Ret x, st') \<and> ready pend good c st' \<and> pool st' = pool s \<and>
        (\<lambda>x w. x = (True, ()) \<and> exec_all cmds (db (net st)) (db w)) x (net st')"
      using pipeline_serves [OF assms(1), of c s cmds] by (auto simp: ret_flag_def)
  qed
  then show ?thesis by auto
qed

lemma upsert_commands_serve:
  assumes "serves R db pend good" "ready pend good c st" "connections (pool st) = c # cs"
  shows "\<exists>st'. redis_upsert R u as st = (Ret True, st') \<and> exec_all (upsert_commands u as) (db (net st)) (db (net st')) \<and>
    ready pend good c st' \<and> connections (pool st') = c # cs"
  using pipeline_attempt [OF assms, of "(True, ())" "upsert_commands u as"]
  by (auto simp: redis_upsert_def result_flag_def upsert_commands_def)

definition delete_commands :: "redis_db \<Rightarrow> string \<Rightarrow> command list" where
  "delete_commands d u = map (\<lambda>n. DEL (account_key u n)) (map fst (hash_of d (accounts_key u))) @
     [DEL (accounts_key u), HDEL ''USERS'' u, DEL (lastSync_key u)]"

lemma delete_commands_serve:
  assumes "serves R db pend good" "ready pend good c st" "connections (pool st) = c # cs"
    and "\<not> is_text (db (net st)) (accounts_key (User_uuid u))"
  shows "\<exists>st'. redis_delete_user R u st = (Ret True, st') \<and>
    exec_all (delete_commands (db (net st)) (User_uuid u)) (db (net st)) (db (net st')) \<and>
    ready pend good c st' \<and> connections (pool st') = c # cs"
proof -
  let ?e = "User_uuid u" and ?d = "db (net st)"
  let ?names = "map fst (hash_of ?d (accounts_key ?e))"
  let ?last = "[DEL (accounts_key ?e), HDEL ''USERS'' ?e, DEL (lastSync_key ?e)]"
  let ?body = "\<lambda>c st.
    case redis_command R c (HKEYS (accounts_key ?e)) st of
      (reply, st) \<Rightarrow>
        if areReplyErrors reply then (Ret (False, ()), st)
        else
          (case reply of
             Some (Reply_array rs) \<Rightarrow>
               (case reply_names rs of
                  None \<Rightarrow> (Undefined, st)
                | Some names \<Rightarrow>
                    seq_op (pipeline R (map (\<lambda>n. DEL (account_key ?e n)) names) c st) (\<lambda>ok st.
                      if \<not> ok then (Ret (False, ()), st) else ret_flag (pipeline R ?last c st)))
           | _ \<Rightarrow> (Ret (False, ()), st))"
  let ?P = "\<lambda>x w. x = (True, ()) \<and> exec_all (delete_commands ?d ?e) ?d (db w)"
  have "\<exists>x st'. attempt R (False, ()) False ?body st = (Ret (x, True), st') \<and> ready pend good c st' \<and>
      connections (pool st') = c # cs \<and> ?P x (net st')"
  proof (rule attempt_serves [OF assms(1-3) _ refl])
    fix s
    assume s: "ready pend good c s" "net s = net st"
    obtain r s1 where r: "redis_command R c (HKEYS (accounts_key ?e)) s = (Some r, s1)"
      "redis_exec (HKEYS (accounts_key ?e)) ?d r (db (net s1))" "ready pend good c s1" "pool s1 = pool s"
      using command_serves [OF assms(1) s(1)] s(2) by metis
    then have k: "r = Reply_array (map (Reply_string \<circ> fst) (hash_of ?d (accounts_key ?e)))" "db (net s1) = ?d"
      using assms(4) by simp_all
    obtain s2 where p: "pipeline R (map (\<lambda>n. DEL (account_key ?e n)) ?names) c s1 = (Ret True, s2)"
      "exec_all (map (\<lambda>n. DEL (account_key ?e n)) ?names) ?d (db (net s2))" "ready pend good c s2" "pool s2 = pool s1"
      using pipeline_serves [OF assms(1) r(3)] k(2) by metis
    obtain s3 where q: "pipeline R ?last c s2 = (Ret True, s3)" "exec_all ?last (db (net s2)) (db (net s3))"
      "ready pend good c s3" "pool s3 = pool s2"
      using pipeline_serves [OF assms(1) p(3)] by metis
    have "exec_all (delete_commands ?d ?e) ?d (db (net s3))"
      unfolding delete_commands_def exec_all_append using p(2) q(2) by blast
    then show "\<exists>x st'. ?body c s = (Ret x, st') \<and> ready pend good c st' \<and> pool st' = pool s \<and> ?P x (net st')"
      using r(1,4) k(1) p(1,4) q(1,3,4) by (simp add: areReplyErrors_def reply_names_keys ret_flag_def)
  qed
  then show ?thesis by (auto simp: redis_delete_user_def result_flag_def Let_def)
qed

section \<open>The relation\<close>

lemma lastSync_apart: "account_key e n \<noteq> lastSync_key e" "accounts_key e \<noteq> lastSync_key e"
  by (simp_all add: account_key_def accounts_key_def lastSync_key_def)

text \<open>The database holds the users and, for every known address, the accounts of the abstract store.\<close>

definition users_held :: "string set \<Rightarrow> redis_db \<Rightarrow> string smap \<Rightarrow> bool" where
  "users_held known d m \<longleftrightarrow> users_db_ok d \<and> map_of (stored_users d) = map_of m \<and> smap_inv m \<and> dom (map_of m) \<subseteq> known"

definition accounts_held :: "redis_db \<Rightarrow> string \<Rightarrow> account smap \<Rightarrow> bool" where
  "accounts_held d u m \<longleftrightarrow> user_ok d u \<and> view_fits d u \<and> smap_inv m \<and> redis_view d u = map_of m"

definition db_holds :: "string set \<Rightarrow> redis_db \<Rightarrow> abstract_db \<Rightarrow> bool" where
  "db_holds known d a \<longleftrightarrow> users_held known d (abs_users a) \<and> (\<forall>u \<in> known. accounts_held d u (abs_accounts a u))"

definition separate_set :: "string set \<Rightarrow> bool" where
  "separate_set U \<longleftrightarrow> (\<forall>u \<in> U. \<forall>v \<in> U. u \<noteq> v \<longrightarrow> separate u v)"

definition redis_sim ::
  "('c, 'w) redis \<Rightarrow> ('w \<Rightarrow> redis_db) \<Rightarrow> ('c \<Rightarrow> 'w \<Rightarrow> command list) \<Rightarrow> ('c \<Rightarrow> 'w \<Rightarrow> bool) \<Rightarrow> string set \<Rightarrow>
   ('c, 'w) store_state \<Rightarrow> abstract_db \<Rightarrow> bool" where
  "redis_sim R db pend good known st a \<longleftrightarrow>
     serves R db pend good \<and> separate_set known \<and> db_holds known (db (net st)) a \<and>
     (\<exists>c cs. ready pend good c st \<and> connections (pool st) = c # cs)"

lemma accounts_held_same: "same_keys u d d' \<Longrightarrow> accounts_held d' u m \<longleftrightarrow> accounts_held d u m"
  using same_keys_view [of u d d'] by (simp add: accounts_held_def view_fits_def)

text \<open>A change to the keys of one user and to the hash of the users.\<close>

lemma db_holds_step:
  assumes "db_holds known d a" "separate_set known" "e \<in> known" "exec_all cmds d d'"
    and "\<And>cmd k. cmd \<in> set cmds \<Longrightarrow> k \<in> written cmd \<Longrightarrow> key_of e k \<or> k = ''USERS''"
    and "users_held known d' (abs_users a')" "accounts_held d' e (abs_accounts a' e)"
    and "\<And>u. u \<noteq> e \<Longrightarrow> abs_accounts a' u = abs_accounts a u"
  shows "db_holds known d' a'"
  unfolding db_holds_def
proof (intro conjI ballI)
  fix u
  assume u: "u \<in> known"
  show "accounts_held d' u (abs_accounts a' u)"
  proof (cases "u = e")
    case False
    then have "separate u e" using assms(2,3) u by (simp add: separate_set_def)
    then have "same_keys u d d'" by (rule commands_apart [OF assms(4)]) (use False assms(5) in blast)+
    then show ?thesis using assms(1,8) u False by (simp add: accounts_held_same db_holds_def)
  qed (use assms(7) in simp)
qed (rule assms(6))

lemma known_same_keys:
  assumes "separate_set known" "e \<in> known" "u \<in> known" "u \<noteq> e" "exec_all cmds d d'"
    and "\<And>cmd k. cmd \<in> set cmds \<Longrightarrow> k \<in> written cmd \<Longrightarrow> key_of e k \<or> k = ''USERS''"
  shows "same_keys u d d'"
proof -
  have "separate u e" using assms(1-4) by (simp add: separate_set_def)
  then show ?thesis by (rule commands_apart [OF assms(5)]) (use assms(4,6) in blast)+
qed

text \<open>Operations that do not touch the users keep them, if the synchronisation time stays a text.\<close>

lemma users_held_keep:
  assumes "users_held known d m" "separate_set known" "e \<in> known" "exec_all cmds d d'"
    and "\<And>cmd k. cmd \<in> set cmds \<Longrightarrow> k \<in> written cmd \<Longrightarrow> key_of e k"
    and "is_text d (lastSync_key e) \<Longrightarrow> is_text d' (lastSync_key e)"
  shows "users_held known d' m"
proof -
  have "d' ''USERS'' = d ''USERS''" using exec_all_frame [OF assms(4)] assms(5) users_key by blast
  then have s: "stored_users d' = stored_users d" "is_text d' ''USERS'' = is_text d ''USERS''"
    by (simp_all add: stored_users_def hash_of_def is_text_def)
  have "is_text d' (lastSync_key u)" if "u \<in> fst ` set (stored_users d)" for u
  proof (cases "u = e")
    case False
    have "u \<in> known" using that assms(1) by (auto simp: users_held_def keys_dom)
    then have "same_keys u d d'" using known_same_keys [OF assms(2,3) _ False assms(4)] assms(5) by blast
    then show ?thesis using same_keys_view(3) that assms(1) by (auto simp: users_held_def users_db_ok_def)
  qed (use that assms(1,6) in \<open>auto simp: users_held_def users_db_ok_def\<close>)
  then show ?thesis using assms(1) by (simp add: users_held_def users_db_ok_def s)
qed

section \<open>The operations keep the relation\<close>

lemma upsert_written: "cmd \<in> set (upsert_commands e as) \<Longrightarrow> k \<in> written cmd \<Longrightarrow> k = accounts_key e \<or> (\<exists>n. k = account_key e n)"
  by (auto simp: upsert_commands_def set_account_def)

lemma upsert_holds:
  assumes "db_holds known d a" "separate_set known" "e \<in> known" "exec_all (upsert_commands e as) d d'"
    and "list_all (\<lambda>x. account_uuid x = e \<and> in_long (update_time x) \<and> account_fits x) as"
  shows "db_holds known d' (snd (upsert_accounts_for_user abstract_store e as a))"
proof (rule db_holds_step [OF assms(1-4)])
  let ?a = "snd (upsert_accounts_for_user abstract_store e as a)"
  note w = upsert_written [of _ e as]
  show "key_of e k \<or> k = ''USERS''" if "cmd \<in> set (upsert_commands e as)" "k \<in> written cmd" for cmd k
    using w [OF that] by auto
  have "lastSync_key e \<notin> (\<Union>cmd \<in> set (upsert_commands e as). written cmd)"
    using w by (auto simp: lastSync_key_def accounts_key_def account_key_def)
  then have "d' (lastSync_key e) = d (lastSync_key e)" by (rule exec_all_frame [OF assms(4)])
  moreover have "abs_users ?a = abs_users a" by (simp add: abstract_store_def)
  ultimately show "users_held known d' (abs_users ?a)"
    using users_held_keep [OF _ assms(2-4)] assms(1) w by (auto simp: db_holds_def is_text_def)
  have h: "accounts_held d e (abs_accounts a e)" using assms(1,3) by (simp add: db_holds_def)
  have o: "list_all (\<lambda>x. account_uuid x = e \<and> in_long (update_time x)) as" using assms(5) by (auto simp: list_all_iff)
  have v: "user_ok d' e" "redis_view d' e = redis_view d e ++ newest_of as"
    using upsert_all [OF assms(4) _ o] h by (simp_all add: accounts_held_def)
  have "account_fits x" if "newest_of as n = Some x" for n x
    using map_of_SomeD [OF that [unfolded newest_of_def]] assms(5) by (auto simp: list_all_iff)
  then have "view_fits d' e" using h by (auto simp: accounts_held_def view_fits_def v(2) map_add_Some_iff)
  then show "accounts_held d' e (abs_accounts ?a e)"
    using h v by (simp add: accounts_held_def abstract_store_def map_of_store_accounts smap_inv_store_accounts)
  show "abs_accounts ?a u = abs_accounts a u" if "u \<noteq> e" for u using that by (simp add: abstract_store_def)
qed

lemma update_holds:
  assumes "db_holds known d a" "separate_set known" "e \<in> known"
  shows "db_holds known (d(lastSync_key e \<mapsto> Str s)) a"
proof (rule db_holds_step [OF assms])
  have x: "exec_all [SET (lastSync_key e) s] d (d(lastSync_key e \<mapsto> Str s))" by auto
  then show "exec_all [SET (lastSync_key e) s] d (d(lastSync_key e \<mapsto> Str s))" .
  have "users_held known d (abs_users a)" "accounts_held d e (abs_accounts a e)" using assms(1,3) by (simp_all add: db_holds_def)
  then show "users_held known (d(lastSync_key e \<mapsto> Str s)) (abs_users a)" "accounts_held (d(lastSync_key e \<mapsto> Str s)) e (abs_accounts a e)"
    using users_held_keep [OF _ assms(2,3) x] lastSync_view [of d e s] by (auto simp: is_text_def accounts_held_def view_fits_def)
qed (auto simp: abstract_store_def)

lemma create_holds:
  assumes "db_holds known d a" "separate_set known" "User_uuid u \<in> known" "exec_all (create_commands u) d d'"
  shows "db_holds known d' (snd (createUser abstract_store u a))"
proof (rule db_holds_step [OF assms])
  let ?e = "User_uuid u" and ?a = "snd (createUser abstract_store u a)"
  show w: "key_of ?e k \<or> k = ''USERS''" if "cmd \<in> set (create_commands u)" "k \<in> written cmd" for cmd k
    using that by (auto simp: create_commands_def)
  have h: "users_held known d (abs_users a)" "accounts_held d ?e (abs_accounts a ?e)" using assms(1,3) by (simp_all add: db_holds_def)
  from create_exec [OF assms(4)] h(1) have "users_db_ok d'" "map_of (stored_users d') = (map_of (stored_users d))(?e \<mapsto> User_password u)"
    by (simp_all add: users_held_def)
  then show "users_held known d' (abs_users ?a)"
    using h(1) assms(3) by (auto simp: users_held_def abstract_store_def map_of_assign fun_eq_iff smap.inv_assign dom_def split: if_splits)
  obtain d1 d2 where x: "set_hash d ''USERS'' ((map_of (hash_of d ''USERS''))(?e \<mapsto> User_password u)) d1"
    "d2 = d1(lastSync_key ?e \<mapsto> Str (show_int (User_last_sync u)))" "d' = d2(accounts_key ?e := None)"
    using assms(4) h(1) by (auto simp: create_commands_def users_held_def users_db_ok_def)
  have "account_key ?e n \<noteq> accounts_key ?e \<and> account_key ?e n \<noteq> lastSync_key ?e \<and> account_key ?e n \<noteq> ''USERS''" for n
    using users_key [of ?e] by (metis account_keys(2) key_ofI(3) lastSync_apart)
  then have k: "d' (account_key ?e n) = d (account_key ?e n)" "d' (accounts_key ?e) = None" for n
    using set_hashD(4) [OF x(1), of "account_key ?e n"] by (simp_all add: x(2,3))
  then have hk: "hash_of d' (account_key ?e n) = hash_of d (account_key ?e n)" "is_text d' (account_key ?e n) = is_text d (account_key ?e n)"
    "hash_of d' (accounts_key ?e) = []" "\<not> is_text d' (accounts_key ?e)" for n
    by (simp_all add: hash_of_def is_text_def)
  have "user_ok d' ?e" "redis_view d' ?e = (\<lambda>n. None)"
    using h(2) by (simp_all add: accounts_held_def user_ok_def redis_view_def hk fun_eq_iff)
  then show "accounts_held d' ?e (abs_accounts ?a ?e)"
    by (simp add: accounts_held_def view_fits_def abstract_store_def smap.inv_empty)
  show "abs_accounts ?a v = abs_accounts a v" if "v \<noteq> ?e" for v using that by (simp add: abstract_store_def)
qed

lemma delete_exec:
  assumes "exec_all (delete_commands d e) d d'" "\<not> is_text d ''USERS''"
  shows "map_of (stored_users d') = (map_of (stored_users d))(e := None)" "distinct (map fst (stored_users d'))"
    "\<not> is_text d' ''USERS''" "d' (accounts_key e) = None" "d' (account_key e n) = d (account_key e n) \<or> d' (account_key e n) = None"
proof -
  let ?ks = "map (\<lambda>n. DEL (account_key e n)) (map fst (hash_of d (accounts_key e)))"
  obtain d1 d2 d3 r where x: "exec_all ?ks d d1" "d2 = d1(accounts_key e := None)"
    "redis_exec (HDEL ''USERS'' e) d2 r d3" "d' = d3(lastSync_key e := None)"
    using assms(1) by (auto simp: delete_commands_def exec_all_append simp del: redis_exec.simps(8))
  have k: "accounts_key e \<noteq> ''USERS''" "lastSync_key e \<noteq> ''USERS''" "account_key e n \<noteq> ''USERS''" for n
    using users_key [of e] key_ofI by metis+
  have "''USERS'' \<notin> (\<Union>cmd \<in> set ?ks. written cmd)" using users_key [of e] by auto
  then have "d1 ''USERS'' = d ''USERS''" by (rule exec_all_frame [OF x(1)])
  then have d2: "hash_of d2 ''USERS'' = stored_users d" "\<not> is_text d2 ''USERS''"
    using assms(2) k(1) by (simp_all add: x(2) hash_of_def stored_users_def is_text_def)
  have s: "set_hash d2 ''USERS'' ((map_of (stored_users d))(e := None)) d3" using x(3) d2 by simp
  have "d' ''USERS'' = d3 ''USERS''" using k(2) by (simp add: x(4))
  then have u: "stored_users d' = hash_of d3 ''USERS''" "is_text d' ''USERS'' = is_text d3 ''USERS''"
    by (simp_all add: stored_users_def hash_of_def is_text_def)
  note h = set_hashD [OF s]
  show "map_of (stored_users d') = (map_of (stored_users d))(e := None)" "distinct (map fst (stored_users d'))"
    "\<not> is_text d' ''USERS''"
    using h(1-3) by (simp_all add: u)
  show "d' (accounts_key e) = None" using h(4) [of "accounts_key e"] k(1) by (simp add: x(2,4))
  have "d1 k = (if k \<in> account_key e ` set ns then None else d0 k)" if "exec_all (map (\<lambda>n. DEL (account_key e n)) ns) d0 d1" for ns d0 k
    using that by (induction ns arbitrary: d0) auto
  from this [OF x(1), of "account_key e n"] show "d' (account_key e n) = d (account_key e n) \<or> d' (account_key e n) = None"
    using h(4) [of "account_key e n"] k(3) [of n] lastSync_apart(1) [of e n] account_keys(2) [of e n] by (simp add: x(2,4))
qed

lemma delete_written:
  "cmd \<in> set (delete_commands d e) \<Longrightarrow> k \<in> written cmd \<Longrightarrow> key_of e k \<or> k = ''USERS''"
  by (auto simp: delete_commands_def)

lemma delete_holds:
  assumes "db_holds known d a" "separate_set known" "User_uuid u \<in> known" "exec_all (delete_commands d (User_uuid u)) d d'"
  shows "db_holds known d' (snd (delete_user_op abstract_store u a))"
proof (rule db_holds_step [OF assms delete_written])
  let ?e = "User_uuid u" and ?a = "snd (delete_user_op abstract_store u a)"
  have h: "users_held known d (abs_users a)" "accounts_held d ?e (abs_accounts a ?e)" using assms(1,3) by (simp_all add: db_holds_def)
  then have "\<not> is_text d ''USERS''" by (simp add: users_held_def users_db_ok_def)
  note x = delete_exec [OF assms(4) this]
  have "is_text d' (lastSync_key v)" if "v \<in> fst ` set (stored_users d')" for v
  proof -
    have v: "v \<noteq> ?e" "v \<in> fst ` set (stored_users d)" using that by (auto simp: keys_dom x(1))
    then have "v \<in> known" using h(1) by (auto simp: users_held_def keys_dom)
    then have "same_keys v d d'" by (rule known_same_keys [OF assms(2,3) _ v(1) assms(4) delete_written])
    then show ?thesis using same_keys_view(3) v(2) h(1) by (auto simp: users_held_def users_db_ok_def)
  qed
  then have "users_db_ok d'" using x(2,3) by (simp add: users_db_ok_def)
  then show "users_held known d' (abs_users ?a)"
    using h(1) by (auto simp: users_held_def abstract_store_def x(1) map_of_erase fun_eq_iff smap.inv_erase dom_def split: if_splits)
  have hk: "hash_of d' (accounts_key ?e) = []" "\<not> is_text d' (accounts_key ?e)" using x(4) by (simp_all add: hash_of_def is_text_def)
  have "\<not> is_text d' (account_key ?e n) \<and> (hash_of d' (account_key ?e n) = [] \<or> account_hash n (hash_of d' (account_key ?e n)))" for n
    using x(5) [of n]
  proof
    assume "d' (account_key ?e n) = d (account_key ?e n)"
    then have "hash_of d' (account_key ?e n) = hash_of d (account_key ?e n)" "is_text d' (account_key ?e n) = is_text d (account_key ?e n)"
      by (simp_all add: hash_of_def is_text_def)
    with h(2) show ?thesis by (simp add: accounts_held_def user_ok_def)
  qed (simp add: hash_of_def is_text_def)
  then have "user_ok d' ?e" by (simp add: user_ok_def hk)
  moreover have "redis_view d' ?e = (\<lambda>n. None)" by (simp add: redis_view_def hk fun_eq_iff)
  ultimately show "accounts_held d' ?e (abs_accounts ?a ?e)"
    by (simp add: accounts_held_def view_fits_def abstract_store_def smap.inv_empty)
  show "abs_accounts ?a v = abs_accounts a v" if "v \<noteq> ?e" for v using that by (simp add: abstract_store_def)
qed

section \<open>The refinement\<close>

lemma redis_simE:
  assumes "redis_sim R db pend good known st a"
  obtains c cs where "serves R db pend good" "separate_set known" "db_holds known (db (net st)) a"
    "ready pend good c st" "connections (pool st) = c # cs"
  using assms by (auto simp: redis_sim_def)

lemma redis_simI:
  "serves R db pend good \<Longrightarrow> separate_set known \<Longrightarrow> db_holds known (db (net st)) a \<Longrightarrow> ready pend good c st \<Longrightarrow>
    connections (pool st) = c # cs \<Longrightarrow> redis_sim R db pend good known st a"
  by (auto simp: redis_sim_def)

lemma map_of_rev_smap: "smap_inv m \<Longrightarrow> map_of (rev m) = map_of m"
  using smap.distinct_entries [of m] by (subst map_of_inject_set) (simp_all add: rev_map [symmetric])

definition account_ok :: "account \<Rightarrow> bool" where
  "account_ok a \<longleftrightarrow> in_long (update_time a) \<and> account_fits a"

interpretation redis: store_refinement "RedisStore R t (Suc rounds)" abstract_store "redis_sim R db pend good known" known "list_all account_ok"
  for R :: "('c, 'w) redis" and t rounds db pend good known
proof (unfold_locales, goal_cases)
  case (1 s a)
  then obtain c cs where x: "serves R db pend good" "separate_set known" "db_holds known (db (net s)) a" "ready pend good c s"
    "connections (pool s) = c # cs" by (rule redis_simE)
  have h: "users_held known (db (net s)) (abs_users a)" using x(3) by (simp add: db_holds_def)
  then have "users_db_ok (db (net s))" by (simp add: users_held_def)
  from getAllUsers_serves [OF x(1,4,5) this] obtain s' where g:
    "redis_getAllUsers R t (Suc rounds) True s = (Ret (rev (map (loaded t (db (net s))) (stored_users (db (net s))))), s')"
    "db (net s') = db (net s)" "ready pend good c s'" "connections (pool s') = c # cs" by blast
  have "stored_passwords (rev (map (loaded t (db (net s))) (stored_users (db (net s))))) = map_of (abs_users a)"
    using h by (simp add: stored_passwords_def rev_map comp_def users_held_def)
  moreover have "stored_passwords (map (\<lambda>(u, p). \<lparr>User_uuid = u, User_password = p, User_last_sync = 0\<rparr>) (abs_users a)) = map_of (abs_users a)"
    using map_of_rev_smap [of "abs_users a"] h by (simp add: stored_passwords_def comp_def case_prod_unfold users_held_def)
  ultimately show ?case
    using redis_simI [OF x(1,2) _ g(3,4)] x(3) g(1,2) by (auto simp: RedisStore_def abstract_store_def)
next
  case (2 s a u)
  then obtain c cs where x: "serves R db pend good" "separate_set known" "db_holds known (db (net s)) a" "ready pend good c s"
    "connections (pool s) = c # cs" by (auto elim: redis_simE)
  obtain s' where "redis_createUser R u s = (Ret True, s')" "exec_all (create_commands u) (db (net s)) (db (net s'))"
    "ready pend good c s'" "connections (pool s') = c # cs"
    using createUser_serves [OF x(1,4,5)] by blast
  then show ?case
    using redis_simI [OF x(1,2) create_holds [OF x(3,2) 2(2)]] by (simp add: RedisStore_def abstract_store_def agree_def)
next
  case (3 s a u u')
  then obtain c cs where x: "serves R db pend good" "separate_set known" "db_holds known (db (net s)) a" "ready pend good c s"
    "connections (pool s) = c # cs" by (auto elim: redis_simE)
  have "\<not> is_text (db (net s)) (accounts_key (User_uuid u))"
    using x(3) 3(2) by (auto simp: db_holds_def accounts_held_def user_ok_def)
  from delete_commands_serve [OF x(1,4,5) this] obtain s' where "redis_delete_user R u s = (Ret True, s')"
    "exec_all (delete_commands (db (net s)) (User_uuid u)) (db (net s)) (db (net s'))"
    "ready pend good c s'" "connections (pool s') = c # cs" by blast
  then show ?case
    using redis_simI [OF x(1,2) delete_holds [OF x(3,2) 3(2)]] 3(3) by (simp add: RedisStore_def abstract_store_def agree_def)
next
  case (4 s a e)
  then obtain c cs where x: "serves R db pend good" "separate_set known" "db_holds known (db (net s)) a" "ready pend good c s"
    "connections (pool s) = c # cs" by (auto elim: redis_simE)
  have h: "accounts_held (db (net s)) e (abs_accounts a e)" using x(3) 4(2) by (simp add: db_holds_def)
  then obtain m s' where m: "redis_get_accounts R e s = (Ret m, s')" "smap_inv m" "map_of m = redis_view (db (net s)) e"
    "db (net s') = db (net s)" "ready pend good c s'" "connections (pool s') = c # cs"
    using redis_get_accounts_view [OF x(1,4,5), of e] by (auto simp: accounts_held_def)
  have "m = abs_accounts a e" by (rule smap.entries_determined) (use h m(2,3) in \<open>simp_all add: accounts_held_def\<close>)
  then show ?case using m redis_simI [OF x(1,2) _ m(5,6)] x(3) by (simp add: RedisStore_def abstract_store_def agree_def)
next
  case (5 s a e as)
  then obtain c cs where x: "serves R db pend good" "separate_set known" "db_holds known (db (net s)) a" "ready pend good c s"
    "connections (pool s) = c # cs" by (auto elim: redis_simE)
  obtain s' where "redis_upsert R e as s = (Ret True, s')" "exec_all (upsert_commands e as) (db (net s)) (db (net s'))"
    "ready pend good c s'" "connections (pool s') = c # cs"
    using upsert_commands_serve [OF x(1,4,5)] by blast
  then show ?case
    using redis_simI [OF x(1,2) upsert_holds [OF x(3,2) 5(2)]] 5(3,4) by (simp add: RedisStore_def abstract_store_def agree_def account_ok_def list_all_iff)
next
  case (6 s a e t')
  then obtain c cs where x: "serves R db pend good" "separate_set known" "db_holds known (db (net s)) a" "ready pend good c s"
    "connections (pool s) = c # cs" by (auto elim: redis_simE)
  obtain s' where "redis_update_last_sync R e t' s = (Ret True, s')" "ready pend good c s'" "connections (pool s') = c # cs"
    "db (net s') = (db (net s))(lastSync_key e \<mapsto> Str (show_int t'))"
    using update_last_sync_serves [OF x(1,4,5)] by blast
  then show ?case
    using redis_simI [OF x(1,2), of s' a c cs] update_holds [OF x(3,2) 6(2)] by (simp add: RedisStore_def abstract_store_def agree_def)
qed

end
