(* ===== verification/SqlReader.thy ===== *)
theory SqlReader
  imports UpsertSql "HOL-Library.Monad_Syntax"
begin

text \<open>
  How a database reads the statement of \<open>UpsertSql\<close>: string constants between single quotes, in which two
  quotes stand for one, decimal numbers and the constants \<open>true\<close> and \<open>false\<close>, as the lexical
  rules of SQL have them. The statement of accounts without quotes is read as these accounts.
\<close>

section \<open>Reading\<close>

definition eat :: "string \<Rightarrow> string \<Rightarrow> string option" where
  "eat p s = (if take (length p) s = p then Some (drop (length p) s) else None)"

fun read_quoted :: "string \<Rightarrow> (string \<times> string) option" where
  "read_quoted [] = None"
| "read_quoted [c] = (if c = SQ then Some ([], []) else None)"
| "read_quoted (c # d # s) =
     (if c = SQ then (if d = SQ then map_option (\<lambda>(t, r). (SQ # t, r)) (read_quoted s) else Some ([], d # s))
      else map_option (\<lambda>(t, r). (c # t, r)) (read_quoted (d # s)))"

definition read_string :: "string \<Rightarrow> (string \<times> string) option" where
  "read_string s = Option.bind (eat [SQ] s) read_quoted"

definition number_char :: "char \<Rightarrow> bool" where
  "number_char c \<longleftrightarrow> is_digit c \<or> c = CHR ''-''"

definition read_number :: "string \<Rightarrow> (int \<times> string) option" where
  "read_number s =
     (let n = takeWhile number_char s in
      if show_int (atol n) = n then Some (atol n, dropWhile number_char s) else None)"

definition read_bool :: "string \<Rightarrow> (bool \<times> string) option" where
  "read_bool s =
     (case eat ''true'' s of
        Some r \<Rightarrow> Some (True, r)
      | None \<Rightarrow> map_option (Pair False) (eat ''false'' s))"

definition read_row :: "string \<Rightarrow> (account \<times> string) option" where
  "read_row s = do {
     s \<leftarrow> eat ''('' s; (n, s) \<leftarrow> read_string s;
     s \<leftarrow> eat '', '' s; (u, s) \<leftarrow> read_string s;
     s \<leftarrow> eat '', '' s; (usr, s) \<leftarrow> read_string s;
     s \<leftarrow> eat '', '' s; (p, s) \<leftarrow> read_string s;
     s \<leftarrow> eat '', '' s; (oldp, s) \<leftarrow> read_string s;
     s \<leftarrow> eat '', '' s; (l, s) \<leftarrow> read_string s;
     s \<leftarrow> eat '', '' s; (t, s) \<leftarrow> read_number s;
     s \<leftarrow> eat '', '' s; (d, s) \<leftarrow> read_bool s;
     s \<leftarrow> eat '')'' s;
     Some (\<lparr>account_name = n, account_uuid = u, user_name = usr, password = p, old_password = oldp, url = l,
       update_time = t, deleted = d\<rparr>, s) }"

text \<open>Each row takes a character at least, so the length of the text is enough fuel.\<close>

fun read_values :: "nat \<Rightarrow> string \<Rightarrow> (account list \<times> string) option" where
  "read_values 0 s = None"
| "read_values (Suc n) s = do {
     (a, s) \<leftarrow> read_row s;
     (case eat '', '' s of
        None \<Rightarrow> Some ([a], s)
      | Some s' \<Rightarrow> do { (as, s) \<leftarrow> read_values n s'; Some (a # as, s) }) }"

definition read_upsert :: "string \<Rightarrow> account list option" where
  "read_upsert sql = do {
     s \<leftarrow> eat UPSERT_ACCOUNT_PREPARE_1 sql;
     (as, s) \<leftarrow> read_values (length s) s;
     if s = UPSERT_ACCOUNT_PREPARE_2 then Some as else None }"

section \<open>What is read of a row\<close>

definition plain :: "string \<Rightarrow> bool" where
  "plain s \<longleftrightarrow> SQ \<notin> set s"

definition plain_account :: "account \<Rightarrow> bool" where
  "plain_account a \<longleftrightarrow> list_all plain [account_name a, user_name a, password a, old_password a, url a] \<and> writable a"

lemma eat_simps [simp]:
  "eat [] s = Some s"
  "eat (c # p) (c' # s) = (if c = c' then eat p s else None)"
  "eat (c # p) [] = None"
  by (auto simp: eat_def)

lemma eat_append [simp]: "eat p (p @ s) = Some s"
  by (simp add: eat_def)

lemma read_quoted_plain:
  "plain t \<Longrightarrow> (case r of [] \<Rightarrow> True | c # _ \<Rightarrow> c \<noteq> SQ) \<Longrightarrow> read_quoted (t @ SQ # r) = Some (t, r)"
proof (induction t)
  case Nil
  then show ?case by (cases r) simp_all
next
  case (Cons c t)
  obtain d s where "t @ SQ # r = d # s" by (cases t) auto
  with Cons show ?case by (auto simp: plain_def)
qed

lemma read_string_plain:
  "plain t \<Longrightarrow> (case r of [] \<Rightarrow> True | c # _ \<Rightarrow> c \<noteq> SQ) \<Longrightarrow> read_string (SQ # t @ SQ # r) = Some (t, r)"
  by (simp add: read_string_def eat_def read_quoted_plain)

lemma read_number_show:
  assumes "- (2 ^ 63) \<le> i" "i < 2 ^ 63" "\<not> number_char c"
  shows "read_number (show_int i @ c # r) = Some (i, c # r)"
proof -
  have "\<forall>x \<in> set (show_int i). number_char x"
    using show_nat_digits by (auto simp: show_int_def number_char_def)
  then have "takeWhile number_char (show_int i @ c # r) = show_int i" "dropWhile number_char (show_int i @ c # r) = c # r"
    using assms(3) by (simp_all add: takeWhile_append_stop dropWhile_append_stop)
  with atol_show_int [of i "[]"] assms(1,2) show ?thesis by (simp add: read_number_def)
qed

lemma read_bool_show: "read_bool ((if b then ''true'' else ''false'') @ r) = Some (b, r)"
  by (simp add: read_bool_def eat_def)

text \<open>The rows of a statement, each with the address of its owner.\<close>

definition owned :: "string \<Rightarrow> account \<Rightarrow> account" where
  "owned u a = a\<lparr>account_uuid := u\<rparr>"

lemma read_row_plain:
  assumes "plain_account a" "plain u"
  shows "read_row (sql_row u a @ r) = Some (owned u a, r)"
proof -
  have p: "plain (account_name a)" "plain (user_name a)" "plain (password a)" "plain (old_password a)" "plain (url a)"
    "- (2 ^ 63) \<le> update_time a" "update_time a < 2 ^ 63"
    using assms(1) by (simp_all add: plain_account_def writable_def)
  have c: "CHR '','' \<noteq> SQ" "\<not> number_char (CHR '','')" by (simp_all add: SQ_def number_char_def is_digit_def)
  have b: "read_bool ((if deleted a then ''true'' else ''false'') @ CHR '')'' # r) = Some (deleted a, CHR '')'' # r)"
    by (rule read_bool_show)
  show ?thesis
    using p c b by (simp add: read_row_def sql_row_def owned_def read_string_plain assms(2) read_number_show)
qed

fun value_rows :: "(string \<times> account) list \<Rightarrow> string" where
  "value_rows [] = []"
| "value_rows [(u, a)] = sql_row u a"
| "value_rows ((u, a) # x # xs) = sql_row u a @ '', '' @ value_rows (x # xs)"

lemma value_rows_sql_rows: "value_rows (map (Pair u) as) = sql_rows u as"
  by (induction u as rule: sql_rows.induct) simp_all

lemma value_rows_length: "length xs \<le> length (value_rows xs)"
  by (induction xs rule: value_rows.induct) (simp_all add: sql_row_def)

lemma read_values_plain:
  "list_all (\<lambda>(u, a). plain_account a \<and> plain u) xs \<Longrightarrow> xs \<noteq> [] \<Longrightarrow> length xs \<le> n \<Longrightarrow> eat '', '' r = None \<Longrightarrow>
    read_values n (value_rows xs @ r) = Some (map (\<lambda>(u, a). owned u a) xs, r)"
proof (induction xs arbitrary: n rule: value_rows.induct)
  case (2 u a)
  then show ?case by (cases n) (simp_all add: read_row_plain)
next
  case (3 u a x xs)
  then obtain m where "n = Suc m" by (cases n) auto
  with 3 show ?case by (simp add: read_row_plain)
qed simp

lemma read_upsert_values:
  assumes "list_all (\<lambda>(u, a). plain_account a \<and> plain u) xs" "xs \<noteq> []"
  shows "read_upsert (UPSERT_ACCOUNT_PREPARE_1 @ value_rows xs @ UPSERT_ACCOUNT_PREPARE_2) = Some (map (\<lambda>(u, a). owned u a) xs)"
proof -
  have "eat '', '' UPSERT_ACCOUNT_PREPARE_2 = None" by (simp add: UPSERT_ACCOUNT_PREPARE_2_def)
  with read_values_plain [OF assms] value_rows_length [of xs] show ?thesis
    by (simp add: read_upsert_def)
qed

lemma read_upsert_statement:
  assumes "list_all plain_account as" "plain u" "as \<noteq> []"
  shows "read_upsert (upsert_statement u as) = Some (map (owned u) as)"
proof -
  have "list_all (\<lambda>(u, a). plain_account a \<and> plain u) (map (Pair u) as)" using assms(1,2) by (simp add: list_all_iff)
  from read_upsert_values [OF this] assms(3) show ?thesis by (simp add: upsert_statement_def value_rows_sql_rows comp_def)
qed

text \<open>
  C38: what the database reads is what the client sent, as long as there are no quotes. For an address of at
  most 34 characters and accounts, at most 64 megabytes together, all without a single quote, the statement
  that is built in the buffer is read by the lexical rules of SQL as exactly these accounts, in their order,
  each owned by the user.
\<close>

theorem upsert_read_back:
  assumes "length u \<le> 34" "plain u" "list_all plain_account as" "as \<noteq> []" "rows_bytes as + 34 \<le> 2 ^ 26"
  shows "\<exists>sql. upsert_sql u as = Ret sql \<and> read_upsert sql = Some (map (owned u) as)"
proof -
  have "list_all writable as" using assms(3) by (auto simp: list_all_iff plain_account_def)
  from upsert_sql_fits [OF assms(1) this assms(4,5)] read_upsert_statement [OF assms(3,2,4)] show ?thesis by simp
qed

theorem upsert_read_back_witness:
  "\<exists>sql. upsert_sql ''ann@example.com''
     [\<lparr>account_name = ''mail'', account_uuid = ''ann@example.com'', user_name = ''ann'', password = ''pw'',
       old_password = [], url = ''http://mail'', update_time = 17, deleted = False\<rparr>] = Ret sql \<and>
     map_option length (read_upsert sql) = Some 1"
  using upsert_read_back [of "''ann@example.com''"
    "[\<lparr>account_name = ''mail'', account_uuid = ''ann@example.com'', user_name = ''ann'', password = ''pw'',
       old_password = [], url = ''http://mail'', update_time = 17, deleted = False\<rparr>]"]
  by (auto simp: writable_def rows_bytes_def row_needed_def plain_account_def plain_def SQ_def)

text \<open>
  An address may have a quote in it: \<open>verify_email\<close> accepts one in its local part. For its user no account
  can be stored at all, however plain the accounts are: the string ends at the quote, and the database
  refuses the statement.
\<close>

lemma quoted_address_unreadable:
  assumes "plain_account a" "plain x" "c \<noteq> SQ" "c \<noteq> CHR '',''"
  shows "read_upsert (upsert_statement (x @ SQ # c # y) (a # as)) = None"
proof -
  have p: "plain (account_name a)" using assms(1) by (simp add: plain_account_def)
  have q: "CHR '','' \<noteq> SQ" by (simp add: SQ_def)
  have row: "read_row (sql_row (x @ SQ # c # y) a @ r) = None" for r
    using p q assms(2-4) by (simp add: read_row_def sql_row_def read_string_plain)
  have vals: "read_values n (sql_row (x @ SQ # c # y) a @ r) = None" for n r
    by (cases n) (simp_all add: row)
  show ?thesis by (simp add: read_upsert_def upsert_statement_def sql_rows_Cons vals)
qed

end
