(* ===== verification/PostgresServer.thy ===== *)
theory PostgresServer
  imports PostgresPool SqlReader
begin

text \<open>
  The Postgres store in front of a database that works: what the statements of the store do to the two
  tables, as SQL has it, and what each operation of the store does then. The schema is not part of the
  sources. The statements tell the columns and, by \<open>on conflict (account_name, account_uuid)\<close>, the key of
  the accounts; the address is taken to be the key of the users. Whether the accounts reference the users,
  and go with them when they are deleted, is a parameter, \<open>refs\<close>; a reference that refuses the deletion instead,
  and limits or encodings of the columns, are left out.
\<close>

section \<open>The tables\<close>

text \<open>A user has a password and a synchronisation time; the format column is written and never read.\<close>

record pg_db =
  users_table :: "string \<rightharpoonup> string \<times> string"
  accounts_table :: "string \<Rightarrow> string \<rightharpoonup> account"

datatype statement =
    Insert_user string string string
  | Delete_user string
  | Set_last_sync string string
  | Accounts_of string
  | All_users
  | Upsert "account list"

text \<open>The statements of the sources with their parameters, and whatever reads as an upsert.\<close>

definition statement_of :: "string \<Rightarrow> string list \<Rightarrow> statement option" where
  "statement_of sql vals =
     (if sql = ''INSERT INTO users VALUES ($1::text, $2::text, $3::bigint, $4::numeric)'' then
        (case vals of [u, p, t, fmt] \<Rightarrow> Some (Insert_user u p t) | _ \<Rightarrow> None)
      else if sql = ''DELETE from users WHERE account_uuid = $1::text'' then
        (case vals of [u] \<Rightarrow> Some (Delete_user u) | _ \<Rightarrow> None)
      else if sql = ''UPDATE Users SET account_last_sync = $1::bigint WHERE account_uuid = $2::text'' then
        (case vals of [t, u] \<Rightarrow> Some (Set_last_sync t u) | _ \<Rightarrow> None)
      else if sql = ''SELECT * FROM accounts where account_uuid = $1::text'' then
        (case vals of [u] \<Rightarrow> Some (Accounts_of u) | _ \<Rightarrow> None)
      else if sql = GET_USERS_SQL then Some All_users
      else map_option Upsert (read_upsert sql))"

text \<open>The decimal numbers that a \<open>bigint\<close> takes.\<close>

definition bigint :: "string \<Rightarrow> bool" where
  "bigint t \<longleftrightarrow> show_int (atol t) = t"

text \<open>
  \<open>INSERT ... ON CONFLICT ... DO UPDATE ... WHERE\<close>: the rows one after the other; a row that is newer
  replaces the stored one, and no row can be affected twice by one statement, which fails as a
  whole then. \<open>touched\<close> are the rows affected so far.
\<close>

fun upsert_table :: "account list \<Rightarrow> (string \<times> string) list \<Rightarrow> (string \<Rightarrow> string \<rightharpoonup> account) \<Rightarrow> (string \<Rightarrow> string \<rightharpoonup> account) option" where
  "upsert_table [] touched t = Some t"
| "upsert_table (x # xs) touched t =
     (let u = account_uuid x; n = account_name x in
      case t u n of
        None \<Rightarrow> upsert_table xs ((u, n) # touched) (t(u := (t u)(n \<mapsto> x)))
      | Some y \<Rightarrow>
          if (u, n) \<in> set touched then None
          else if update_time x > update_time y then upsert_table xs ((u, n) # touched) (t(u := (t u)(n \<mapsto> x)))
          else upsert_table xs touched t)"

definition account_row :: "account \<Rightarrow> string list" where
  "account_row a = [account_name a, account_uuid a, user_name a, password a, old_password a, url a, show_int (update_time a),
     if deleted a then ''t'' else ''f'']"

text \<open>What a statement may answer and leave behind; the order of the rows of a query is left open.\<close>

fun pg_exec :: "bool \<Rightarrow> statement \<Rightarrow> pg_db \<Rightarrow> pg_result \<Rightarrow> pg_db \<Rightarrow> bool" where
  "pg_exec refs (Insert_user u p t) d r d' \<longleftrightarrow>
     (if users_table d u = None \<and> bigint t then r = Pg_command_ok \<and> d' = d\<lparr>users_table := (users_table d)(u \<mapsto> (p, t))\<rparr>
      else r = Pg_error \<and> d' = d)"
| "pg_exec refs (Delete_user u) d r d' \<longleftrightarrow> r = Pg_command_ok \<and>
     d' = d\<lparr>users_table := (users_table d)(u := None),
       accounts_table := if refs \<and> users_table d u \<noteq> None then (accounts_table d)(u := (\<lambda>n. None)) else accounts_table d\<rparr>"
| "pg_exec refs (Set_last_sync t u) d r d' \<longleftrightarrow>
     (if bigint t then r = Pg_command_ok \<and>
        d' = d\<lparr>users_table := (users_table d)(u := map_option (\<lambda>(p, _). (p, t)) (users_table d u))\<rparr>
      else r = Pg_error \<and> d' = d)"
| "pg_exec refs (Accounts_of u) d r d' \<longleftrightarrow> d' = d \<and>
     (\<exists>as. r = Pg_tuples (map account_row as) \<and> distinct (map account_name as) \<and>
        map_of (map (\<lambda>a. (account_name a, a)) as) = accounts_table d u)"
| "pg_exec refs All_users d r d' \<longleftrightarrow> d' = d \<and>
     (\<exists>us rows. r = Pg_tuples rows \<and> map (take 3) rows = map (\<lambda>(u, p, t). [u, p, t]) us \<and> distinct (map fst us) \<and>
        map_of us = users_table d)"
| "pg_exec refs (Upsert as) d r d' \<longleftrightarrow>
     (if refs \<and> \<not> list_all (\<lambda>x. users_table d (account_uuid x) \<noteq> None) as then r = Pg_error \<and> d' = d
      else
        (case upsert_table as [] (accounts_table d) of
           None \<Rightarrow> r = Pg_error \<and> d' = d
         | Some t \<Rightarrow> r = Pg_command_ok \<and> d' = d\<lparr>accounts_table := t\<rparr>))"

section \<open>A database that works\<close>

text \<open>
  \<open>db\<close> is the database in a world, \<open>good\<close> the connections that work and on which the
  statements of the sources have been prepared.
\<close>

definition pg_serves :: "('c, 'w) libpq \<Rightarrow> bool \<Rightarrow> ('w \<Rightarrow> pg_db) \<Rightarrow> ('c \<Rightarrow> 'w \<Rightarrow> bool) \<Rightarrow> bool" where
  "pg_serves P refs db good \<longleftrightarrow>
     (\<forall>c w. good c w \<longrightarrow>
        PQstatus_ok P c w \<and>
        (\<forall>name sql cnt vals s. (name, sql, cnt) \<in> set prepared_statements \<longrightarrow> statement_of sql vals = Some s \<longrightarrow>
           (\<exists>r w'. PQexecPrepared P c name vals w = (r, w') \<and> pg_exec refs s (db w) r (db w') \<and> good c w')) \<and>
        (\<forall>sql s. statement_of sql [] = Some s \<longrightarrow>
           (\<exists>r w'. PQexec P c sql w = (r, w') \<and> pg_exec refs s (db w) r (db w') \<and> good c w')))"

section \<open>A statement through the wrapper\<close>

text \<open>A working connection is at the head of the pool.\<close>

definition pg_ready :: "('c \<Rightarrow> 'w \<Rightarrow> bool) \<Rightarrow> 'c \<Rightarrow> ('c, 'w) store_state \<Rightarrow> bool" where
  "pg_ready good c st \<longleftrightarrow> good c (net st) \<and> (\<exists>cs. connections (pool st) = c # cs)"

lemma pg_ready_net: "pg_ready good c st \<Longrightarrow> good c w \<Longrightarrow> pg_ready good c (st\<lparr>net := w\<rparr>)"
  by (simp add: pg_ready_def)

lemma take_and_give:
  assumes "connections (pool st) = c # cs"
  shows "get_connection P st = (Ret c, set_idle cs st)" "release_connection c ((set_idle cs st)\<lparr>net := w\<rparr>) = st\<lparr>net := w\<rparr>"
    "net (set_idle cs st) = net st"
proof -
  have "connections_update (\<lambda>_. c # cs) (pool st) = pool st" using assms by (cases "pool st") simp
  then show "release_connection c ((set_idle cs st)\<lparr>net := w\<rparr>) = st\<lparr>net := w\<rparr>"
    by (cases st) (simp add: release_connection_def set_idle_def)
qed (simp_all add: assms get_connection_def set_idle_def)

text \<open>A statement that succeeds is tried once; one that fails is tried on the same connection until the wrapper throws.\<close>

lemma wrapper_once:
  assumes "pg_ready good c st" "exec c (net st) = (r, w)" "r \<noteq> Pg_error"
  shows "exec_wrapper P exec msg (Suc n) st = (Ret r, st\<lparr>net := w\<rparr>)"
  using assms by (auto simp: pg_ready_def take_and_give)

lemma wrapper_fails:
  assumes "\<And>w. good c w \<Longrightarrow> db w = d \<Longrightarrow> PQstatus_ok P c w \<and> (\<exists>w'. exec c w = (Pg_error, w') \<and> good c w' \<and> db w' = d)"
  shows "pg_ready good c st \<Longrightarrow> db (net st) = d \<Longrightarrow>
    \<exists>w. exec_wrapper P exec msg n st = (Throw msg, st\<lparr>net := w\<rparr>) \<and> good c w \<and> db w = d"
proof (induction n arbitrary: st)
  case 0
  then show ?case by (intro exI [of _ "net st"]) (simp add: pg_ready_def)
next
  case (Suc n)
  obtain w where w: "exec c (net st) = (Pg_error, w)" "good c w" "db w = d"
    using assms [of "net st"] Suc.prems by (auto simp: pg_ready_def)
  from Suc.IH [OF pg_ready_net [OF Suc.prems(1) w(2)]] w(3) obtain w' where
    "exec_wrapper P exec msg n (st\<lparr>net := w\<rparr>) = (Throw msg, st\<lparr>net := w'\<rparr>)" "good c w'" "db w' = d" by auto
  moreover have "PQstatus_ok P c w" using assms [of w] w by simp
  ultimately show ?case
    using Suc.prems(1) w(1) by (auto simp: pg_ready_def take_and_give Let_def)
qed

text \<open>Which statements fail; they leave the database as it is.\<close>

fun pg_fails :: "bool \<Rightarrow> statement \<Rightarrow> pg_db \<Rightarrow> bool" where
  "pg_fails refs (Insert_user u p t) d \<longleftrightarrow> \<not> (users_table d u = None \<and> bigint t)"
| "pg_fails refs (Set_last_sync t u) d \<longleftrightarrow> \<not> bigint t"
| "pg_fails refs (Upsert as) d \<longleftrightarrow> (refs \<and> \<not> list_all (\<lambda>x. users_table d (account_uuid x) \<noteq> None) as) \<or>
     upsert_table as [] (accounts_table d) = None"
| "pg_fails refs s d \<longleftrightarrow> False"

lemma pg_exec_fails: "pg_exec refs s d r d' \<Longrightarrow> (r = Pg_error \<longleftrightarrow> pg_fails refs s d) \<and> (pg_fails refs s d \<longrightarrow> d' = d)"
  by (cases s) (auto split: if_splits option.splits)

definition answers :: "('c, 'w) libpq \<Rightarrow> bool \<Rightarrow> ('w \<Rightarrow> pg_db) \<Rightarrow> ('c \<Rightarrow> 'w \<Rightarrow> bool) \<Rightarrow> ('c \<Rightarrow> 'w \<Rightarrow> pg_result \<times> 'w) \<Rightarrow> statement \<Rightarrow> bool" where
  "answers P refs db good exec s \<longleftrightarrow>
     (\<forall>c w. good c w \<longrightarrow> PQstatus_ok P c w \<and>
        (\<exists>r w'. exec c w = (r, w') \<and> pg_exec refs s (db w) r (db w') \<and> good c w'))"

lemma serves_answers:
  assumes "pg_serves P refs db good"
  shows "(name, sql, cnt) \<in> set prepared_statements \<Longrightarrow> statement_of sql vals = Some s \<Longrightarrow>
      answers P refs db good (\<lambda>c. PQexecPrepared P c name vals) s"
    "statement_of sql [] = Some s \<Longrightarrow> answers P refs db good (\<lambda>c. PQexec P c sql) s"
  using assms unfolding pg_serves_def answers_def by blast+

lemma wrapper_answers:
  assumes "answers P refs db good exec s" "pg_ready good c st" "\<not> pg_fails refs s (db (net st))"
  shows "\<exists>r w. exec_wrapper P exec msg (Suc n) st = (Ret r, st\<lparr>net := w\<rparr>) \<and> pg_exec refs s (db (net st)) r (db w) \<and> good c w"
proof -
  have "good c (net st)" using assms(2) by (simp add: pg_ready_def)
  then obtain r w where x: "exec c (net st) = (r, w)" "pg_exec refs s (db (net st)) r (db w)" "good c w"
    using assms(1) unfolding answers_def by blast
  have "r \<noteq> Pg_error" using pg_exec_fails [OF x(2)] assms(3) by simp
  from wrapper_once [where exec = exec, OF assms(2) x(1) this] x(2,3) show ?thesis by blast
qed

lemma wrapper_refuses:
  assumes "answers P refs db good exec s" "pg_ready good c st" "pg_fails refs s (db (net st))"
  shows "\<exists>w. exec_wrapper P exec msg n st = (Throw msg, st\<lparr>net := w\<rparr>) \<and> good c w \<and> db w = db (net st)"
proof (rule wrapper_fails [OF _ assms(2) refl])
  fix w
  assume "good c w" "db w = db (net st)"
  then obtain r w' where "PQstatus_ok P c w" "exec c w = (r, w')" "pg_exec refs s (db (net st)) r (db w')" "good c w'"
    using assms(1) unfolding answers_def by fastforce
  with pg_exec_fails [OF this(3)] assms(3) show "PQstatus_ok P c w \<and> (\<exists>w'. exec c w = (Pg_error, w') \<and> good c w' \<and> db w' = db (net st))"
    by simp
qed

section \<open>The operations\<close>

lemma statements [simp]:
  "statement_of ''INSERT INTO users VALUES ($1::text, $2::text, $3::bigint, $4::numeric)'' [u, p, t, fmt] = Some (Insert_user u p t)"
  "statement_of ''DELETE from users WHERE account_uuid = $1::text'' [u] = Some (Delete_user u)"
  "statement_of ''UPDATE Users SET account_last_sync = $1::bigint WHERE account_uuid = $2::text'' [t, u] = Some (Set_last_sync t u)"
  "statement_of ''SELECT * FROM accounts where account_uuid = $1::text'' [u] = Some (Accounts_of u)"
  "statement_of GET_USERS_SQL [] = Some All_users"
  by (simp_all add: statement_of_def GET_USERS_SQL_def)

lemma statement_upsert:
  assumes "read_upsert sql = Some as"
  shows "statement_of sql [] = Some (Upsert as)"
proof -
  have e: "eat UPSERT_ACCOUNT_PREPARE_1 sql \<noteq> None" using assms by (cases "eat UPSERT_ACCOUNT_PREPARE_1 sql") (auto simp: read_upsert_def)
  have "sql \<noteq> s" if "eat UPSERT_ACCOUNT_PREPARE_1 s = None" for s using e that by blast
  then show ?thesis using assms by (auto simp: statement_of_def UPSERT_ACCOUNT_PREPARE_1_def GET_USERS_SQL_def split: list.splits)
qed

lemma prepared_members:
  "(''create_user_pre'', ''INSERT INTO users VALUES ($1::text, $2::text, $3::bigint, $4::numeric)'', 4) \<in> set prepared_statements"
  "(''delete_user_pre'', ''DELETE from users WHERE account_uuid = $1::text'', 1) \<in> set prepared_statements"
  "(''update_last_sync_time_prepare'', ''UPDATE Users SET account_last_sync = $1::bigint WHERE account_uuid = $2::text'', 2) \<in> set prepared_statements"
  "(''get_accounts_for_user_pre'', ''SELECT * FROM accounts where account_uuid = $1::text'', 1) \<in> set prepared_statements"
  by (simp_all add: prepared_statements_def)

text \<open>A prepared statement, and what is made of its exception.\<close>

lemma prepared_answers:
  assumes "pg_serves P refs db good" "pg_ready good c st" "(name, sql, cnt) \<in> set prepared_statements"
    and "statement_of sql vals = Some s"
  shows "\<not> pg_fails refs s (db (net st)) \<Longrightarrow> \<exists>r w. PQexecPrepared_wrapper P name vals st = (Ret r, st\<lparr>net := w\<rparr>) \<and>
      pg_exec refs s (db (net st)) r (db w) \<and> good c w"
    "pg_fails refs s (db (net st)) \<Longrightarrow> \<exists>w. PQexecPrepared_wrapper P name vals st =
      (Throw ''Error executing PQexecPrepared_wrapper'', st\<lparr>net := w\<rparr>) \<and> good c w \<and> db w = db (net st)"
  unfolding PQexecPrepared_wrapper_def numeral_3_eq_3
  by (rule wrapper_answers wrapper_refuses, rule serves_answers(1) [OF assms(1,3,4)], rule assms(2), assumption)+

lemma exec_answers:
  assumes "pg_serves P refs db good" "pg_ready good c st" "statement_of sql [] = Some s"
  shows "\<not> pg_fails refs s (db (net st)) \<Longrightarrow> \<exists>r w. PQexec_wrapper P sql st = (Ret r, st\<lparr>net := w\<rparr>) \<and>
      pg_exec refs s (db (net st)) r (db w) \<and> good c w"
    "pg_fails refs s (db (net st)) \<Longrightarrow> \<exists>w. PQexec_wrapper P sql st =
      (Throw ''Error executing PQexec_wrapper'', st\<lparr>net := w\<rparr>) \<and> good c w \<and> db w = db (net st)"
  unfolding PQexec_wrapper_def numeral_3_eq_3
  by (rule wrapper_answers wrapper_refuses, rule serves_answers(2) [OF assms(1,3)], rule assms(2), assumption)+

definition pg_added :: "User \<Rightarrow> string \<Rightarrow> pg_db \<Rightarrow> pg_db" where
  "pg_added u t d = d\<lparr>users_table := (users_table d)(User_uuid u \<mapsto> (User_password u, t))\<rparr>"

lemma createUser_answers:
  assumes "pg_serves P refs db good" "pg_ready good c st" "bigint stale"
  shows "users_table (db (net st)) (User_uuid u) = None \<Longrightarrow>
      \<exists>w. pg_createUser P stale u st = (Ret True, st\<lparr>net := w\<rparr>) \<and> db w = pg_added u stale (db (net st)) \<and> good c w"
    "users_table (db (net st)) (User_uuid u) \<noteq> None \<Longrightarrow>
      \<exists>w. pg_createUser P stale u st = (Throw ''Error in ::createUser'', st\<lparr>net := w\<rparr>) \<and> db w = db (net st) \<and> good c w"
  using prepared_answers [OF assms(1,2) prepared_members(1) statements(1) [of "User_uuid u" "User_password u" stale "''1.00''"]]
    assms(3)
  by (auto simp: pg_createUser_def catch_string_def pg_added_def)

definition pg_removed :: "bool \<Rightarrow> string \<Rightarrow> pg_db \<Rightarrow> pg_db" where
  "pg_removed refs u d = d\<lparr>users_table := (users_table d)(u := None),
     accounts_table := if refs \<and> users_table d u \<noteq> None then (accounts_table d)(u := (\<lambda>n. None)) else accounts_table d\<rparr>"

lemma delete_user_answers:
  assumes "pg_serves P refs db good" "pg_ready good c st"
  shows "\<exists>w. pg_delete_user P u st = (Ret True, st\<lparr>net := w\<rparr>) \<and> db w = pg_removed refs (User_uuid u) (db (net st)) \<and> good c w"
  using prepared_answers(1) [OF assms prepared_members(2) statements(2) [of "User_uuid u"]]
  by (auto simp: pg_delete_user_def catch_string_def pg_removed_def)

lemma update_last_sync_answers:
  assumes "pg_serves P refs db good" "pg_ready good c st"
  shows "\<exists>w. pg_update_last_sync P u t st = (Ret (bigint (show_int t)), st\<lparr>net := w\<rparr>) \<and> good c w \<and>
    accounts_table (db w) = accounts_table (db (net st)) \<and>
    map_option fst \<circ> users_table (db w) = map_option fst \<circ> users_table (db (net st))"
proof (cases "bigint (show_int t)")
  case True
  with prepared_answers(1) [OF assms prepared_members(3) statements(3) [of "show_int t" u]] show ?thesis
    by (auto simp: pg_update_last_sync_def catch_string_def fun_eq_iff option.map_comp comp_def case_prod_unfold)
next
  case False
  with prepared_answers(2) [OF assms prepared_members(3) statements(3) [of "show_int t" u]] show ?thesis
    by (auto simp: pg_update_last_sync_def catch_string_def)
qed

subsection \<open>Reading\<close>

definition row_fits :: "account \<Rightarrow> bool" where
  "row_fits a \<longleftrightarrow> row_length (take 6 (account_row a)) + 6 \<le> 1024"

lemma pg_account_row: "writable a \<Longrightarrow> pg_account (account_row a) = a"
  using atol_show_int [of "update_time a" "[]"]
  by (cases a) (simp add: pg_account_def account_row_def writable_def)

lemma get_accounts_answers:
  assumes "pg_serves P refs db good" "pg_ready good c st"
    and "\<And>n a. accounts_table (db (net st)) u n = Some a \<Longrightarrow> row_fits a \<and> writable a"
  shows "\<exists>m w. pg_get_accounts P u st = (Ret m, st\<lparr>net := w\<rparr>) \<and> smap_inv m \<and>
    map_of m = accounts_table (db (net st)) u \<and> db w = db (net st) \<and> good c w"
proof -
  obtain r w as where r: "PQexecPrepared_wrapper P ''get_accounts_for_user_pre'' [u] st = (Ret r, st\<lparr>net := w\<rparr>)"
    "r = Pg_tuples (map account_row as)" "distinct (map account_name as)" "db w = db (net st)" "good c w"
    "map_of (map (\<lambda>a. (account_name a, a)) as) = accounts_table (db (net st)) u"
    using prepared_answers(1) [OF assms(1,2) prepared_members(4) statements(4) [of u]] by auto
  have "map_of (map (\<lambda>a. (account_name a, a)) as) (account_name a) = Some a" if "a \<in> set as" for a
    using r(3) that by (intro map_of_is_SomeI) (auto simp: comp_def)
  then have a: "\<forall>a \<in> set as. row_fits a \<and> writable a" using assms(3) r(6) by metis
  let ?rows = "map account_row as" and ?m = "fold (\<lambda>(k, v). map_emplace k v) (map (\<lambda>a. (account_name a, a)) as) []"
  have l: "list_all (\<lambda>row. 8 \<le> length row \<and> row_length (take 6 row) + 6 \<le> 1024) ?rows"
    using a by (auto simp: list_all_iff row_fits_def account_row_def)
  have k: "map (\<lambda>row. (row ! 0, pg_account row)) ?rows = map (\<lambda>a. (account_name a, a)) as"
    using a by (simp add: pg_account_row) (simp add: account_row_def)
  have "pg_rows ?rows (rows_heap (length ?rows)) [] = Some ?m"
    unfolding k [symmetric] by (rule pg_rows_fits [OF l rows_heap_ok])
  then have "pg_get_accounts P u st = (Ret ?m, st\<lparr>net := w\<rparr>)"
    using r(1,2) by (simp add: pg_get_accounts_def catch_string_def)
  moreover have "smap_inv ?m" by (rule smap.inv_emplace_all [OF smap.inv_empty])
  moreover have "map_of ?m = accounts_table (db (net st)) u"
    unfolding r(6) [symmetric] by (rule ext) (simp add: smap.lookup_emplace_all [OF smap.inv_empty])
  ultimately show ?thesis using r(4,5) by blast
qed

lemma read_users_rows:
  "map (take 3) rows = map (\<lambda>(u, p, t). [u, p, t]) us \<Longrightarrow>
    read_users rows acc = Some (rev (map (\<lambda>(u, p, t). \<lparr>User_uuid = u, User_password = p, User_last_sync = atol t\<rparr>) us) @ acc)"
proof (induction us arbitrary: rows acc)
  case (Cons x us)
  obtain u p t where x: "x = (u, p, t)" by (cases x) auto
  with Cons.prems obtain row rows' where r: "rows = row # rows'" "take 3 row = [u, p, t]"
    "map (take 3) rows' = map (\<lambda>(u, p, t). [u, p, t]) us" by auto
  then obtain rest where "row = u # p # t # rest" by (cases row; cases "tl row"; cases "tl (tl row)") auto
  with r(1) x Cons.IH [OF r(3)] show ?case by (simp add: column_def)
qed simp

lemma getAllUsers_answers:
  assumes "pg_serves P refs db good" "pg_ready good c st"
  shows "\<exists>us w. pg_getAllUsers P st =
      (Ret (rev (map (\<lambda>(u, p, t). \<lparr>User_uuid = u, User_password = p, User_last_sync = atol t\<rparr>) us)), st\<lparr>net := w\<rparr>) \<and>
    map_of us = users_table (db (net st)) \<and> db w = db (net st) \<and> good c w"
proof -
  obtain r w us rows where r: "PQexec_wrapper P GET_USERS_SQL st = (Ret r, st\<lparr>net := w\<rparr>)" "r = Pg_tuples rows"
    "map (take 3) rows = map (\<lambda>(u, p, t). [u, p, t]) us" "map_of us = users_table (db (net st))" "db w = db (net st)" "good c w"
    using exec_answers(1) [OF assms statements(5)] by auto
  from read_users_rows [OF r(3), of "[]"] r show ?thesis by (auto simp: pg_getAllUsers_def catch_string_def)
qed

subsection \<open>Writing accounts\<close>

definition writes :: "string \<Rightarrow> account list \<Rightarrow> bool" where
  "writes u as \<longleftrightarrow> length u \<le> 34 \<and> plain u \<and> list_all plain_account as \<and> rows_bytes as + 34 \<le> 2 ^ 26"

lemma upsert_answers:
  assumes "pg_serves P refs db good" "pg_ready good c st" "as \<noteq> []" "upsert_sql u as = Ret sql" "read_upsert sql = Some xs"
  shows "\<not> pg_fails refs (Upsert xs) (db (net st)) \<Longrightarrow> \<exists>w. pg_upsert P u as st = (Ret True, st\<lparr>net := w\<rparr>) \<and> good c w \<and>
      db w = (db (net st))\<lparr>accounts_table := the (upsert_table xs [] (accounts_table (db (net st))))\<rparr>"
    "pg_fails refs (Upsert xs) (db (net st)) \<Longrightarrow> \<exists>w. pg_upsert P u as st =
      (Throw ''Error in ::upsert_accounts_for_user'', st\<lparr>net := w\<rparr>) \<and> good c w \<and> db w = db (net st)"
proof -
  note e = exec_answers [OF assms(1,2) statement_upsert [OF assms(5)]]
  let ?d = "db (net st)"
  show "\<exists>w. pg_upsert P u as st = (Ret True, st\<lparr>net := w\<rparr>) \<and> good c w \<and>
      db w = ?d\<lparr>accounts_table := the (upsert_table xs [] (accounts_table ?d))\<rparr>" if n: "\<not> pg_fails refs (Upsert xs) ?d"
  proof -
    obtain r w where w: "PQexec_wrapper P sql st = (Ret r, st\<lparr>net := w\<rparr>)" "pg_exec refs (Upsert xs) ?d r (db w)" "good c w"
      using e(1) [OF n] by blast
    obtain t where "upsert_table xs [] (accounts_table ?d) = Some t" using n by (cases "upsert_table xs [] (accounts_table ?d)") auto
    then have "db w = ?d\<lparr>accounts_table := the (upsert_table xs [] (accounts_table ?d))\<rparr>"
      using w(2) n by (simp split: if_splits)
    moreover have "pg_upsert P u as st = (Ret True, st\<lparr>net := w\<rparr>)"
      using assms(3,4) w(1) by (simp add: pg_upsert_def catch_string_def)
    ultimately show ?thesis using w(3) by blast
  qed
  show "\<exists>w. pg_upsert P u as st = (Throw ''Error in ::upsert_accounts_for_user'', st\<lparr>net := w\<rparr>) \<and> good c w \<and> db w = ?d"
    if f: "pg_fails refs (Upsert xs) ?d"
  proof -
    obtain w where "PQexec_wrapper P sql st = (Throw ''Error executing PQexec_wrapper'', st\<lparr>net := w\<rparr>)" "good c w" "db w = ?d"
      using e(2) [OF f] by blast
    then show ?thesis using assms(3,4) by (intro exI [of _ w]) (simp add: pg_upsert_def catch_string_def)
  qed
qed

lemma upsert_writes:
  assumes "pg_serves P refs db good" "pg_ready good c st" "as \<noteq> []" "writes u as" "list_all (\<lambda>x. account_uuid x = u) as"
  shows "\<not> pg_fails refs (Upsert as) (db (net st)) \<Longrightarrow> \<exists>w. pg_upsert P u as st = (Ret True, st\<lparr>net := w\<rparr>) \<and> good c w \<and>
      db w = (db (net st))\<lparr>accounts_table := the (upsert_table as [] (accounts_table (db (net st))))\<rparr>"
    "pg_fails refs (Upsert as) (db (net st)) \<Longrightarrow> \<exists>w. pg_upsert P u as st =
      (Throw ''Error in ::upsert_accounts_for_user'', st\<lparr>net := w\<rparr>) \<and> good c w \<and> db w = db (net st)"
proof -
  have w: "length u \<le> 34" "plain u" "list_all plain_account as" "rows_bytes as + 34 \<le> 2 ^ 26"
    using assms(4) by (simp_all add: writes_def)
  have "list_all writable as" using w(3) by (auto simp: list_all_iff plain_account_def)
  from upsert_sql_fits [OF w(1) this assms(3) w(4)] have s: "upsert_sql u as = Ret (upsert_statement u as)" .
  have "map (owned u) as = as" using assms(5) by (intro map_idI) (auto simp: list_all_iff owned_def)
  with read_upsert_statement [OF w(3,2) assms(3)] have r: "read_upsert (upsert_statement u as) = Some as" by simp
  note x = upsert_answers [OF assms(1-3) s r]
  show "\<not> pg_fails refs (Upsert as) (db (net st)) \<Longrightarrow> \<exists>w. pg_upsert P u as st = (Ret True, st\<lparr>net := w\<rparr>) \<and> good c w \<and>
      db w = (db (net st))\<lparr>accounts_table := the (upsert_table as [] (accounts_table (db (net st))))\<rparr>" by (rule x(1))
  show "pg_fails refs (Upsert as) (db (net st)) \<Longrightarrow> \<exists>w. pg_upsert P u as st =
      (Throw ''Error in ::upsert_accounts_for_user'', st\<lparr>net := w\<rparr>) \<and> good c w \<and> db w = db (net st)" by (rule x(2))
qed

end
