(* ===== verification/PostgresRefines.thy ===== *)
theory PostgresRefines
  imports RedisRefines PostgresServer
begin

text \<open>
  The Postgres store refines an abstract store too, but another one than Redis: a newer account replaces
  an older one and not the other way round, an account can be in a message once only, registering an
  address again fails, and a registration takes over the accounts that are stored under its address.
\<close>

section \<open>The abstract store\<close>

fun upsert_newest :: "account list \<Rightarrow> string list \<Rightarrow> account smap \<Rightarrow> account smap option" where
  "upsert_newest [] touched m = Some m"
| "upsert_newest (x # xs) touched m =
     (case map_of m (account_name x) of
        None \<Rightarrow> upsert_newest xs (account_name x # touched) (map_assign (account_name x) x m)
      | Some y \<Rightarrow>
          if account_name x \<in> set touched then None
          else if update_time x > update_time y then
            upsert_newest xs (account_name x # touched) (map_assign (account_name x) x m)
          else upsert_newest xs touched m)"

definition newest_store :: "bool \<Rightarrow> abstract_db IDataStore" where
  "newest_store refs = \<lparr>
     getAllUsers = getAllUsers abstract_store,
     createUser = (\<lambda>u a.
       if map_of (abs_users a) (User_uuid u) = None then
         (Ret True, a\<lparr>abs_users := map_assign (User_uuid u) (User_password u) (abs_users a)\<rparr>)
       else (Throw ''Error in ::createUser'', a)),
     delete_user_op = (\<lambda>u a. (Ret True, a\<lparr>abs_users := map_erase (User_uuid u) (abs_users a),
       abs_accounts := if refs \<and> map_of (abs_users a) (User_uuid u) \<noteq> None then (abs_accounts a)(User_uuid u := [])
         else abs_accounts a\<rparr>)),
     get_accounts_for_user = (\<lambda>e a. (Ret (abs_accounts a e), a)),
     upsert_accounts_for_user = (\<lambda>e as a.
       if as = [] then (Ret True, a)
       else if refs \<and> map_of (abs_users a) e = None then (Throw ''Error in ::upsert_accounts_for_user'', a)
       else
         (case upsert_newest as [] (abs_accounts a e) of
            None \<Rightarrow> (Throw ''Error in ::upsert_accounts_for_user'', a)
          | Some m \<Rightarrow> (Ret True, a\<lparr>abs_accounts := (abs_accounts a)(e := m)\<rparr>))),
     update_last_sync_for_user = (\<lambda>e t a. (Ret (bigint (show_int t)), a))\<rparr>"

text \<open>On the table of all accounts, and on the accounts of their owner.\<close>

lemma upsert_table_owner:
  assumes "list_all (\<lambda>x. account_uuid x = e) as" "smap_inv m" "map_of m = t e"
  shows "upsert_table as (map (Pair e) touched) t = map_option (\<lambda>m. t(e := map_of m)) (upsert_newest as touched m) \<and>
    (\<forall>m'. upsert_newest as touched m = Some m' \<longrightarrow> smap_inv m')"
  using assms
proof (induction as arbitrary: m t touched)
  case Nil
  then show ?case by auto
next
  case (Cons x xs)
  let ?n = "account_name x" and ?m = "map_assign (account_name x) x m" and ?t = "t(e := (t e)(account_name x \<mapsto> x))"
  have x: "account_uuid x = e" "list_all (\<lambda>x. account_uuid x = e) xs" using Cons.prems(1) by simp_all
  have a: "smap_inv ?m" "map_of ?m = ?t e"
    using Cons.prems(2,3) by (simp_all add: smap.inv_assign fun_eq_iff map_of_assign)
  have "upsert_table xs (map (Pair e) (?n # touched)) ?t = map_option (\<lambda>m. ?t(e := map_of m)) (upsert_newest xs (?n # touched) ?m) \<and>
    (\<forall>m'. upsert_newest xs (?n # touched) ?m = Some m' \<longrightarrow> smap_inv m')"
    by (rule Cons.IH [where m = ?m and t = ?t and touched = "?n # touched"]) (rule x(2) a)+
  then have ih: "upsert_table xs ((e, ?n) # map (Pair e) touched) ?t = map_option (\<lambda>m. t(e := map_of m)) (upsert_newest xs (?n # touched) ?m)"
    "\<forall>m'. upsert_newest xs (?n # touched) ?m = Some m' \<longrightarrow> smap_inv m'"
    unfolding list.map fun_upd_upd by blast+
  have "upsert_table xs (map (Pair e) touched) t = map_option (\<lambda>m. t(e := map_of m)) (upsert_newest xs touched m) \<and>
    (\<forall>m'. upsert_newest xs touched m = Some m' \<longrightarrow> smap_inv m')"
    by (rule Cons.IH [where m = m and t = t and touched = touched]) (rule x(2) Cons.prems(2,3))+
  then have ih': "upsert_table xs (map (Pair e) touched) t = map_option (\<lambda>m. t(e := map_of m)) (upsert_newest xs touched m)"
    "\<forall>m'. upsert_newest xs touched m = Some m' \<longrightarrow> smap_inv m'"
    by blast+
  have in_touched: "(e, ?n) \<in> Pair e ` set touched \<longleftrightarrow> ?n \<in> set touched" by auto
  show ?case
    using ih ih' Cons.prems(3) by (simp add: Let_def x(1) in_touched fun_upd_def split: option.splits)
qed

lemma upsert_newest_members:
  "upsert_newest as touched m = Some m' \<Longrightarrow> map_of m' n = Some x \<Longrightarrow> x \<in> set as \<or> map_of m n = Some x"
proof (induction as arbitrary: m touched)
  case (Cons y ys)
  then show ?case
    by (fastforce simp: map_of_assign split: option.splits if_splits)
qed simp

section \<open>The relation\<close>

definition pg_holds :: "pg_db \<Rightarrow> abstract_db \<Rightarrow> bool" where
  "pg_holds d a \<longleftrightarrow> smap_inv (abs_users a) \<and> map_of (abs_users a) = map_option fst \<circ> users_table d \<and>
     (\<forall>u. smap_inv (abs_accounts a u) \<and> map_of (abs_accounts a u) = accounts_table d u) \<and>
     (\<forall>u n x. accounts_table d u n = Some x \<longrightarrow> row_fits x \<and> writable x)"

lemma pg_holdsD:
  assumes "pg_holds d a"
  shows "smap_inv (abs_users a)" "map_of (abs_users a) = map_option fst \<circ> users_table d"
    "smap_inv (abs_accounts a u)" "map_of (abs_accounts a u) = accounts_table d u"
    "accounts_table d u n = Some x \<Longrightarrow> row_fits x \<and> writable x"
  using assms by (auto simp: pg_holds_def)

definition pg_sim ::
  "('c, 'w) libpq \<Rightarrow> bool \<Rightarrow> ('w \<Rightarrow> pg_db) \<Rightarrow> ('c \<Rightarrow> 'w \<Rightarrow> bool) \<Rightarrow> string \<Rightarrow> ('c, 'w) store_state \<Rightarrow> abstract_db \<Rightarrow> bool" where
  "pg_sim P refs db good stale st a \<longleftrightarrow> pg_serves P refs db good \<and> bigint stale \<and> pg_holds (db (net st)) a \<and>
     (\<exists>c. pg_ready good c st)"

lemma pg_simE:
  assumes "pg_sim P refs db good stale st a"
  obtains c where "pg_serves P refs db good" "bigint stale" "pg_holds (db (net st)) a" "pg_ready good c st"
  using assms by (auto simp: pg_sim_def)

lemma pg_simI:
  "pg_serves P refs db good \<Longrightarrow> bigint stale \<Longrightarrow> pg_ready good c st \<Longrightarrow> good c w \<Longrightarrow> pg_holds (db w) a \<Longrightarrow>
    pg_sim P refs db good stale (st\<lparr>net := w\<rparr>) a"
  using pg_ready_net [of good c st w] by (auto simp: pg_sim_def)

text \<open>The accounts a message may carry, and the addresses that fit the buffer of the statement.\<close>

definition pg_known :: "string set" where
  "pg_known = {u. length u \<le> 34 \<and> plain u}"

definition pg_fits :: "account list \<Rightarrow> bool" where
  "pg_fits as \<longleftrightarrow> list_all (\<lambda>x. plain_account x \<and> row_fits x) as \<and> rows_bytes as + 34 \<le> 2 ^ 26"

lemma pg_writes: "u \<in> pg_known \<Longrightarrow> pg_fits as \<Longrightarrow> writes u as"
  by (auto simp: pg_known_def pg_fits_def writes_def list_all_iff)

lemma added_holds: "pg_holds d a \<Longrightarrow>
    pg_holds (pg_added u t d) (a\<lparr>abs_users := map_assign (User_uuid u) (User_password u) (abs_users a)\<rparr>)"
  by (auto simp: pg_holds_def pg_added_def smap.inv_assign map_of_assign fun_eq_iff)

lemma removed_holds:
  assumes "pg_holds d a"
  shows "pg_holds (pg_removed refs (User_uuid u) d) (snd (delete_user_op (newest_store refs) u a))"
proof -
  have "map_of (abs_users a) e = None \<longleftrightarrow> users_table d e = None" for e using pg_holdsD(2) [OF assms] by simp
  with assms show ?thesis
    by (auto simp: pg_holds_def pg_removed_def newest_store_def smap.inv_erase map_of_erase smap.inv_empty fun_eq_iff)
qed

lemma upsert_holds_newest:
  assumes "pg_holds d a" "list_all (\<lambda>x. account_uuid x = e) as" "pg_fits as"
  shows "case upsert_newest as [] (abs_accounts a e) of
      None \<Rightarrow> upsert_table as [] (accounts_table d) = None
    | Some m \<Rightarrow> \<exists>t. upsert_table as [] (accounts_table d) = Some t \<and>
        pg_holds (d\<lparr>accounts_table := t\<rparr>) (a\<lparr>abs_accounts := (abs_accounts a)(e := m)\<rparr>)"
proof -
  note x = upsert_table_owner [OF assms(2) pg_holdsD(3,4) [OF assms(1)], of "[]"]
  show ?thesis
  proof (cases "upsert_newest as [] (abs_accounts a e)")
    case None
    with x show ?thesis by simp
  next
    case (Some m)
    have "row_fits y \<and> writable y" if "map_of m n = Some y" for n y
      using upsert_newest_members [OF Some that] assms(3) pg_holdsD(4,5) [OF assms(1)]
      by (auto simp: pg_fits_def list_all_iff plain_account_def)
    with Some x assms(1) show ?thesis by (auto simp: pg_holds_def)
  qed
qed

lemma upsert_agrees_newest:
  assumes "pg_serves P refs db good" "bigint stale" "pg_holds (db (net s)) a" "pg_ready good c s"
    and "e \<in> pg_known" "list_all (\<lambda>x. account_uuid x = e) as" "pg_fits as"
  shows "agree (pg_sim P refs db good stale) (upsert_accounts_for_user (data_store_connection P stale) e as s)
    (upsert_accounts_for_user (newest_store refs) e as a)"
proof (cases "as = []")
  case True
  with assms(1-4) show ?thesis by (auto simp: data_store_connection_def newest_store_def agree_def pg_upsert_def pg_sim_def)
next
  case False
  let ?d = "db (net s)"
  note u = upsert_writes [OF assms(1,4) False pg_writes [OF assms(5,7)] assms(6)]
  have n: "map_of (abs_users a) e = None \<longleftrightarrow> users_table ?d e = None" using pg_holdsD(2) [OF assms(3)] by simp
  have o: "list_all (\<lambda>x. users_table ?d (account_uuid x) \<noteq> None) as \<longleftrightarrow> users_table ?d e \<noteq> None"
    using assms(6) False by (cases as) (auto simp: list_all_iff)
  note h = upsert_holds_newest [OF assms(3,6,7)]
  show ?thesis
  proof (cases "pg_fails refs (Upsert as) ?d")
    case True
    then obtain w where "pg_upsert P e as s = (Throw ''Error in ::upsert_accounts_for_user'', s\<lparr>net := w\<rparr>)" "good c w" "db w = ?d"
      using u(2) by blast
    moreover have "upsert_accounts_for_user (newest_store refs) e as a = (Throw ''Error in ::upsert_accounts_for_user'', a)"
      using True False n o h by (auto simp: newest_store_def split: option.splits)
    ultimately show ?thesis
      using pg_simI [OF assms(1,2,4)] assms(3) by (simp add: data_store_connection_def agree_def)
  next
    case ok: False
    then obtain w where w: "pg_upsert P e as s = (Ret True, s\<lparr>net := w\<rparr>)" "good c w"
      "db w = ?d\<lparr>accounts_table := the (upsert_table as [] (accounts_table ?d))\<rparr>"
      using u(1) by blast
    obtain m where m: "upsert_newest as [] (abs_accounts a e) = Some m"
      using ok h by (cases "upsert_newest as [] (abs_accounts a e)") auto
    then have "pg_holds (db w) (a\<lparr>abs_accounts := (abs_accounts a)(e := m)\<rparr>)" using h w(3) by auto
    moreover have "upsert_accounts_for_user (newest_store refs) e as a = (Ret True, a\<lparr>abs_accounts := (abs_accounts a)(e := m)\<rparr>)"
      using ok False n o m by (auto simp: newest_store_def)
    ultimately show ?thesis
      using w pg_simI [OF assms(1,2,4) w(2)] by (simp add: data_store_connection_def agree_def)
  qed
qed

section \<open>The refinement\<close>

interpretation postgres: store_refinement "data_store_connection P stale" "newest_store refs" "pg_sim P refs db good stale" pg_known pg_fits
  for P :: "('c, 'w) libpq" and stale refs db good
proof (unfold_locales, goal_cases)
  case (1 s a)
  then obtain c where x: "pg_serves P refs db good" "bigint stale" "pg_holds (db (net s)) a" "pg_ready good c s" by (rule pg_simE)
  obtain us w where g: "pg_getAllUsers P s =
      (Ret (rev (map (\<lambda>(u, p, t). \<lparr>User_uuid = u, User_password = p, User_last_sync = atol t\<rparr>) us)), s\<lparr>net := w\<rparr>)"
    "map_of us = users_table (db (net s))" "db w = db (net s)" "good c w"
    using getAllUsers_answers [OF x(1,4)] by blast
  let ?vs = "rev (map (\<lambda>(u, p, t). \<lparr>User_uuid = u, User_password = p, User_last_sync = atol t\<rparr>) us)"
  have "map_of (map (\<lambda>(u, p, t). (u, p)) us) = map_option fst \<circ> map_of us" by (induction us) (auto simp: fun_eq_iff)
  then have "stored_passwords ?vs = map_of (abs_users a)"
    using pg_holdsD(2) [OF x(3)] g(2) by (simp add: stored_passwords_def rev_map comp_def case_prod_unfold)
  moreover have "stored_passwords (map (\<lambda>(u, p). \<lparr>User_uuid = u, User_password = p, User_last_sync = 0\<rparr>) (abs_users a)) = map_of (abs_users a)"
    using map_of_rev_smap [OF pg_holdsD(1) [OF x(3)]] by (simp add: stored_passwords_def comp_def case_prod_unfold)
  ultimately show ?case
    using pg_simI [OF x(1,2,4) g(4)] x(3) g(1,3) by (simp add: data_store_connection_def newest_store_def abstract_store_def)
next
  case (2 s a u)
  then obtain c where x: "pg_serves P refs db good" "bigint stale" "pg_holds (db (net s)) a" "pg_ready good c s"
    by (auto elim: pg_simE)
  have n: "map_of (abs_users a) (User_uuid u) = None \<longleftrightarrow> users_table (db (net s)) (User_uuid u) = None"
    using pg_holdsD(2) [OF x(3)] by simp
  show ?case
  proof (cases "users_table (db (net s)) (User_uuid u) = None")
    case True
    from createUser_answers(1) [OF x(1,4,2) True] obtain w where
      "pg_createUser P stale u s = (Ret True, s\<lparr>net := w\<rparr>)" "db w = pg_added u stale (db (net s))" "good c w" by blast
    then show ?thesis
      using True n pg_simI [OF x(1,2,4)] added_holds [OF x(3)] by (simp add: data_store_connection_def newest_store_def agree_def)
  next
    case False
    from createUser_answers(2) [OF x(1,4,2) False] obtain w where
      "pg_createUser P stale u s = (Throw ''Error in ::createUser'', s\<lparr>net := w\<rparr>)" "db w = db (net s)" "good c w" by blast
    then show ?thesis
      using False n pg_simI [OF x(1,2,4)] x(3) by (simp add: data_store_connection_def newest_store_def agree_def)
  qed
next
  case (3 s a u u')
  then obtain c where x: "pg_serves P refs db good" "bigint stale" "pg_holds (db (net s)) a" "pg_ready good c s"
    by (auto elim: pg_simE)
  from delete_user_answers [OF x(1,4)] obtain w where
    "pg_delete_user P u s = (Ret True, s\<lparr>net := w\<rparr>)" "db w = pg_removed refs (User_uuid u) (db (net s))" "good c w" by blast
  moreover have "fst (delete_user_op (newest_store refs) u' a) = Ret True" by (simp add: newest_store_def)
  ultimately show ?case
    using pg_simI [OF x(1,2,4)] removed_holds [OF x(3), of refs u'] 3(3) by (simp add: data_store_connection_def agree_def)
next
  case (4 s a e)
  then obtain c where x: "pg_serves P refs db good" "bigint stale" "pg_holds (db (net s)) a" "pg_ready good c s"
    by (auto elim: pg_simE)
  obtain m w where g: "pg_get_accounts P e s = (Ret m, s\<lparr>net := w\<rparr>)" "smap_inv m" "map_of m = accounts_table (db (net s)) e"
    "db w = db (net s)" "good c w"
    using get_accounts_answers [OF x(1,4)] pg_holdsD(5) [OF x(3)] by blast
  have "m = abs_accounts a e" by (rule smap.entries_determined) (use pg_holdsD(3,4) [OF x(3)] g(2,3) in simp_all)
  with g pg_simI [OF x(1,2,4) g(5)] x(3) show ?case by (simp add: data_store_connection_def newest_store_def agree_def)
next
  case (5 s a e as)
  then obtain c where x: "pg_serves P refs db good" "bigint stale" "pg_holds (db (net s)) a" "pg_ready good c s"
    by (auto elim: pg_simE)
  show ?case by (rule upsert_agrees_newest [OF x 5(2-4)])
next
  case (6 s a e t')
  then obtain c where x: "pg_serves P refs db good" "bigint stale" "pg_holds (db (net s)) a" "pg_ready good c s"
    by (auto elim: pg_simE)
  from update_last_sync_answers [OF x(1,4)] obtain w where
    w: "pg_update_last_sync P e t' s = (Ret (bigint (show_int t')), s\<lparr>net := w\<rparr>)" "good c w"
    "accounts_table (db w) = accounts_table (db (net s))" "map_option fst \<circ> users_table (db w) = map_option fst \<circ> users_table (db (net s))"
    by blast
  then have "pg_holds (db w) a" using x(3) by (simp add: pg_holds_def)
  with w pg_simI [OF x(1,2,4) w(2)] show ?case by (simp add: data_store_connection_def newest_store_def agree_def)
qed

end
