(* ===== verification/Histories.thy ===== *)
theory Histories
  imports RedisRefines
begin

text \<open>
  Histories of a server on a Redis server that works: sequences of requests and restarts, answered
  as the abstract store promises, and what they mean for a user who does not take part.
\<close>

section \<open>Histories of a server on Redis\<close>

lemma related_redis:
  assumes "serves R db pend good" "ready pend good c (data st)" "connections (pool (data st)) = c # cs"
    and "separate_set known" "db_holds known (db (net (data st))) (data sa)"
    and "passwords (user_infos st) = passwords (user_infos sa)" "users_ok (user_infos st)" "users_ok (user_infos sa)"
  shows "related (redis_sim R db pend good known) st sa"
  using assms by (auto simp: related_def intro: redis_simI)

text \<open>
  C2: the server on a working Redis refines the server on the abstract store. Every history of
  requests of the four operations, with restarts of the server in between, is answered reply by reply
  as by the server on the abstract store, whose operations are assignments to two maps: whatever
  was accepted before, a restart included, is what later requests see. Afterwards the database
  again holds exactly what the abstract store holds. The users are a set of addresses of which none
  continues another with \<open>.account\<close>, and stored accounts fit the heap and have times that fit a \<open>long\<close>.
\<close>

theorem redis_service_refines:
  assumes "serves R db pend good" "ready pend good c (data st)" "connections (pool (data st)) = c # cs"
    and "separate_set known" "db_holds known (db (net (data st))) (data sa)"
    and "passwords (user_infos st) = passwords (user_infos sa)" "users_ok (user_infos st)" "users_ok (user_infos sa)"
    and "list_all (admissible_event known (list_all account_ok) E) evs"
  shows "fst (service_run (RedisStore R t (Suc rounds)) E evs st) = fst (service_run abstract_store E evs sa) \<and>
    db_holds known (db (net (data (snd (service_run (RedisStore R t (Suc rounds)) E evs st)))))
      (data (snd (service_run abstract_store E evs sa))) \<and>
    passwords (user_infos (snd (service_run (RedisStore R t (Suc rounds)) E evs st))) =
      passwords (user_infos (snd (service_run abstract_store E evs sa)))"
  using redis.service_run_agrees [OF related_redis [OF assms(1-8)] assms(9), of t rounds]
  by (auto simp: related_def redis_sim_def)

text \<open>A history on one environment: requests are told apart by their text.\<close>

definition history_env :: "sample_doc env" where
  "history_env = (sample_env sample_registration)\<lparr>json_lib := (sample_json sample_registration)\<lparr>parse := (\<lambda>r.
     if r = ''register'' then Some sample_registration
     else if r = ''upload'' then Some ann_upload
     else if r = ''sync'' then Some (ann_request ''secret'' [] [])
     else None)\<rparr>\<rparr>"

definition ann_history :: "event list" where
  "ann_history =
     [Request 5 register_config (Some ''register'') POST, Request 6 sync_final (Some ''upload'') POST, Restart,
      Request 7 sync_initial (Some ''sync'') POST, Request 8 delete_user (Some ''sync'') POST, Restart,
      Request 9 sync_initial (Some ''sync'') POST]"

definition two_users :: "string set" where
  "two_users = {''ann@example.com'', ''bob@example.com''}"

definition empty_abstract :: abstract_db where
  "empty_abstract = \<lparr>abs_users = [], abs_accounts = (\<lambda>u. [])\<rparr>"

lemma two_users_separate: "separate_set two_users"
  by (simp add: separate_set_def two_users_def separate_def)

lemma db_holds_empty: "db_holds known (\<lambda>k. None) empty_abstract"
  by (simp add: db_holds_def users_held_def accounts_held_def empty_abstract_def empty_db users_db_ok_def stored_users_def
      hash_of_def is_text_def smap.inv_empty)

lemma ann_history_admissible: "list_all (admissible_event two_users (list_all account_ok) history_env) ann_history"
  by (simp add: ann_history_def admissible_event_def admissible_def history_env_def two_users_def carried_def ann_upload_def
      sample_simps read_account_def account_ok_def in_long_def account_fits_def account_strings_def row_length_def)

lemma ann_history_answers:
  "map (\<lambda>r. \<exists>x. r = Ret x) (fst (service_run abstract_store history_env ann_history (fresh_server empty_abstract))) =
     [True, True, True, True, True, True, False]"
  by (simp add: ann_history_def service_event_def handler_simps sample_simps history_env_def ann_upload_def abstract_store_def
      empty_abstract_def fresh_server_def sync_handler_def read_account_def throw_reply_def)

theorem redis_service_refines_witness:
  "fst (service_run (RedisStore mem_redis 3 1) history_env ann_history (fresh_server (mem_redis_state (\<lambda>k. None)))) =
   fst (service_run abstract_store history_env ann_history (fresh_server empty_abstract)) \<and>
   map (\<lambda>r. \<exists>x. r = Ret x) (fst (service_run (RedisStore mem_redis 3 1) history_env ann_history
     (fresh_server (mem_redis_state (\<lambda>k. None))))) = [True, True, True, True, True, True, False]"
proof -
  let ?st = "fresh_server (mem_redis_state (\<lambda>k. None))" and ?sa = "fresh_server empty_abstract"
  have r: "ready (\<lambda>c. mem_sent) (\<lambda>c w. hashes_distinct (mem_data w)) () (data ?st)" "connections (pool (data ?st)) = () # []"
    "db_holds two_users (mem_data (net (data ?st))) (data ?sa)"
    using mem_redis_ready [where d = "\<lambda>k. None"] empty_db(1) db_holds_empty by (simp_all add: fresh_server_def)
  have u: "passwords (user_infos ?st) = passwords (user_infos ?sa)" "users_ok (user_infos ?st)" "users_ok (user_infos ?sa)"
    by (simp_all add: fresh_server_def)
  show ?thesis
    using redis_service_refines [OF mem_redis_serves r(1,2) two_users_separate r(3) u ann_history_admissible, of 3 0]
    ann_history_answers by simp
qed

section \<open>Other users\<close>

definition keeps_user :: "string \<Rightarrow> account smap \<Rightarrow> string option \<Rightarrow> abstract_db \<Rightarrow> abstract_db \<Rightarrow> bool" where
  "keeps_user e m p s a \<longleftrightarrow> s = a \<and> abs_accounts s e = m \<and> map_of (abs_users s) e = p"

interpretation others: store_refinement abstract_store abstract_store "keeps_user e m p" "known - {e}" "list_all account_ok"
  for e m p known
  by unfold_locales
    (auto simp: keeps_user_def abstract_store_def agree_def map_of_assign map_of_erase)

lemma admissible_mono: "known \<subseteq> known' \<Longrightarrow> admissible_event known fits E ev \<Longrightarrow> admissible_event known' fits E ev"
  by (cases ev) (auto simp: admissible_event_def admissible_def pred_option_def split: option.splits)

text \<open>
  C10: users with separate addresses do not disturb each other. With a working Redis server, a
  history of requests of other users, with restarts in between, leaves the accounts and the password
  that the database holds for a user as they are, whatever the requests are.
\<close>

theorem redis_users_undisturbed:
  fixes sa :: "abstract_db sync_state"
  assumes "serves R db pend good" "ready pend good c (data st)" "connections (pool (data st)) = c # cs"
    and "separate_set known" "db_holds known (db (net (data st))) (data sa)"
    and "passwords (user_infos st) = passwords (user_infos sa)" "users_ok (user_infos st)" "users_ok (user_infos sa)"
    and "e \<in> known" "list_all (admissible_event (known - {e}) (list_all account_ok) E) evs"
    and "service_run (RedisStore R t (Suc rounds)) E evs st = (rs, st')"
  shows "redis_view (db (net (data st'))) e = redis_view (db (net (data st))) e \<and>
    map_of (stored_users (db (net (data st')))) e = map_of (stored_users (db (net (data st)))) e"
proof -
  let ?sa = "snd (service_run abstract_store E evs sa)"
  have "list_all (admissible_event known (list_all account_ok) E) evs"
    using assms(10) admissible_mono [of "known - {e}" known] by (auto simp: list_all_iff)
  with redis.service_run_agrees [OF related_redis [OF assms(1-8)], of E evs t rounds] assms(11)
  have h: "db_holds known (db (net (data st'))) (data ?sa)" by (auto simp: related_def redis_sim_def)
  have "related (keeps_user e (abs_accounts (data sa) e) (map_of (abs_users (data sa)) e)) sa sa"
    using assms(8) by (simp add: related_def keeps_user_def)
  from others.service_run_agrees [OF this assms(10)]
  have "abs_accounts (data ?sa) e = abs_accounts (data sa) e" "map_of (abs_users (data ?sa)) e = map_of (abs_users (data sa)) e"
    by (simp_all add: related_def keeps_user_def)
  with h assms(5,9) show ?thesis by (simp add: db_holds_def accounts_held_def users_held_def)
qed

text \<open>Bob does not notice what Ann does.\<close>

theorem redis_users_undisturbed_witness:
  "redis_view (mem_data (net (data (snd (service_run (RedisStore mem_redis 3 1) history_env ann_history
     (fresh_server (mem_redis_state (\<lambda>k. None)))))))) ''bob@example.com'' = (\<lambda>n. None)"
proof -
  let ?st = "fresh_server (mem_redis_state (\<lambda>k. None))" and ?sa = "fresh_server empty_abstract"
  have r: "ready (\<lambda>c. mem_sent) (\<lambda>c w. hashes_distinct (mem_data w)) () (data ?st)" "connections (pool (data ?st)) = () # []"
    "db_holds two_users (mem_data (net (data ?st))) (data ?sa)"
    using mem_redis_ready [where d = "\<lambda>k. None"] empty_db(1) db_holds_empty by (simp_all add: fresh_server_def)
  have u: "passwords (user_infos ?st) = passwords (user_infos ?sa)" "users_ok (user_infos ?st)" "users_ok (user_infos ?sa)"
    by (simp_all add: fresh_server_def)
  have b: "''bob@example.com'' \<in> two_users" by (simp add: two_users_def)
  have a: "list_all (admissible_event (two_users - {''bob@example.com''}) (list_all account_ok) history_env) ann_history"
    by (simp add: ann_history_def admissible_event_def admissible_def history_env_def two_users_def carried_def ann_upload_def
        sample_simps read_account_def account_ok_def in_long_def account_fits_def account_strings_def row_length_def)
  have v: "redis_view (mem_data (net (data ?st))) ''bob@example.com'' = (\<lambda>n. None)"
    by (simp add: fresh_server_def mem_redis_ready(3) empty_db(4))
  obtain rs st' where run: "service_run (RedisStore mem_redis 3 (Suc 0)) history_env ann_history ?st = (rs, st')" by fastforce
  from redis_users_undisturbed [OF mem_redis_serves r(1,2) two_users_separate r(3) u b a run] v run
  show ?thesis by simp
qed

end
