(* ===== verification/PostgresHistories.thy ===== *)
theory PostgresHistories
  imports PostgresRefines Histories
begin

text \<open>
  What the refinement means for a server on Postgres, and what it does not cover: a client that puts
  quotes into its accounts, and the accounts that outlive their user.
\<close>

section \<open>A database in memory\<close>

text \<open>A database for the witnesses. It lists rows in the order of their keys.\<close>

definition run_statement :: "bool \<Rightarrow> statement \<Rightarrow> pg_db \<Rightarrow> pg_result \<times> pg_db" where
  "run_statement refs s d =
     (case s of
        Insert_user u p t \<Rightarrow>
          if users_table d u = None \<and> bigint t then (Pg_command_ok, d\<lparr>users_table := (users_table d)(u \<mapsto> (p, t))\<rparr>) else (Pg_error, d)
      | Delete_user u \<Rightarrow>
          (Pg_command_ok, d\<lparr>users_table := (users_table d)(u := None),
             accounts_table := if refs \<and> users_table d u \<noteq> None then (accounts_table d)(u := (\<lambda>n. None)) else accounts_table d\<rparr>)
      | Set_last_sync t u \<Rightarrow>
          if bigint t then (Pg_command_ok, d\<lparr>users_table := (users_table d)(u := map_option (\<lambda>(p, _). (p, t)) (users_table d u))\<rparr>)
          else (Pg_error, d)
      | Accounts_of u \<Rightarrow>
          (Pg_tuples (map (\<lambda>n. account_row (the (accounts_table d u n))) (sorted_list_of_set (dom (accounts_table d u)))), d)
      | All_users \<Rightarrow>
          (Pg_tuples (map (\<lambda>u. case the (users_table d u) of (p, t) \<Rightarrow> [u, p, t, ''1.00'']) (sorted_list_of_set (dom (users_table d)))), d)
      | Upsert as \<Rightarrow>
          if refs \<and> \<not> list_all (\<lambda>x. users_table d (account_uuid x) \<noteq> None) as then (Pg_error, d)
          else
            (case upsert_table as [] (accounts_table d) of
               None \<Rightarrow> (Pg_error, d)
             | Some t \<Rightarrow> (Pg_command_ok, d\<lparr>accounts_table := t\<rparr>)))"

definition mem_pg :: "bool \<Rightarrow> (unit, pg_db) libpq" where
  "mem_pg refs = \<lparr>PQconnectdb = (\<lambda>s w. ((), w)), PQstatus_ok = (\<lambda>c w. True), PQprepare_ok = (\<lambda>c n s k w. (True, w)),
     PQexec = (\<lambda>c sql w. case statement_of sql [] of None \<Rightarrow> (Pg_error, w) | Some s \<Rightarrow> run_statement refs s w),
     PQexecPrepared = (\<lambda>c name vals w.
       case Option.bind (map_of prepared_statements name) (\<lambda>(sql, cnt). statement_of sql vals) of
         None \<Rightarrow> (Pg_error, w)
       | Some s \<Rightarrow> run_statement refs s w),
     PQfinish = (\<lambda>c w. w), pg_config = default_config\<rparr>"

text \<open>The tables are finite and every account has its name as key.\<close>

definition tables_ok :: "pg_db \<Rightarrow> bool" where
  "tables_ok d \<longleftrightarrow> finite (dom (users_table d)) \<and> (\<forall>u. finite (dom (accounts_table d u))) \<and>
     (\<forall>u n a. accounts_table d u n = Some a \<longrightarrow> account_name a = n)"

lemma upsert_table_ok:
  "upsert_table as touched t = Some t' \<Longrightarrow> \<forall>u. finite (dom (t u)) \<Longrightarrow> \<forall>u n a. t u n = Some a \<longrightarrow> account_name a = n \<Longrightarrow>
    (\<forall>u. finite (dom (t' u))) \<and> (\<forall>u n a. t' u n = Some a \<longrightarrow> account_name a = n)"
proof (induction as arbitrary: touched t)
  case (Cons x xs)
  let ?t = "t(account_uuid x := (t (account_uuid x))(account_name x \<mapsto> x))"
  have f: "\<forall>u. finite (dom (?t u))" and n: "\<forall>u n a. ?t u n = Some a \<longrightarrow> account_name a = n"
    using Cons.prems(2,3) by simp_all
  have "(\<exists>w. upsert_table xs w ?t = Some t') \<or> upsert_table xs touched t = Some t'"
    using Cons.prems(1) by (cases "t (account_uuid x) (account_name x)") (simp_all add: Let_def split: if_splits, blast+)
  then show ?case
  proof
    assume "\<exists>w. upsert_table xs w ?t = Some t'"
    then obtain w where "upsert_table xs w ?t = Some t'" by blast
    from Cons.IH [OF this f n] show ?thesis .
  next
    assume "upsert_table xs touched t = Some t'"
    from Cons.IH [OF this Cons.prems(2,3)] show ?thesis .
  qed
qed simp

lemma map_of_sorted:
  assumes "finite (dom m)"
  shows "map_of (map (\<lambda>k. (k, the (m k))) (sorted_list_of_set (dom m))) = m"
proof
  fix k
  show "map_of (map (\<lambda>k. (k, the (m k))) (sorted_list_of_set (dom m))) k = m k"
    using assms by (cases "m k") (auto simp: map_of_map_restrict restrict_map_def dom_def)
qed

lemma run_statement_exec:
  assumes "tables_ok d" "run_statement refs s d = (r, d')"
  shows "pg_exec refs s d r d' \<and> tables_ok d'"
proof (cases s)
  case (Insert_user u p t)
  with assms show ?thesis by (auto simp: run_statement_def tables_ok_def split: if_splits)
next
  case (Delete_user u)
  with assms show ?thesis by (auto simp: run_statement_def tables_ok_def split: if_splits)
next
  case (Set_last_sync t u)
  have "dom ((users_table d)(u := map_option f (users_table d u))) = dom (users_table d)" for f by (auto simp: dom_def)
  with Set_last_sync assms show ?thesis by (auto simp: run_statement_def tables_ok_def split: if_splits)
next
  case (Accounts_of u)
  let ?ns = "sorted_list_of_set (dom (accounts_table d u))" and ?a = "\<lambda>n. the (accounts_table d u n)"
  have f: "finite (dom (accounts_table d u))" using assms(1) by (simp add: tables_ok_def)
  have n: "account_name (?a n) = n" if "n \<in> set ?ns" for n using that f assms(1) by (auto simp: tables_ok_def)
  have k: "map (\<lambda>n. (account_name (?a n), ?a n)) ?ns = map (\<lambda>n. (n, ?a n)) ?ns" "map (\<lambda>n. account_name (?a n)) ?ns = ?ns"
    using n by (simp_all add: map_idI)
  have "r = Pg_tuples (map account_row (map ?a ?ns))" "d' = d"
    using Accounts_of assms(2) by (auto simp: run_statement_def)
  moreover have "distinct (map account_name (map ?a ?ns))" using k(2) by (simp add: comp_def)
  moreover have "map_of (map (\<lambda>a. (account_name a, a)) (map ?a ?ns)) = accounts_table d u"
    unfolding list.map_comp comp_def k(1) by (rule map_of_sorted [OF f])
  ultimately show ?thesis using Accounts_of assms(1) by (simp only: pg_exec.simps) blast
next
  case All_users
  let ?us = "map (\<lambda>u. (u, the (users_table d u))) (sorted_list_of_set (dom (users_table d)))"
  have f: "finite (dom (users_table d))" using assms(1) by (simp add: tables_ok_def)
  have "distinct (map fst ?us)" by (simp add: comp_def)
  moreover have "map_of ?us = users_table d" by (rule map_of_sorted [OF f])
  moreover have "r = Pg_tuples (map (\<lambda>(u, p, t). [u, p, t, ''1.00'']) ?us)" "d' = d"
    using All_users assms(2) by (auto simp: run_statement_def comp_def)
  moreover have "map (take 3) (map (\<lambda>(u, p, t). [u, p, t, ''1.00'']) ?us) = map (\<lambda>(u, p, t). [u, p, t]) ?us"
    by (simp add: case_prod_unfold)
  ultimately show ?thesis using All_users assms(1) by (simp only: pg_exec.simps) blast
next
  case (Upsert as)
  show ?thesis
  proof (cases "upsert_table as [] (accounts_table d)")
    case None
    with Upsert assms show ?thesis by (auto simp: run_statement_def split: if_splits)
  next
    case (Some t)
    with upsert_table_ok [OF Some] assms(1) have "tables_ok (d\<lparr>accounts_table := t\<rparr>)" by (simp add: tables_ok_def)
    with Upsert Some assms show ?thesis by (auto simp: run_statement_def split: if_splits)
  qed
qed

lemma mem_pg_serves: "pg_serves (mem_pg refs) refs (\<lambda>w. w) (\<lambda>c. tables_ok)"
  unfolding pg_serves_def
proof (intro allI impI conjI)
  fix c :: unit and w name sql cnt vals s
  assume w: "tables_ok w" and p: "(name, sql, cnt) \<in> set prepared_statements" "statement_of sql vals = Some s"
  have "distinct (map fst prepared_statements)" by (simp add: prepared_statements_def)
  with p(1) have m: "map_of prepared_statements name = Some (sql, cnt)" by simp
  obtain r w' where r: "run_statement refs s w = (r, w')" by fastforce
  from run_statement_exec [OF w r] r m p(2)
  show "\<exists>r w'. PQexecPrepared (mem_pg refs) c name vals w = (r, w') \<and> pg_exec refs s w r w' \<and> tables_ok w'"
    by (simp add: mem_pg_def)
next
  fix c :: unit and w sql s
  assume w: "tables_ok w" and s: "statement_of sql [] = Some s"
  obtain r w' where r: "run_statement refs s w = (r, w')" by fastforce
  from run_statement_exec [OF w r] r s
  show "\<exists>r w'. PQexec (mem_pg refs) c sql w = (r, w') \<and> pg_exec refs s w r w' \<and> tables_ok w'"
    by (simp add: mem_pg_def)
qed (simp add: mem_pg_def)

section \<open>The server on Postgres\<close>

text \<open>
  C3: the server on a working Postgres refines the server on \<open>newest_store\<close>: every history of requests,
  with restarts in between, is answered reply by reply as by that server, the replies to operations
  the database refuses included, and afterwards the tables hold exactly what the abstract store holds.
  The addresses have at most 34 characters and no quote, nor have the accounts, which fit the heap and the
  statement; the text that \<open>createUser\<close> reads from the destroyed temporary is still a number.
\<close>

theorem postgres_service_refines:
  assumes "pg_serves P refs db good" "bigint stale" "good c (net (data st))" "connections (pool (data st)) = c # cs"
    and "pg_holds (db (net (data st))) (data sa)"
    and "passwords (user_infos st) = passwords (user_infos sa)" "users_ok (user_infos st)" "users_ok (user_infos sa)"
    and "list_all (admissible_event pg_known pg_fits E) evs"
  shows "fst (service_run (data_store_connection P stale) E evs st) = fst (service_run (newest_store refs) E evs sa) \<and>
    pg_holds (db (net (data (snd (service_run (data_store_connection P stale) E evs st)))))
      (data (snd (service_run (newest_store refs) E evs sa))) \<and>
    passwords (user_infos (snd (service_run (data_store_connection P stale) E evs st))) =
      passwords (user_infos (snd (service_run (newest_store refs) E evs sa)))"
proof -
  have "related (pg_sim P refs db good stale) st sa"
    using assms(1-8) by (auto simp: related_def pg_sim_def pg_ready_def)
  from postgres.service_run_agrees [OF this assms(9)] show ?thesis by (auto simp: related_def pg_sim_def)
qed

text \<open>An empty database.\<close>

definition mem_pg_state :: "(unit, pg_db) store_state" where
  "mem_pg_state = \<lparr>pool = \<lparr>connections = [()], currentConnections = 1\<rparr>,
     net = \<lparr>users_table = (\<lambda>u. None), accounts_table = (\<lambda>u n. None)\<rparr>\<rparr>"

lemma mem_pg_state_holds: "pg_holds (net mem_pg_state) empty_abstract"
  by (simp add: pg_holds_def mem_pg_state_def empty_abstract_def smap.inv_empty fun_eq_iff)

lemma ann_history_fits: "list_all (admissible_event pg_known pg_fits history_env) ann_history"
proof -
  have "length (show_int 17) \<le> 20" by (rule length_show_int) simp
  then show ?thesis
    by (simp add: ann_history_def admissible_event_def admissible_def history_env_def carried_def ann_upload_def sample_simps
        read_account_def pg_known_def pg_fits_def plain_account_def plain_def SQ_def writable_def row_fits_def row_length_def
        account_row_def rows_bytes_def row_needed_def)
qed

lemma ann_history_newest:
  "map (\<lambda>r. \<exists>x. r = Ret x) (fst (service_run (newest_store True) history_env ann_history (fresh_server empty_abstract))) =
     [True, True, True, True, True, True, False]"
proof -
  have "bigint (show_int 6)" by (simp add: bigint_def) code_simp
  then show ?thesis
    by (simp add: ann_history_def service_event_def handler_simps sample_simps history_env_def ann_upload_def abstract_store_def
        newest_store_def empty_abstract_def fresh_server_def sync_handler_def read_account_def throw_reply_def)
qed

theorem postgres_service_refines_witness:
  "fst (service_run (data_store_connection (mem_pg True) ''1'') history_env ann_history (fresh_server mem_pg_state)) =
   fst (service_run (newest_store True) history_env ann_history (fresh_server empty_abstract)) \<and>
   map (\<lambda>r. \<exists>x. r = Ret x) (fst (service_run (data_store_connection (mem_pg True) ''1'') history_env ann_history
     (fresh_server mem_pg_state))) = [True, True, True, True, True, True, False]"
proof -
  let ?st = "fresh_server mem_pg_state" and ?sa = "fresh_server empty_abstract"
  have b: "bigint ''1''" by code_simp
  have g: "tables_ok (net (data ?st))" "connections (pool (data ?st)) = () # []" "pg_holds (net (data ?st)) (data ?sa)"
    using mem_pg_state_holds by (simp_all add: fresh_server_def mem_pg_state_def tables_ok_def)
  have u: "passwords (user_infos ?st) = passwords (user_infos ?sa)" "users_ok (user_infos ?st)" "users_ok (user_infos ?sa)"
    by (simp_all add: fresh_server_def)
  show ?thesis
    using postgres_service_refines [OF mem_pg_serves b g u ann_history_fits] ann_history_newest by simp
qed

end
