(* ===== verification/PostgresClients.thy ===== *)
theory PostgresClients
  imports PostgresHistories
begin

text \<open>
  What clients of a server on Postgres can count on, and what one client can do to another: the newer
  version of an account stays; a quote in an account reaches the accounts of someone else; and the
  accounts of a deleted user wait for whoever registers the address next.
\<close>

section \<open>The newer version stays\<close>

definition newer :: "account option \<Rightarrow> account option \<Rightarrow> account option" where
  "newer was came =
     (case (was, came) of
        (Some a, Some b) \<Rightarrow> if update_time b > update_time a then Some b else Some a
      | (None, _) \<Rightarrow> came
      | (_, None) \<Rightarrow> was)"

lemma newer_simps [simp]:
  "newer None y = y"
  "newer x None = x"
  "newer (Some a) (Some b) = (if update_time b > update_time a then Some b else Some a)"
  by (auto simp: newer_def split: option.splits)

definition sent_accounts :: "account list \<Rightarrow> string \<rightharpoonup> account" where
  "sent_accounts as = map_of (map (\<lambda>a. (account_name a, a)) as)"

lemma upsert_table_newer:
  "list_all (\<lambda>a. account_uuid a = u) as \<Longrightarrow> distinct (map account_name as) \<Longrightarrow>
    (\<forall>a \<in> set as. (u, account_name a) \<notin> set touched) \<Longrightarrow>
    upsert_table as touched t = Some (t(u := (\<lambda>n. newer (t u n) (sent_accounts as n))))"
proof (induction as arbitrary: touched t)
  case Nil
  then show ?case by (simp add: sent_accounts_def)
next
  case (Cons x xs)
  let ?n = "account_name x" and ?t = "t(u := (t u)(account_name x \<mapsto> x))"
  have x: "account_uuid x = u" "list_all (\<lambda>a. account_uuid a = u) xs" "distinct (map account_name xs)"
    "(u, ?n) \<notin> set touched" "\<forall>a \<in> set xs. (u, account_name a) \<notin> set touched" "?n \<notin> account_name ` set xs"
    using Cons.prems by simp_all
  from x(5,6) have x': "\<forall>a \<in> set xs. (u, account_name a) \<notin> set ((u, ?n) # touched)" by (auto simp: image_iff)
  have s: "sent_accounts xs ?n = None" using Cons.prems(2) by (auto simp: sent_accounts_def map_of_eq_None_iff)
  have m: "sent_accounts (x # xs) = (sent_accounts xs)(?n \<mapsto> x)" by (simp add: sent_accounts_def)
  have "upsert_table xs ((u, ?n) # touched) ?t = Some (?t(u := (\<lambda>n. newer (?t u n) (sent_accounts xs n))))"
    by (rule Cons.IH) (rule x(2,3) x')+
  then have taken: "upsert_table xs ((u, ?n) # touched) ?t = Some (t(u := (\<lambda>n. newer (?t u n) (sent_accounts xs n))))"
    unfolding fun_upd_upd .
  have kept: "upsert_table xs touched t = Some (t(u := (\<lambda>n. newer (t u n) (sent_accounts xs n))))"
    by (rule Cons.IH) (rule x(2,3,5))+
  show ?case
  proof (cases "t u ?n")
    case None
    have "(\<lambda>n. newer (?t u n) (sent_accounts xs n)) = (\<lambda>n. newer (t u n) (sent_accounts (x # xs) n))"
      by (rule ext) (simp add: m s None)
    with taken None show ?thesis by (simp add: Let_def x(1) del: fun_upd_apply)
  next
    case (Some y)
    show ?thesis
    proof (cases "update_time x > update_time y")
      case True
      have "(\<lambda>n. newer (?t u n) (sent_accounts xs n)) = (\<lambda>n. newer (t u n) (sent_accounts (x # xs) n))"
        by (rule ext) (simp add: m s Some True)
      with taken Some True show ?thesis by (simp add: Let_def x(1,4) del: fun_upd_apply)
    next
      case False
      have "(\<lambda>n. newer (t u n) (sent_accounts xs n)) = (\<lambda>n. newer (t u n) (sent_accounts (x # xs) n))"
        by (rule ext) (simp add: m s Some False)
      with kept Some False show ?thesis by (simp add: Let_def x(1,4) del: fun_upd_apply)
    qed
  qed
qed

lemma data_store_simps:
  "upsert_accounts_for_user (data_store_connection P stale) = pg_upsert P"
  "update_last_sync_for_user (data_store_connection P stale) = pg_update_last_sync P"
  "get_accounts_for_user (data_store_connection P stale) = pg_get_accounts P"
  "createUser (data_store_connection P stale) = pg_createUser P stale"
  "delete_user_op (data_store_connection P stale) = pg_delete_user P"
  by (simp_all add: data_store_connection_def)

text \<open>An accepted \<open>sync-final\<close> whose statement reads as \<open>xs\<close> and does not fail.\<close>

lemma sync_final_on_postgres:
  assumes "pg_serves P refs db good" "pg_ready good c (data st)" "authentic E request st" "carries E request email as"
    and "bigint (show_int now)" "as \<noteq> []" "upsert_sql email as = Ret sql" "read_upsert sql = Some xs"
    and "\<not> pg_fails refs (Upsert xs) (db (net (data st)))"
  shows "\<exists>w. handle_request (data_store_connection P stale) E now sync_final (Some request) POST st =
      (Ret sync_final_resp, st\<lparr>data := (data st)\<lparr>net := w\<rparr>\<rparr>) \<and> good c w \<and>
    accounts_table (db w) = the (upsert_table xs [] (accounts_table (db (net (data st)))))"
proof -
  obtain w where w: "pg_upsert P email as (data st) = (Ret True, (data st)\<lparr>net := w\<rparr>)" "good c w"
    "db w = (db (net (data st)))\<lparr>accounts_table := the (upsert_table xs [] (accounts_table (db (net (data st)))))\<rparr>"
    using upsert_answers(1) [OF assms(1,2,6-9)] by blast
  obtain w' where v: "pg_update_last_sync P email now ((data st)\<lparr>net := w\<rparr>) = (Ret True, (data st)\<lparr>net := w'\<rparr>)" "good c w'"
    "accounts_table (db w') = accounts_table (db w)"
    using update_last_sync_answers [OF assms(1) pg_ready_net [OF assms(2) w(2)], of email now] assms(5) by auto
  have "handle_request (data_store_connection P stale) E now sync_final (Some request) POST st =
      (Ret sync_final_resp, st\<lparr>data := (data st)\<lparr>net := w'\<rparr>\<rparr>)"
    by (rule sync_final_accepts [OF assms(3,4), where s' = "(data st)\<lparr>net := w\<rparr>"]) (simp_all add: data_store_simps w(1) v(1))
  with v(2,3) w(3) show ?thesis by auto
qed

text \<open>
  C8: with a Postgres database that works, an authentic \<open>sync-final\<close> of a user who is in the table of the users is
  answered with a success, and then every account of the user is the newer one of the stored and the sent
  version, the stored one when they are equally old; nothing else in the table has changed. This is for messages
  that the statement is built for: at least one account and no name twice (a name that is sent twice can make the
  statement fail), neither in the address nor in the accounts a quote (the next section shows what quotes do),
  an address of at most 34 characters, accounts that fit the heap and the buffer (\<open>pg_known\<close>, \<open>pg_fits\<close>), and a
  time that fits a \<open>bigint\<close>.
\<close>

theorem sync_final_keeps_newer:
  assumes "pg_serves P refs db good" "good c (net (data st))" "connections (pool (data st)) = c # cs"
    and "authentic E request st" "carries E request email as" "as \<noteq> []" "distinct (map account_name as)"
    and "email \<in> pg_known" "pg_fits as" "users_table (db (net (data st))) email \<noteq> None" "bigint (show_int now)"
  shows "\<exists>w. handle_request (data_store_connection P stale) E now sync_final (Some request) POST st =
      (Ret sync_final_resp, st\<lparr>data := (data st)\<lparr>net := w\<rparr>\<rparr>) \<and>
    accounts_table (db w) = (accounts_table (db (net (data st))))
      (email := (\<lambda>n. newer (accounts_table (db (net (data st))) email n) (sent_accounts as n)))"
proof -
  let ?d = "db (net (data st))"
  have r: "pg_ready good c (data st)" using assms(2,3) by (simp add: pg_ready_def)
  have o: "list_all (\<lambda>x. account_uuid x = email) as" using carries_owner [OF assms(5)] by (simp add: list_all_iff)
  have w: "length email \<le> 34" "plain email" "list_all plain_account as" "rows_bytes as + 34 \<le> 2 ^ 26"
    using pg_writes [OF assms(8,9)] by (simp_all add: writes_def)
  have i: "map (owned email) as = as" using o by (intro map_idI) (auto simp: list_all_iff owned_def)
  have "list_all writable as" using w(3) by (auto simp: list_all_iff plain_account_def)
  then have s: "upsert_sql email as = Ret (upsert_statement email as)" by (rule upsert_sql_fits [OF w(1) _ assms(6) w(4)])
  have x: "read_upsert (upsert_statement email as) = Some as" using read_upsert_statement [OF w(3,2) assms(6)] i by simp
  have t: "upsert_table as [] (accounts_table ?d) = Some ((accounts_table ?d)(email := (\<lambda>n. newer (accounts_table ?d email n) (sent_accounts as n))))"
    by (rule upsert_table_newer [OF o assms(7)]) simp
  have "\<not> pg_fails refs (Upsert as) ?d" using o assms(10) by (auto simp: t list_all_iff)
  from sync_final_on_postgres [OF assms(1) r assms(4,5,11,6) s x this] t show ?thesis by auto
qed

definition bob :: string where
  "bob = ''bob@example.com''"

text \<open>Ann and Bob are registered, and each has a stored account.\<close>

definition shared_db :: pg_db where
  "shared_db = \<lparr>users_table = [''ann@example.com'' \<mapsto> (hashed_secret, ''1''), bob \<mapsto> (hashed_other, ''1'')],
     accounts_table = (\<lambda>u. if u = ''ann@example.com'' then [''mail'' \<mapsto> ann_mail\<lparr>update_time := 20\<rparr>]
       else if u = bob then [''mail'' \<mapsto> ann_mail\<lparr>account_uuid := bob\<rparr>] else (\<lambda>n. None))\<rparr>"

definition shared_state :: "(unit, pg_db) store_state" where
  "shared_state = \<lparr>pool = \<lparr>connections = [()], currentConnections = 1\<rparr>, net = shared_db\<rparr>"

lemma shared_state_ok: "tables_ok (net shared_state)" "connections (pool shared_state) = () # []"
  by (auto simp: tables_ok_def shared_state_def shared_db_def ann_mail_def)

lemma bigint_5: "bigint (show_int 5)"
  by (simp add: bigint_def) code_simp

text \<open>Ann's stored version is newer than the one she sends, and stays.\<close>

theorem sync_final_keeps_newer_witness:
  "\<exists>w. handle_request (data_store_connection (mem_pg True) ''1'') (sample_env ann_upload) 5 sync_final (Some ''{}'') POST
      (ann_on shared_state) = (Ret sync_final_resp, (ann_on shared_state)\<lparr>data := shared_state\<lparr>net := w\<rparr>\<rparr>) \<and>
    map_option update_time (accounts_table w ''ann@example.com'' ''mail'') = Some 20"
proof -
  have "length (show_int 17) \<le> 20" by (rule length_show_int) simp
  then have f: "pg_fits [ann_mail]" "''ann@example.com'' \<in> pg_known"
    by (simp_all add: pg_fits_def pg_known_def plain_account_def plain_def SQ_def writable_def row_fits_def row_length_def
        account_row_def rows_bytes_def row_needed_def ann_mail_def)
  let ?st = "ann_on shared_state"
  have d: "data ?st = shared_state" "net shared_state = shared_db" by (simp_all add: ann_on_def shared_state_def)
  have g: "tables_ok (net (data ?st))" "connections (pool (data ?st)) = () # []" using shared_state_ok by (simp_all add: d(1))
  have m: "[ann_mail] \<noteq> []" "distinct (map account_name [ann_mail])" by simp_all
  have u: "users_table (net (data ?st)) ''ann@example.com'' \<noteq> None" by (simp add: d shared_db_def bob_def)
  have "map_option update_time (newer (accounts_table shared_db ''ann@example.com'' ''mail'') (sent_accounts [ann_mail] ''mail'')) = Some 20"
    by (simp add: shared_db_def ann_mail_def sent_accounts_def)
  with sync_final_keeps_newer [OF mem_pg_serves g ann_uploads m f(2,1) u bigint_5, of True "''1''"]
  show ?thesis unfolding d by force
qed

section \<open>Accounts of someone else\<close>

lemma injection_reads:
  assumes "plain_account a" "plain_account b" "plain victim" "plain u" "length u \<le> 34" "rows_bytes [injected victim a b] + 34 \<le> 2 ^ 26"
  shows "\<exists>sql. upsert_sql u [injected victim a b] = Ret sql \<and> read_upsert sql = Some [owned victim a, owned u b]"
proof -
  have "writable b" using assms(2) by (simp add: plain_account_def)
  from upsert_sql_injection [OF assms(5) this assms(6)]
  have "upsert_sql u [injected victim a b] = Ret (UPSERT_ACCOUNT_PREPARE_1 @ value_rows [(victim, a), (u, b)] @ UPSERT_ACCOUNT_PREPARE_2)"
    by simp
  moreover have "read_upsert (UPSERT_ACCOUNT_PREPARE_1 @ value_rows [(victim, a), (u, b)] @ UPSERT_ACCOUNT_PREPARE_2) =
      Some (map (\<lambda>(u, a). owned u a) [(victim, a), (u, b)])"
    by (rule read_upsert_values) (use assms(1-4) in simp_all)
  ultimately show ?thesis by simp
qed

lemma upsert_table_two:
  assumes "v \<noteq> u" "\<And>y. t v (account_name a) = Some y \<Longrightarrow> update_time y < update_time a"
  shows "\<exists>t'. upsert_table [owned v a, owned u b] [] t = Some t' \<and> t' v (account_name a) = Some (owned v a)"
  using assms by (cases "t v (account_name a)"; cases "t u (account_name b)") (auto simp: owned_def Let_def)

text \<open>
  C9: a client of a server on Postgres can write into the accounts of someone else. A user who sends an
  authentic \<open>sync-final\<close> with the one account \<open>injected victim a b\<close>, whose name has quotes in it, is answered
  with a success, and after it the table has \<open>a\<close> among the accounts of the victim, in place of what was
  stored under that name before if \<open>a\<close> claims to be newer. The owner is set to the authenticated user by
  the handler, but the text of the statement has a row more than the message has accounts.
\<close>

theorem quotes_reach_other_users:
  assumes "pg_serves P refs db good" "good c (net (data st))" "connections (pool (data st)) = c # cs"
    and "authentic E request st" "carries E request email [injected victim a b]" "victim \<noteq> email"
    and "plain_account a" "plain_account b" "plain victim" "plain email" "length email \<le> 34"
    and "rows_bytes [injected victim a b] + 34 \<le> 2 ^ 26" "bigint (show_int now)"
    and "users_table (db (net (data st))) email \<noteq> None" "users_table (db (net (data st))) victim \<noteq> None"
    and "\<And>y. accounts_table (db (net (data st))) victim (account_name a) = Some y \<Longrightarrow> update_time y < update_time a"
  shows "\<exists>w. handle_request (data_store_connection P stale) E now sync_final (Some request) POST st =
      (Ret sync_final_resp, st\<lparr>data := (data st)\<lparr>net := w\<rparr>\<rparr>) \<and>
    accounts_table (db w) victim (account_name a) = Some (owned victim a)"
proof -
  let ?d = "db (net (data st))"
  have r: "pg_ready good c (data st)" using assms(2,3) by (simp add: pg_ready_def)
  obtain sql where s: "upsert_sql email [injected victim a b] = Ret sql" "read_upsert sql = Some [owned victim a, owned email b]"
    using injection_reads [OF assms(7-12)] by blast
  obtain t where t: "upsert_table [owned victim a, owned email b] [] (accounts_table ?d) = Some t"
    "t victim (account_name a) = Some (owned victim a)"
    using upsert_table_two [OF assms(6,16)] by blast
  have "\<not> pg_fails refs (Upsert [owned victim a, owned email b]) ?d" using assms(14,15) t(1) by (simp add: owned_def)
  from sync_final_on_postgres [OF assms(1) r assms(4,5,13) _ s this] t show ?thesis by auto
qed

text \<open>Ann changes Bob's password.\<close>

definition forged :: account where
  "forged = ann_mail\<lparr>password := ''changed'', update_time := 99\<rparr>"

definition ann_forges :: sample_doc where
  "ann_forges = ann_request ''secret'' []
     [([(''accountName'', account_name (injected bob forged ann_mail)), (''userName'', ''ann''), (''password'', ''pw''),
        (''oldPassword'', []), (''url'', ''http://mail'')], 17)]"

theorem quotes_reach_other_users_witness:
  "map_option password (accounts_table (net shared_state) bob ''mail'') = Some ''pw'' \<and>
   (\<exists>w. handle_request (data_store_connection (mem_pg True) ''1'') (sample_env ann_forges) 5 sync_final (Some ''{}'') POST
      (ann_on shared_state) = (Ret sync_final_resp, (ann_on shared_state)\<lparr>data := shared_state\<lparr>net := w\<rparr>\<rparr>) \<and>
    map_option password (accounts_table w bob ''mail'') = Some ''changed'')"
proof -
  let ?E = "sample_env ann_forges" and ?st = "ann_on shared_state"
  have d: "data ?st = shared_state" "net shared_state = shared_db" by (simp_all add: ann_on_def shared_state_def)
  have au: "authentic ?E ''{}'' ?st"
    by (simp add: authentic_def verify_password_def ann_on_def ann_forges_def sample_simps)
  have ca: "carries ?E ''{}'' ''ann@example.com'' [injected bob forged ann_mail]"
    by (simp add: carries_def ann_forges_def ann_mail_def injected_def read_account_def sample_simps)
  have pl: "plain_account forged" "plain_account ann_mail" "plain bob" "plain ''ann@example.com''"
    by (simp_all add: plain_account_def plain_def SQ_def writable_def forged_def ann_mail_def bob_def)
  have ne: "bob \<noteq> ''ann@example.com''" by (simp add: bob_def)
  have "length (show_int 99) \<le> 20" by (rule length_show_int) simp
  then have rb: "rows_bytes [injected bob forged ann_mail] + 34 \<le> 2 ^ 26"
    by (simp add: rows_bytes_def row_needed_def injected_def forged_def ann_mail_def bob_def)
  have us: "users_table (net (data ?st)) ''ann@example.com'' \<noteq> None" "users_table (net (data ?st)) bob \<noteq> None"
    by (simp_all add: d shared_db_def bob_def)
  have ol: "update_time y < update_time forged" if "accounts_table (net (data ?st)) bob (account_name forged) = Some y" for y
    using that by (auto simp: d shared_db_def bob_def forged_def ann_mail_def split: if_splits)
  have l: "length ''ann@example.com'' \<le> 34" by simp
  have g: "tables_ok (net (data ?st))" "connections (pool (data ?st)) = () # []" using shared_state_ok by (simp_all add: d(1))
  obtain w where w: "handle_request (data_store_connection (mem_pg True) ''1'') ?E 5 sync_final (Some ''{}'') POST ?st =
      (Ret sync_final_resp, ?st\<lparr>data := (data ?st)\<lparr>net := w\<rparr>\<rparr>)" "accounts_table w bob (account_name forged) = Some (owned bob forged)"
    using quotes_reach_other_users [OF mem_pg_serves g au ca ne pl l rb bigint_5 us ol, of True "''1''"]
    unfolding d by blast
  have "account_name forged = ''mail''" "password (owned bob forged) = ''changed''" by (simp_all add: forged_def ann_mail_def owned_def)
  moreover have "map_option password (accounts_table shared_db bob ''mail'') = Some ''pw''"
    by (simp add: shared_db_def bob_def ann_mail_def)
  ultimately show ?thesis using w unfolding d by auto
qed

section \<open>Accounts that outlive their user\<close>

text \<open>
  C15: when the schema does not tie the accounts to the users, the accounts of a deleted user go to the next
  one who registers the address: after a delete and a registration that were both answered with a
  success, the store gives the new user exactly the accounts of the old one. Deleting runs one statement, on
  the table of the users; registering does not look at the accounts. (The Redis store deletes them.)
\<close>

theorem deleted_accounts_return:
  assumes "pg_serves P False db good" "good c (net (data st))" "connections (pool (data st)) = c # cs" "bigint stale"
    and "\<And>n a. accounts_table (db (net (data st))) email n = Some a \<Longrightarrow> row_fits a \<and> writable a"
    and "handle_request (data_store_connection P stale) E now delete_user (Some r1) POST st = (Ret x1, st1)"
    and "request_user E delete_user r1 = Some email"
    and "handle_request (data_store_connection P stale) E later register_config (Some r2) POST st1 = (Ret x2, st2)"
    and "request_user E register_config r2 = Some email"
  shows "\<exists>m s. get_accounts_for_user (data_store_connection P stale) email (data st2) = (Ret m, s) \<and>
    map_of m = accounts_table (db (net (data st))) email"
proof -
  have r: "pg_ready good c (data st)" using assms(2,3) by (simp add: pg_ready_def)
  obtain info :: User_info where "delete_user_op (data_store_connection P stale) (user info) (data st) = (Ret True, data st1)"
    by (rule delete_reaches_store [OF assms(6)]) blast
  then have "pg_delete_user P (user info) (data st) = (Ret True, data st1)" unfolding data_store_simps .
  with delete_user_answers [OF assms(1) r, of "user info"] obtain w1 where
    d: "data st1 = (data st)\<lparr>net := w1\<rparr>" "db w1 = pg_removed False (User_uuid (user info)) (db (net (data st)))" "good c w1" by auto
  have r1: "pg_ready good c (data st1)" unfolding d(1) by (rule pg_ready_net [OF r d(3)])
  obtain u where "createUser (data_store_connection P stale) u (data st1) = (Ret True, data st2)"
    by (rule register_creates [OF assms(8)]) blast
  then have c: "pg_createUser P stale u (data st1) = (Ret True, data st2)" unfolding data_store_simps .
  have "users_table (db (net (data st1))) (User_uuid u) = None"
    using createUser_answers(2) [OF assms(1) r1 assms(4), of u] c by fastforce
  from createUser_answers(1) [OF assms(1) r1 assms(4) this] c obtain w2 where
    e: "data st2 = (data st1)\<lparr>net := w2\<rparr>" "db w2 = pg_added u stale (db (net (data st1)))" "good c w2" by auto
  have r2: "pg_ready good c (data st2)" unfolding e(1) by (rule pg_ready_net [OF r1 e(3)])
  have t: "accounts_table (db (net (data st2))) = accounts_table (db (net (data st)))"
    by (simp add: d e pg_added_def pg_removed_def)
  obtain m w where "pg_get_accounts P email (data st2) = (Ret m, (data st2)\<lparr>net := w\<rparr>)" "map_of m = accounts_table (db (net (data st))) email"
    using get_accounts_answers [OF assms(1) r2, of email] assms(5) unfolding t by blast
  then show ?thesis by (simp add: data_store_simps)
qed

text \<open>Ann deletes her user; whoever registers her address finds her account.\<close>

theorem deleted_accounts_return_witness:
  "\<exists>st1 x st2 m s. handle_request (data_store_connection (mem_pg False) ''1'') history_env 5 delete_user (Some ''sync'') POST
      (ann_on shared_state) = (Ret account_deleted, st1) \<and>
    handle_request (data_store_connection (mem_pg False) ''1'') history_env 6 register_config (Some ''register'') POST st1 = (Ret x, st2) \<and>
    get_accounts_for_user (data_store_connection (mem_pg False) ''1'') ''ann@example.com'' (data st2) = (Ret m, s) \<and>
    map_of m ''mail'' = Some (ann_mail\<lparr>update_time := 20\<rparr>)"
proof -
  let ?V = "data_store_connection (mem_pg False) ''1''" and ?st = "ann_on shared_state"
  have d: "data ?st = shared_state" "net shared_state = shared_db" by (simp_all add: ann_on_def shared_state_def)
  have b: "bigint ''1''" by code_simp
  have g: "tables_ok (net (data ?st))" "connections (pool (data ?st)) = () # []" using shared_state_ok by (simp_all add: d(1))
  have r: "pg_ready (\<lambda>c. tables_ok) () (data ?st)" using g by (simp add: pg_ready_def)
  obtain w1 where w1: "pg_delete_user (mem_pg False) ann shared_state = (Ret True, shared_state\<lparr>net := w1\<rparr>)"
    "w1 = pg_removed False (User_uuid ann) shared_db" "tables_ok w1"
    using delete_user_answers [where u = ann, OF mem_pg_serves r] by (auto simp: d)
  define st1 where "st1 = ?st\<lparr>user_infos := [], data := shared_state\<lparr>net := w1\<rparr>\<rparr>"
  have h1: "handle_request ?V history_env 5 delete_user (Some ''sync'') POST ?st = (Ret account_deleted, st1)"
    by (simp add: st1_def handler_simps sample_simps history_env_def data_store_simps ann_on_def w1(1) [unfolded ann_def])
  have r1: "pg_ready (\<lambda>c. tables_ok) () (data st1)" using g(2) w1(3) by (simp add: st1_def pg_ready_def d(1))
  have "users_table (net (data st1)) ''ann@example.com'' = None"
    by (simp add: st1_def w1(2) pg_removed_def ann_def)
  then obtain w2 where w2: "pg_createUser (mem_pg False) ''1'' (ann\<lparr>User_last_sync := 1\<rparr>) (data st1) = (Ret True, (data st1)\<lparr>net := w2\<rparr>)"
    using createUser_answers(1) [where u = "ann\<lparr>User_last_sync := 1\<rparr>", OF mem_pg_serves r1 b] by (auto simp: ann_def)
  obtain x st2 where h2: "handle_request ?V history_env 6 register_config (Some ''register'') POST st1 = (Ret x, st2)"
    using w2 by (simp add: st1_def handler_simps sample_simps history_env_def data_store_simps)
  have f: "row_fits a \<and> writable a" if "accounts_table (net (data ?st)) ''ann@example.com'' n = Some a" for n a
  proof -
    have "length (show_int 20) \<le> 20" by (rule length_show_int) simp
    then show ?thesis using that
      by (auto simp: d shared_db_def ann_mail_def row_fits_def writable_def row_length_def account_row_def split: if_splits)
  qed
  have u: "request_user history_env delete_user ''sync'' = Some ''ann@example.com''"
    "request_user history_env register_config ''register'' = Some ''ann@example.com''"
    by (simp_all add: request_user_def history_env_def sample_simps)
  have "\<exists>m s. get_accounts_for_user ?V ''ann@example.com'' (data st2) = (Ret m, s) \<and> map_of m = accounts_table (net (data ?st)) ''ann@example.com''"
    by (rule deleted_accounts_return [OF mem_pg_serves g b _ h1 u(1) h2 u(2)]) (rule f)
  moreover have "accounts_table (net (data ?st)) ''ann@example.com'' ''mail'' = Some (ann_mail\<lparr>update_time := 20\<rparr>)"
    by (simp add: d shared_db_def)
  ultimately show ?thesis using h1 h2 by metis
qed

section \<open>Addresses with a quote\<close>

text \<open>Such an address can be registered; see \<open>quoted_address_unreadable\<close> for what becomes of its accounts.\<close>

lemma quoted_address_accepted: "verify_email (''o'' @ [SQ] @ ''neil@example.com'')"
  unfolding SQ_def by code_simp

end
