(* ===== verification/Races.thy ===== *)
theory Races
  imports UserMap
begin

text \<open>
  Several handlers at work on the shared map of users and the store. The handlers go through the
  map and the store in several accesses, each under \<open>user_infos_lock\<close> at most, which is a member of
  the handler and orders nothing between two of them. Here the handlers are cut at these
  accesses; one handler alone does what \<open>SyncHandler\<close> says, two for one address can meet.
\<close>

section \<open>Handlers in steps\<close>

text \<open>
  Where a handler is: a registration before the check of the map, before the entry, before the call of the
  store, and after its failure; a deletion before the check of the password, the call of the store
  and the removal; the two halves of a synchronisation before the check of the password and each
  call of the store; and the end.
\<close>

datatype handler_pc =
    Reg_check string string string
  | Reg_assign string string string
  | Reg_create string string string
  | Reg_rollback string
  | Del_verify string string
  | Del_store string
  | Del_erase string
  | Ini_verify string string string
  | Ini_get string string
  | Fin_verify string string string
  | Fin_upsert string "account list"
  | Fin_update string
  | Replied "(handler_error, string) outcome"

text \<open>The store is handed the user the registration made.\<close>

definition register_step :: "'s IDataStore \<Rightarrow> 'd env \<Rightarrow> int \<Rightarrow> handler_pc \<Rightarrow> 's sync_state \<Rightarrow> handler_pc \<times> 's sync_state" where
  "register_step V E now pc st =
     (case pc of
        Reg_check email pass h \<Rightarrow>
          if map_count email (user_infos st) < 1 then (Reg_assign email pass h, st)
          else (Replied (throw_reply HTTP_500 None), st)
      | Reg_assign email pass h \<Rightarrow>
          (Reg_create email pass h,
           st\<lparr>user_infos := map_assign email
             \<lparr>user = \<lparr>User_uuid = email, User_password = h, User_last_sync = 1\<rparr>, lock_time = now, cv_vector = []\<rparr> (user_infos st)\<rparr>)
      | Reg_create email pass h \<Rightarrow>
          (case call_store (createUser V \<lparr>User_uuid = email, User_password = h, User_last_sync = 1\<rparr>) st of
             (Ret created, st') \<Rightarrow>
               (if created then Replied (Ret (stringify E (service_json E email pass))) else Reg_rollback email, st')
           | (Throw e, st') \<Rightarrow> (Replied (Throw e), st')
           | (Blocked, st') \<Rightarrow> (Replied Blocked, st')
           | (Undefined, st') \<Rightarrow> (Replied Undefined, st'))
      | Reg_rollback email \<Rightarrow>
          (Replied (throw_reply HTTP_500 None), st\<lparr>user_infos := map_erase email (user_infos st)\<rparr>)
      | _ \<Rightarrow> (pc, st))"

text \<open>
  \<open>user_infos[email]\<close> of an address that is gone is a new entry, whose pointers the constructors
  \<open>User_info()\<close> and \<open>User()\<close> leave uninitialised; they are read by the store or freed: \<open>Undefined\<close>.
\<close>

definition delete_step :: "'s IDataStore \<Rightarrow> 'd env \<Rightarrow> handler_pc \<Rightarrow> 's sync_state \<Rightarrow> handler_pc \<times> 's sync_state" where
  "delete_step V E pc st =
     (case pc of
        Del_verify email pass \<Rightarrow>
          (case verify_password (sha3_512 E) (user_infos st) (Some email) (Some pass) of
             Ret ok \<Rightarrow> (if ok then Del_store email else Replied (throw_reply HTTP_403 None), st)
           | Throw e \<Rightarrow> (Replied (Throw e), st)
           | Blocked \<Rightarrow> (Replied Blocked, st)
           | Undefined \<Rightarrow> (Replied Undefined, st))
      | Del_store email \<Rightarrow>
          (case map_of (user_infos st) email of
             None \<Rightarrow> (Replied Undefined, st)
           | Some info \<Rightarrow>
               (case call_store (delete_user_op V (user info)) st of
                  (Ret ok, st') \<Rightarrow> (if ok then Del_erase email else Replied (throw_reply HTTP_500 None), st')
                | (Throw e, st') \<Rightarrow> (Replied (Throw e), st')
                | (Blocked, st') \<Rightarrow> (Replied Blocked, st')
                | (Undefined, st') \<Rightarrow> (Replied Undefined, st')))
      | Del_erase email \<Rightarrow>
          (case map_of (user_infos st) email of
             None \<Rightarrow> (Replied Undefined, st)
           | Some info \<Rightarrow> (Replied (Ret account_deleted), st\<lparr>user_infos := map_erase email (user_infos st)\<rparr>))
      | _ \<Rightarrow> (pc, st))"

text \<open>
  A synchronisation has the text of its request with it. Reading the document and building the reply
  take no access; what \<open>verify_password\<close> and a call of the store end with is passed on.
\<close>

definition after_verify :: "'d env \<Rightarrow> 's sync_state \<Rightarrow> string \<Rightarrow> string \<Rightarrow> handler_pc \<Rightarrow> handler_pc" where
  "after_verify E st email pass next =
     (case verify_password (sha3_512 E) (user_infos st) (Some email) (Some pass) of
        Ret ok \<Rightarrow> if ok then next else Replied (throw_reply HTTP_403 None)
      | Throw e \<Rightarrow> Replied (Throw e)
      | Blocked \<Rightarrow> Replied Blocked
      | Undefined \<Rightarrow> Replied Undefined)"

definition initial_step :: "'s IDataStore \<Rightarrow> 'd env \<Rightarrow> int \<Rightarrow> handler_pc \<Rightarrow> 's sync_state \<Rightarrow> handler_pc \<times> 's sync_state" where
  "initial_step V E now pc st =
     (case pc of
        Ini_verify email pass request \<Rightarrow> (after_verify E st email pass (Ini_get email request), st)
      | Ini_get email request \<Rightarrow>
          (case parse (json_lib E) request of
             None \<Rightarrow> (Replied Undefined, st)
           | Some pDoc \<Rightarrow> map_prod Replied id (sync_accounts V E now pDoc email st))
      | _ \<Rightarrow> (pc, st))"

text \<open>The accounts of the request, read into the vector of the handler.\<close>

definition final_accounts :: "'d env \<Rightarrow> string \<Rightarrow> string \<Rightarrow> handler_pc" where
  "final_accounts E email request =
     (case parse (json_lib E) request of
        None \<Rightarrow> Replied Undefined
      | Some pDoc \<Rightarrow>
          (case get_object_id (json_lib E) pDoc ''/accounts'' of
             None \<Rightarrow> Replied (throw_reply HTTP_403 None)
           | Some i \<Rightarrow>
               (case array_elements (json_lib E) pDoc i of
                  None \<Rightarrow> Replied (throw_reply HTTP_403 None)
                | Some es \<Rightarrow>
                    (case read_accounts (json_lib E) pDoc email es of
                       None \<Rightarrow> Replied Undefined
                     | Some accts \<Rightarrow> Fin_upsert email accts))))"

definition final_step :: "'s IDataStore \<Rightarrow> 'd env \<Rightarrow> int \<Rightarrow> handler_pc \<Rightarrow> 's sync_state \<Rightarrow> handler_pc \<times> 's sync_state" where
  "final_step V E now pc st =
     (case pc of
        Fin_verify email pass request \<Rightarrow> (after_verify E st email pass (final_accounts E email request), st)
      | Fin_upsert email accts \<Rightarrow>
          (case call_store (upsert_accounts_for_user V email accts) st of
             (Ret ok, st') \<Rightarrow> (if ok then Fin_update email else Replied (throw_reply HTTP_500 None), st')
           | (Throw e, st') \<Rightarrow> (Replied (Throw e), st')
           | (Blocked, st') \<Rightarrow> (Replied Blocked, st')
           | (Undefined, st') \<Rightarrow> (Replied Undefined, st'))
      | Fin_update email \<Rightarrow>
          (case call_store (update_last_sync_for_user V email now) st of
             (Ret ok, st') \<Rightarrow> (Replied (if ok then Ret sync_final_resp else throw_reply HTTP_500 None), st')
           | (Throw e, st') \<Rightarrow> (Replied (Throw e), st')
           | (Blocked, st') \<Rightarrow> (Replied Blocked, st')
           | (Undefined, st') \<Rightarrow> (Replied Undefined, st'))
      | _ \<Rightarrow> (pc, st))"

definition handler_step :: "'s IDataStore \<Rightarrow> 'd env \<Rightarrow> int \<Rightarrow> handler_pc \<Rightarrow> 's sync_state \<Rightarrow> handler_pc \<times> 's sync_state" where
  "handler_step V E now pc =
     (case pc of
        Del_verify email pass \<Rightarrow> delete_step V E pc
      | Del_store email \<Rightarrow> delete_step V E pc
      | Del_erase email \<Rightarrow> delete_step V E pc
      | Ini_verify email pass request \<Rightarrow> initial_step V E now pc
      | Ini_get email request \<Rightarrow> initial_step V E now pc
      | Fin_verify email pass request \<Rightarrow> final_step V E now pc
      | Fin_upsert email accts \<Rightarrow> final_step V E now pc
      | Fin_update email \<Rightarrow> final_step V E now pc
      | _ \<Rightarrow> register_step V E now pc)"

lemmas handler_step_defs = handler_step_def register_step_def delete_step_def initial_step_def final_step_def after_verify_def final_accounts_def

text \<open>The handlers take steps in the order of a schedule, which names the one to go on.\<close>

fun schedule ::
  "'s IDataStore \<Rightarrow> 'd env \<Rightarrow> int \<Rightarrow> nat list \<Rightarrow> handler_pc list \<times> 's sync_state \<Rightarrow> handler_pc list \<times> 's sync_state" where
  "schedule V E now [] x = x"
| "schedule V E now (i # is) (pcs, st) =
     (if i < length pcs then
        (case handler_step V E now (pcs ! i) st of (pc, st') \<Rightarrow> schedule V E now is (pcs[i := pc], st'))
      else schedule V E now is (pcs, st))"

section \<open>A handler alone\<close>

lemma register_alone:
  "schedule V E now [0, 0, 0, 0] ([Reg_check email pass h], st) =
     (case register_user V E now email pass h st of (r, st') \<Rightarrow> ([Replied r], st'))"
  by (auto simp: handler_step_defs register_user_def Let_def on_ret_def throw_reply_def split: prod.splits outcome.splits)

lemma delete_alone:
  assumes "parse (json_lib E) request = Some pDoc"
    and "get_string_value (json_lib E) pDoc ''/user'' = Some email" "get_string_value (json_lib E) pDoc ''/password'' = Some pass"
  shows "schedule V E now [0, 0, 0] ([Del_verify email pass], st) =
    (case handle_delete V E request st of (r, st') \<Rightarrow> ([Replied r], st'))"
  by (auto simp: handler_step_defs handle_delete_def authenticate_def delete_account_def call_store_def assms Let_def on_ret_def
        throw_reply_def split: prod.splits outcome.splits option.splits)

lemma initial_alone:
  assumes "parse (json_lib E) request = Some pDoc"
    and "get_string_value (json_lib E) pDoc ''/user'' = Some email" "get_string_value (json_lib E) pDoc ''/password'' = Some pass"
  shows "schedule V E now [0, 0] ([Ini_verify email pass request], st) =
    (case handle_sync_initial V E now request st of (r, st') \<Rightarrow> ([Replied r], st'))"
  by (auto simp: handler_step_defs handle_sync_initial_def authenticate_def assms Let_def throw_reply_def
      split: prod.splits outcome.splits)

lemma final_alone:
  assumes "parse (json_lib E) request = Some pDoc"
    and "get_string_value (json_lib E) pDoc ''/user'' = Some email" "get_string_value (json_lib E) pDoc ''/password'' = Some pass"
  shows "schedule V E now [0, 0, 0] ([Fin_verify email pass request], st) =
    (case handle_sync_final V E now request st of (r, st') \<Rightarrow> ([Replied r], st'))"
  by (auto simp: handler_step_defs handle_sync_final_def authenticate_def receive_accounts_def store_accounts_def assms Let_def
      on_ret_def throw_reply_def split: prod.splits outcome.splits option.splits)

section \<open>Every schedule\<close>

text \<open>However many handlers meet and in whatever order, the map stays ordered, with every user under its address.\<close>

lemma handler_step_users_ok: "users_ok (user_infos st) \<Longrightarrow> users_ok (user_infos (snd (handler_step V E now pc st)))"
  by (auto simp: handler_step_defs call_store_cases sync_infos intro!: users_ok_assign users_ok_erase
      split: handler_pc.splits prod.splits outcome.splits option.splits)

lemma schedule_users_ok: "users_ok (user_infos st) \<Longrightarrow> users_ok (user_infos (snd (schedule V E now is (pcs, st))))"
proof (induction "is" arbitrary: pcs st)
  case (Cons i "is")
  from handler_step_users_ok [OF Cons.prems, of V E now "pcs ! i"] Cons show ?case by (auto split: prod.splits)
qed simp

section \<open>Two handlers\<close>

text \<open>
  Two registrations of the same address can both succeed. When a second handler looks at the map
  before the first has entered its user, both enter the address, both create the user in the store,
  and both clients are told that they are registered; the password of the first one is not accepted.
\<close>

theorem registrations_race:
  assumes "map_of (user_infos st) email = None" "h \<noteq> h'"
    and "(hash_password (sha3_512 E) pass :: (handler_error, string option) outcome) = Ret (Some h)"
    and "createUser V \<lparr>User_uuid = email, User_password = h, User_last_sync = 1\<rparr> (data st) = (Ret True, s)"
    and "createUser V \<lparr>User_uuid = email, User_password = h', User_last_sync = 1\<rparr> s = (Ret True, s')"
  shows "\<exists>st'. schedule V E now [0, 1, 0, 1, 0, 1] ([Reg_check email pass h, Reg_check email pass' h'], st) =
      ([Replied (Ret (stringify E (service_json E email pass))), Replied (Ret (stringify E (service_json E email pass')))], st') \<and>
    data st' = s' \<and>
    (verify_password (sha3_512 E) (user_infos st') (Some email) (Some pass) :: (handler_error, bool) outcome) = Ret False"
  using assms
  by (simp add: handler_step_defs map_count_def call_store_def verify_password_def map_of_assign)

text \<open>
  C17: two deletions of the same user run into undefined behaviour, even if the map itself were
  protected. When both handlers have accepted the password and the store has deleted the user for
  both, the second one frees the pointers of an entry that was never filled, after the first has
  removed the user. A client that repeats its request is enough.
\<close>

theorem deletions_race:
  assumes "map_of (user_infos st) email = Some info"
    and "(verify_password (sha3_512 E) (user_infos st) (Some email) (Some pass) :: (handler_error, bool) outcome) = Ret True"
    and "delete_user_op V (user info) (data st) = (Ret True, s)" "delete_user_op V (user info) s = (Ret True, s')"
  shows "\<exists>st'. schedule V E now [0, 1, 0, 1, 0, 1] ([Del_verify email pass, Del_verify email pass], st) =
      ([Replied (Ret account_deleted), Replied Undefined], st') \<and> data st' = s'"
  using assms
  by (simp add: handler_step_defs call_store_def map_of_erase)

theorem registrations_race_witness:
  "\<exists>st'. schedule (failing_store False\<lparr>createUser := (\<lambda>u s. (Ret True, s))\<rparr>) (sample_env sample_registration) 5 [0, 1, 0, 1, 0, 1]
      ([Reg_check ''ann@example.com'' ''secret'' hashed_secret, Reg_check ''ann@example.com'' ''guess'' hashed_other], empty_server) =
      ([Replied (Ret (stringify (sample_env sample_registration) (service_json (sample_env sample_registration) ''ann@example.com'' ''secret''))),
        Replied (Ret (stringify (sample_env sample_registration) (service_json (sample_env sample_registration) ''ann@example.com'' ''guess'')))], st') \<and>
     (verify_password sample_digest (user_infos st') (Some ''ann@example.com'') (Some ''secret'') :: (handler_error, bool) outcome) = Ret False"
proof -
  let ?E = "sample_env sample_registration" and ?V = "failing_store False\<lparr>createUser := (\<lambda>u s. (Ret True, s))\<rparr> :: mem_db IDataStore"
  have n: "map_of (user_infos empty_server) ''ann@example.com'' = None" by (simp add: empty_server_def)
  have p: "(hash_password (sha3_512 ?E) ''secret'' :: (handler_error, string option) outcome) = Ret (Some hashed_secret)"
    by (simp add: sample_env_def)
  from registrations_race [OF n hashed_distinct(2) p, of ?V "data empty_server" "data empty_server" 5 "''guess''"]
  show ?thesis by (auto simp: sample_env_def)
qed

theorem deletions_race_witness:
  "\<exists>st'. schedule mem_store (sample_env sample_registration) 5 [0, 1, 0, 1, 0, 1]
      ([Del_verify ''ann@example.com'' ''secret'', Del_verify ''ann@example.com'' ''secret''], ann_server []) =
      ([Replied (Ret account_deleted), Replied Undefined], st')"
proof -
  let ?E = "sample_env sample_registration"
  have u: "map_of (user_infos (ann_server [])) ''ann@example.com'' = Some \<lparr>user = ann, lock_time = 0, cv_vector = []\<rparr>"
    by (simp add: ann_server_def)
  have v: "(verify_password (sha3_512 ?E) (user_infos (ann_server [])) (Some ''ann@example.com'') (Some ''secret'') ::
      (handler_error, bool) outcome) = Ret True"
    by (simp add: verify_password_def sample_simps)
  obtain s s' where "delete_user_op mem_store (user \<lparr>user = ann, lock_time = 0, cv_vector = []\<rparr>) (data (ann_server [])) = (Ret True, s)"
    "delete_user_op mem_store (user \<lparr>user = ann, lock_time = 0, cv_vector = []\<rparr>) s = (Ret True, s')"
    by (simp add: mem_store_def)
  from deletions_race [OF u v this, of 5] show ?thesis by blast
qed

end
