(* ===== verification/Serial.thy ===== *)
theory Serial
  imports Races PostgresHistories
begin

text \<open>
  Handlers of different users do not disturb each other: on a store that keeps the users apart, any
  schedule of their steps ends as the schedule that lets one handler after the other finish. The interface
  is \<open>partitioned_store\<close>; the abstract stores provide it, and by the refinements a server on Redis or on
  Postgres has it.
\<close>

section \<open>One entry of a map\<close>

definition set_entry :: "string \<Rightarrow> 'v option \<Rightarrow> 'v smap \<Rightarrow> 'v smap" where
  "set_entry k x m = (case x of None \<Rightarrow> map_erase k m | Some v \<Rightarrow> map_assign k v m)"

lemma map_of_set_entry: "map_of (set_entry k x m) k' = (if k' = k then x else map_of m k')"
  by (auto simp: set_entry_def map_of_assign map_of_erase split: option.splits)

lemma smap_inv_set_entry: "smap_inv m \<Longrightarrow> smap_inv (set_entry k x m)"
  by (simp add: set_entry_def smap.inv_assign smap.inv_erase split: option.splits)

lemma set_entry_same: "smap_inv m \<Longrightarrow> set_entry k (map_of m k) m = m"
  by (rule smap.entries_determined) (simp_all add: smap_inv_set_entry map_of_set_entry)

lemma entry_as_it_is:
  "smap_inv m \<Longrightarrow> map_of m k = None \<Longrightarrow> map_erase k m = m"
  "smap_inv m \<Longrightarrow> map_of m k = Some v \<Longrightarrow> map_assign k v m = m"
  using set_entry_same [of m k] by (simp_all add: set_entry_def)

lemma set_entry_commute:
  "smap_inv m \<Longrightarrow> k \<noteq> k' \<Longrightarrow> set_entry k x (set_entry k' y m) = set_entry k' y (set_entry k x m)"
  by (rule smap.entries_determined) (simp_all add: smap_inv_set_entry map_of_set_entry)

lemma set_entry_again: "smap_inv m \<Longrightarrow> set_entry k x (set_entry k y m) = set_entry k x m"
  by (rule smap.entries_determined) (simp_all add: smap_inv_set_entry map_of_set_entry)

section \<open>The part of a user\<close>

text \<open>An operation on the part that a store has of one address.\<close>

definition lifted :: "(string \<Rightarrow> 's \<Rightarrow> 'p) \<Rightarrow> (string \<Rightarrow> 'p \<Rightarrow> 's \<Rightarrow> 's) \<Rightarrow> string \<Rightarrow> ('p, 'a) store_op \<Rightarrow> ('s, 'a) store_op" where
  "lifted part put e f s = map_prod id (\<lambda>p. put e p s) (f (part e s))"

definition local_state :: "(string \<Rightarrow> 's \<Rightarrow> 'p) \<Rightarrow> string \<Rightarrow> 's sync_state \<Rightarrow> 'p sync_state" where
  "local_state part e st = \<lparr>user_infos = set_entry e (map_of (user_infos st) e) [], data = part e (data st)\<rparr>"

definition put_local :: "(string \<Rightarrow> 'p \<Rightarrow> 's \<Rightarrow> 's) \<Rightarrow> string \<Rightarrow> 'p sync_state \<Rightarrow> 's sync_state \<Rightarrow> 's sync_state" where
  "put_local put e l st = st\<lparr>user_infos := set_entry e (map_of (user_infos l) e) (user_infos st), data := put e (data l) (data st)\<rparr>"

text \<open>The address a handler is about; none after its reply.\<close>

fun owner :: "handler_pc \<Rightarrow> string option" where
  "owner (Reg_check e p h) = Some e"
| "owner (Reg_assign e p h) = Some e"
| "owner (Reg_create e p h) = Some e"
| "owner (Reg_rollback e) = Some e"
| "owner (Del_verify e p) = Some e"
| "owner (Del_store e) = Some e"
| "owner (Del_erase e) = Some e"
| "owner (Ini_verify e p r) = Some e"
| "owner (Ini_get e r) = Some e"
| "owner (Fin_verify e p r) = Some e"
| "owner (Fin_upsert e as) = Some e"
| "owner (Fin_update e) = Some e"
| "owner (Replied r) = None"

lemma final_accounts_owner: "owner (final_accounts E e r) = Some y \<Longrightarrow> y = e"
  by (auto simp: final_accounts_def split: option.splits)

lemma owner_step: "owner (fst (handler_step V E now pc st)) = owner pc \<or> owner (fst (handler_step V E now pc st)) = None"
  by (cases pc)
    (auto dest: final_accounts_owner simp: handler_step_def register_step_def delete_step_def initial_step_def final_step_def after_verify_def
      split: prod.splits outcome.splits option.splits)

lemma replied_step: "owner pc = None \<Longrightarrow> handler_step V E now pc st = (pc, st)"
  by (cases pc) (simp_all add: handler_step_def register_step_def)

section \<open>Stores that keep the users apart\<close>

locale partitioned_store =
  fixes W :: "'a IDataStore" and L :: "'p IDataStore" and part :: "string \<Rightarrow> 'a \<Rightarrow> 'p" and put :: "string \<Rightarrow> 'p \<Rightarrow> 'a \<Rightarrow> 'a"
    and ok :: "'a \<Rightarrow> bool"
  assumes ok_put: "ok s \<Longrightarrow> ok (put e p s)"
    and part_put: "ok s \<Longrightarrow> e \<noteq> f \<Longrightarrow> part e (put f p s) = part e s"
    and put_part: "ok s \<Longrightarrow> put e (part e s) s = s"
    and put_commute: "ok s \<Longrightarrow> e \<noteq> f \<Longrightarrow> put e p (put f q s) = put f q (put e p s)"
    and create: "ok s \<Longrightarrow> createUser W u s = lifted part put (User_uuid u) (createUser L u) s"
    and delete: "ok s \<Longrightarrow> delete_user_op W u s = lifted part put (User_uuid u) (delete_user_op L u) s"
    and get: "ok s \<Longrightarrow> get_accounts_for_user W e s = lifted part put e (get_accounts_for_user L e) s"
    and upsert: "ok s \<Longrightarrow> upsert_accounts_for_user W e as s = lifted part put e (upsert_accounts_for_user L e as) s"
    and update: "ok s \<Longrightarrow> update_last_sync_for_user W e t s = lifted part put e (update_last_sync_for_user L e t) s"
begin

lemma call_lifted:
  assumes "ok (data st)" "users_ok (user_infos st)" "f (data st) = lifted part put e g (data st)"
  shows "call_store f st = map_prod id (\<lambda>l. put_local put e l st) (call_store g (local_state part e st))"
proof -
  have "smap_inv (user_infos st)" using assms(2) by (simp add: users_ok_def)
  then show ?thesis
    using assms(3)
    by (cases "g (part e (data st))")
      (simp add: call_store_def lifted_def put_local_def local_state_def map_of_set_entry set_entry_same)
qed

lemma calls:
  assumes "ok (data st)" "users_ok (user_infos st)"
  shows "call_store (createUser W u) st =
      map_prod id (\<lambda>l. put_local put (User_uuid u) l st) (call_store (createUser L u) (local_state part (User_uuid u) st))"
    "call_store (delete_user_op W u) st =
      map_prod id (\<lambda>l. put_local put (User_uuid u) l st) (call_store (delete_user_op L u) (local_state part (User_uuid u) st))"
    "call_store (get_accounts_for_user W e) st =
      map_prod id (\<lambda>l. put_local put e l st) (call_store (get_accounts_for_user L e) (local_state part e st))"
    "call_store (upsert_accounts_for_user W e as) st =
      map_prod id (\<lambda>l. put_local put e l st) (call_store (upsert_accounts_for_user L e as) (local_state part e st))"
    "call_store (update_last_sync_for_user W e t) st =
      map_prod id (\<lambda>l. put_local put e l st) (call_store (update_last_sync_for_user L e t) (local_state part e st))"
  by (rule call_lifted [OF assms], rule create delete get upsert update, rule assms(1))+

lemma local_simps:
  assumes "ok (data st)" "users_ok (user_infos st)"
  shows "map_of (user_infos (local_state part e st)) e = map_of (user_infos st) e"
    "put_local put e (local_state part e st) st = st"
    "put_local put e ((local_state part e st)\<lparr>user_infos := map_assign e v m\<rparr>) st = st\<lparr>user_infos := map_assign e v (user_infos st)\<rparr>"
    "put_local put e ((local_state part e st)\<lparr>user_infos := map_erase e m\<rparr>) st = st\<lparr>user_infos := map_erase e (user_infos st)\<rparr>"
  using assms put_part [OF assms(1)]
  by (simp_all add: local_state_def put_local_def map_of_set_entry set_entry_same users_ok_def map_of_assign map_of_erase)
    (simp_all add: set_entry_def)

lemma verify_local:
  assumes "ok (data st)" "users_ok (user_infos st)"
  shows "verify_password dg (user_infos (local_state part e st)) (Some e) pw = verify_password dg (user_infos st) (Some e) pw"
  by (simp add: verify_password_def local_simps(1) [OF assms])

lemma step_local:
  assumes "ok (data st)" "users_ok (user_infos st)" "owner pc = Some e"
  shows "handler_step W E now pc st = map_prod id (\<lambda>l. put_local put e l st) (handler_step L E now pc (local_state part e st))"
proof -
  note l = local_simps [OF assms(1,2)] and v = verify_local [OF assms(1,2)] and c = calls [OF assms(1,2)]
  note d = handler_step_def register_step_def delete_step_def initial_step_def final_step_def after_verify_def
  show ?thesis
  proof (cases pc)
    case (Reg_create email p h)
    with assms(3) have e: "email = e" by simp
    show ?thesis unfolding Reg_create e by (auto simp: d c split: prod.splits outcome.splits)
  next
    case (Del_store email)
    with assms(3) have e: "email = e" by simp
    show ?thesis
    proof (cases "map_of (user_infos st) e")
      case None
      then show ?thesis unfolding Del_store e by (simp add: d l)
    next
      case (Some info)
      then have u: "User_uuid (user info) = e" using assms(2) by (simp add: users_ok_def)
      show ?thesis unfolding Del_store e by (auto simp: d l Some c u split: prod.splits outcome.splits)
    qed
  next
    case (Ini_get email r)
    with assms(3) have e: "email = e" by simp
    show ?thesis unfolding Ini_get e
      by (auto simp: d l sync_accounts_def on_ret_def c split: prod.splits outcome.splits option.splits)
  next
    case (Fin_upsert email as)
    with assms(3) have e: "email = e" by simp
    show ?thesis unfolding Fin_upsert e by (auto simp: d c split: prod.splits outcome.splits)
  next
    case (Fin_update email)
    with assms(3) have e: "email = e" by simp
    show ?thesis unfolding Fin_update e by (auto simp: d c split: prod.splits outcome.splits)
  qed (use assms(3) in \<open>auto simp: d l v map_count_def split: outcome.splits option.splits\<close>)
qed

text \<open>A step keeps what the next steps rely on, and is not seen from another address.\<close>

lemma step_ok:
  assumes "ok (data st)" "users_ok (user_infos st)"
  shows "ok (data (snd (handler_step W E now pc st)))" "users_ok (user_infos (snd (handler_step W E now pc st)))"
proof -
  show "ok (data (snd (handler_step W E now pc st)))"
  proof (cases "owner pc")
    case None
    with assms(1) show ?thesis by (simp add: replied_step)
  next
    case (Some e)
    with assms show ?thesis by (simp add: step_local put_local_def ok_put)
  qed
qed (rule handler_step_users_ok [OF assms(2)])

lemma local_elsewhere:
  assumes "ok (data st)" "users_ok (user_infos st)" "e \<noteq> f"
  shows "local_state part e (put_local put f l st) = local_state part e st"
    "put_local put e k (put_local put f l st) = put_local put f l (put_local put e k st)"
  using assms by (simp_all add: local_state_def put_local_def map_of_set_entry part_put put_commute set_entry_commute users_ok_def)

lemma steps_commute:
  assumes "ok (data st)" "users_ok (user_infos st)" "owner pc = None \<or> owner pc \<noteq> owner qc"
    and "handler_step W E now pc st = (pc', s)" "handler_step W E now qc s = (qc', s')"
  shows "\<exists>t. handler_step W E now qc st = (qc', t) \<and> handler_step W E now pc t = (pc', s')"
proof (cases "owner pc = None \<or> owner qc = None")
  case True
  then show ?thesis using assms(4,5) by (auto simp: replied_step)
next
  case False
  then obtain e f where o: "owner pc = Some e" "owner qc = Some f" "e \<noteq> f" using assms(3) by auto
  obtain k where k: "handler_step L E now pc (local_state part e st) = (pc', k)" "s = put_local put e k st"
    using step_local [OF assms(1,2) o(1), of E now] assms(4) by (cases "handler_step L E now pc (local_state part e st)") auto
  have s: "ok (data s)" "users_ok (user_infos s)" using step_ok [OF assms(1,2), of E now pc] assms(4) by simp_all
  obtain l where l: "handler_step L E now qc (local_state part f st) = (qc', l)" "s' = put_local put f l s"
    using step_local [OF s o(2), of E now] assms(5) local_elsewhere(1) [OF assms(1,2), of f e k] o(3) k(2)
    by (cases "handler_step L E now qc (local_state part f st)") auto
  let ?t = "put_local put f l st"
  have q: "handler_step W E now qc st = (qc', ?t)" using step_local [OF assms(1,2) o(2), of E now] l(1) by simp
  have t: "ok (data ?t)" "users_ok (user_infos ?t)" using step_ok [OF assms(1,2), of E now qc] q by simp_all
  have "handler_step W E now pc ?t = (pc', put_local put e k ?t)"
    using step_local [OF t o(1), of E now] local_elsewhere(1) [OF assms(1,2) o(3)] k(1) by simp
  moreover have "put_local put e k ?t = s'" using local_elsewhere(2) [OF assms(1,2) o(3)] k(2) l(2) by simp
  ultimately show ?thesis using q by blast
qed

end

section \<open>Schedules\<close>

definition own_users :: "handler_pc list \<Rightarrow> bool" where
  "own_users pcs \<longleftrightarrow> (\<forall>i < length pcs. \<forall>j < length pcs. i \<noteq> j \<longrightarrow> owner (pcs ! i) = None \<or> owner (pcs ! i) \<noteq> owner (pcs ! j))"

lemma own_users_step:
  assumes "own_users pcs" "owner pc = owner (pcs ! i) \<or> owner pc = None"
  shows "own_users (pcs[i := pc])"
  unfolding own_users_def
proof (intro allI impI)
  fix j k
  assume j: "j < length (pcs[i := pc])" and k: "k < length (pcs[i := pc])" and n: "j \<noteq> k"
  have o: "owner (pcs[i := pc] ! m) = owner (pcs ! m) \<or> owner (pcs[i := pc] ! m) = None" if "m < length pcs" for m
    using assms(2) that by (cases "m = i") auto
  have "owner (pcs ! j) = None \<or> owner (pcs ! j) \<noteq> owner (pcs ! k)" using assms(1) j k n by (simp add: own_users_def)
  with o [of j] o [of k] j k show "owner (pcs[i := pc] ! j) = None \<or> owner (pcs[i := pc] ! j) \<noteq> owner (pcs[i := pc] ! k)"
    by auto
qed

text \<open>The step of one handler within a schedule.\<close>

definition take_step :: "'s IDataStore \<Rightarrow> 'd env \<Rightarrow> int \<Rightarrow> nat \<Rightarrow> handler_pc list \<times> 's sync_state \<Rightarrow> handler_pc list \<times> 's sync_state" where
  "take_step V E now i x =
     (if i < length (fst x) then
        (case handler_step V E now (fst x ! i) (snd x) of (pc, st') \<Rightarrow> ((fst x)[i := pc], st'))
      else x)"

lemma schedule_take: "schedule V E now (i # is) x = schedule V E now is (take_step V E now i x)"
  by (cases x) (auto simp: take_step_def split: prod.splits)

declare schedule.simps(2) [simp del]

context partitioned_store
begin

definition fine :: "handler_pc list \<times> 'a sync_state \<Rightarrow> bool" where
  "fine x \<longleftrightarrow> ok (data (snd x)) \<and> users_ok (user_infos (snd x)) \<and> own_users (fst x)"

lemma fine_step: "fine x \<Longrightarrow> fine (take_step W E now i x)"
  using step_ok [of "snd x" E now "fst x ! i"] own_users_step [of "fst x" "fst (handler_step W E now (fst x ! i) (snd x))" i]
    owner_step [of W E now "fst x ! i" "snd x"]
  by (auto simp: fine_def take_step_def split: prod.splits)

lemma take_commute:
  assumes "fine x" "i \<noteq> j"
  shows "take_step W E now j (take_step W E now i x) = take_step W E now i (take_step W E now j x)"
proof (cases "i < length (fst x) \<and> j < length (fst x)")
  case True
  obtain pcs st where x: "x = (pcs, st)" by (cases x)
  have f: "ok (data st)" "users_ok (user_infos st)" "owner (pcs ! i) = None \<or> owner (pcs ! i) \<noteq> owner (pcs ! j)"
    using assms True by (simp_all add: fine_def own_users_def x)
  obtain pc s qc s' where h: "handler_step W E now (pcs ! i) st = (pc, s)" "handler_step W E now (pcs ! j) s = (qc, s')" by fastforce
  from steps_commute [OF f h] obtain t where "handler_step W E now (pcs ! j) st = (qc, t)" "handler_step W E now (pcs ! i) t = (pc, s')"
    by blast
  with h True assms(2) show ?thesis by (simp add: take_step_def x list_update_swap)
next
  case False
  then show ?thesis by (auto simp: take_step_def split: prod.splits)
qed

text \<open>Any schedule ends as the sorted one, in which each handler takes all its steps at once.\<close>

lemma schedule_insort: "fine x \<Longrightarrow> schedule W E now (insort i is) x = schedule W E now (i # is) x"
proof (induction "is" arbitrary: x)
  case (Cons j "is")
  show ?case
  proof (cases "i \<le> j")
    case False
    then have "schedule W E now (insort i (j # is)) x = schedule W E now (i # is) (take_step W E now j x)"
      using Cons.IH [OF fine_step [OF Cons.prems]] by (simp add: schedule_take)
    moreover have "take_step W E now i (take_step W E now j x) = take_step W E now j (take_step W E now i x)"
      by (rule take_commute [OF Cons.prems]) (use False in simp)
    ultimately show ?thesis using False by (simp add: schedule_take)
  qed simp
qed simp

lemma schedule_sort: "fine x \<Longrightarrow> schedule W E now is x = schedule W E now (sort is) x"
proof (induction "is" arbitrary: x)
  case (Cons i "is")
  have "schedule W E now (i # is) x = schedule W E now (i # sort is) x"
    using Cons.IH [OF fine_step [OF Cons.prems]] by (simp add: schedule_take)
  with schedule_insort [OF Cons.prems, of E now i "sort is"] show ?case by simp
qed simp

end

section \<open>The abstract stores\<close>

text \<open>What an abstract store has of one address, and the operations on it.\<close>

type_synonym user_part = "string option \<times> account smap"

definition db_part :: "string \<Rightarrow> abstract_db \<Rightarrow> user_part" where
  "db_part e a = (map_of (abs_users a) e, abs_accounts a e)"

definition put_db :: "string \<Rightarrow> user_part \<Rightarrow> abstract_db \<Rightarrow> abstract_db" where
  "put_db e p a = a\<lparr>abs_users := set_entry e (fst p) (abs_users a), abs_accounts := (abs_accounts a)(e := snd p)\<rparr>"

definition user_store :: "user_part IDataStore" where
  "user_store = \<lparr>
     getAllUsers = (\<lambda>p. (Ret [], p)),
     createUser = (\<lambda>u p. (Ret True, (Some (User_password u), []))),
     delete_user_op = (\<lambda>u p. (Ret True, (None, []))),
     get_accounts_for_user = (\<lambda>e p. (Ret (snd p), p)),
     upsert_accounts_for_user = (\<lambda>e as p. (Ret True, (fst p, fold (\<lambda>x. map_assign (account_name x) x) as (snd p)))),
     update_last_sync_for_user = (\<lambda>e t p. (Ret True, p))\<rparr>"

definition newest_user_store :: "bool \<Rightarrow> user_part IDataStore" where
  "newest_user_store refs = \<lparr>
     getAllUsers = (\<lambda>p. (Ret [], p)),
     createUser = (\<lambda>u p. if fst p = None then (Ret True, (Some (User_password u), snd p)) else (Throw ''Error in ::createUser'', p)),
     delete_user_op = (\<lambda>u p. (Ret True, (None, if refs \<and> fst p \<noteq> None then [] else snd p))),
     get_accounts_for_user = (\<lambda>e p. (Ret (snd p), p)),
     upsert_accounts_for_user = (\<lambda>e as p.
       if as = [] then (Ret True, p)
       else if refs \<and> fst p = None then (Throw ''Error in ::upsert_accounts_for_user'', p)
       else
         (case upsert_newest as [] (snd p) of
            None \<Rightarrow> (Throw ''Error in ::upsert_accounts_for_user'', p)
          | Some m \<Rightarrow> (Ret True, (fst p, m)))),
     update_last_sync_for_user = (\<lambda>e t p. (Ret (bigint (show_int t)), p))\<rparr>"

definition db_ok :: "abstract_db \<Rightarrow> bool" where
  "db_ok a \<longleftrightarrow> smap_inv (abs_users a)"

lemma put_db_part: "db_ok a \<Longrightarrow> put_db e (fst (db_part e a), m) a = a\<lparr>abs_accounts := (abs_accounts a)(e := m)\<rparr>"
  by (simp add: put_db_def db_part_def db_ok_def set_entry_same)

lemma snd_db_part: "snd (db_part e a) = abs_accounts a e"
  by (simp add: db_part_def)

lemma put_db_laws:
  "db_ok a \<Longrightarrow> db_ok (put_db e p a)"
  "e \<noteq> f \<Longrightarrow> db_part e (put_db f p a) = db_part e a"
  "db_ok a \<Longrightarrow> put_db e (db_part e a) a = a"
  "db_ok a \<Longrightarrow> e \<noteq> f \<Longrightarrow> put_db e p (put_db f q a) = put_db f q (put_db e p a)"
  by (simp_all add: db_ok_def put_db_def db_part_def smap_inv_set_entry map_of_set_entry set_entry_same set_entry_commute fun_upd_twist)

interpretation apart: partitioned_store abstract_store user_store db_part put_db db_ok
  by unfold_locales
    (simp_all add: put_db_laws lifted_def abstract_store_def user_store_def put_db_part snd_db_part,
     simp_all add: put_db_def db_part_def set_entry_def db_ok_def)

interpretation apart_newest: partitioned_store "newest_store refs" "newest_user_store refs" db_part put_db db_ok
  for refs
  by unfold_locales
    (simp_all add: put_db_laws lifted_def newest_store_def newest_user_store_def put_db_part snd_db_part split: option.splits,
     auto simp: put_db_def db_part_def set_entry_def db_ok_def entry_as_it_is split: option.splits)

section \<open>Schedules on two stores\<close>

definition pc_fits :: "string set \<Rightarrow> (account list \<Rightarrow> bool) \<Rightarrow> 'd env \<Rightarrow> handler_pc \<Rightarrow> bool" where
  "pc_fits known fits E pc \<longleftrightarrow> pred_option (\<lambda>e. e \<in> known) (owner pc) \<and>
     (case pc of
        Fin_verify e p r \<Rightarrow> (case final_accounts E e r of Fin_upsert e' as \<Rightarrow> fits as | _ \<Rightarrow> True)
      | Fin_upsert e as \<Rightarrow> list_all (\<lambda>x. account_uuid x = e) as \<and> fits as
      | _ \<Rightarrow> True)"

lemma final_accounts_fits:
  assumes "pc_fits known fits E (Fin_verify e p r)"
  shows "pc_fits known fits E (final_accounts E e r)"
proof -
  have "list_all (\<lambda>x. account_uuid x = e) as" if "read_accounts (json_lib E) d e es = Some as" for d es as
    using read_accounts_owner [OF that] by (auto simp: list_all_iff)
  with assms show ?thesis by (auto simp: pc_fits_def final_accounts_def split: option.splits)
qed

lemma after_verify_passwords:
  "passwords (user_infos st) = passwords (user_infos sa) \<Longrightarrow> after_verify E st e p next = after_verify E sa e p next"
  by (simp add: after_verify_def passwords_verify [of "user_infos st" "user_infos sa"])

lemma verify_steps:
  "handler_step V E now (Del_verify e pw) st = (after_verify E st e pw (Del_store e), st)"
  "handler_step V E now (Ini_verify e pw r) st = (after_verify E st e pw (Ini_get e r), st)"
  "handler_step V E now (Fin_verify e pw r) st = (after_verify E st e pw (final_accounts E e r), st)"
  by (simp_all add: handler_step_def delete_step_def initial_step_def final_step_def after_verify_def split: outcome.splits)

lemma after_verify_fits: "e \<in> known \<Longrightarrow> pc_fits known fits E next \<Longrightarrow> pc_fits known fits E (after_verify E st e p next)"
  by (auto simp: after_verify_def pc_fits_def split: outcome.splits)

definition step_agrees :: "('s sync_state \<Rightarrow> 'a sync_state \<Rightarrow> bool) \<Rightarrow> (handler_pc \<Rightarrow> bool) \<Rightarrow> handler_pc \<times> 's sync_state \<Rightarrow> handler_pc \<times> 'a sync_state \<Rightarrow> bool" where
  "step_agrees rel fit x y \<longleftrightarrow> fst x = fst y \<and> rel (snd x) (snd y) \<and> fit (fst x)"

lemma step_agreesI: "rel s t \<Longrightarrow> fit pc \<Longrightarrow> step_agrees rel fit (pc, s) (pc, t)"
  by (simp add: step_agrees_def)

text \<open>What is made of the result of a call of the store.\<close>

lemma call_agrees:
  assumes "agree rel x y" "\<And>b. fit (k b)" "\<And>r. fit (Replied r)"
  shows "step_agrees rel fit
    (case x of (Ret b, s) \<Rightarrow> (k b, s) | (Throw e, s) \<Rightarrow> (Replied (Throw e), s) | (Blocked, s) \<Rightarrow> (Replied Blocked, s)
      | (Undefined, s) \<Rightarrow> (Replied Undefined, s))
    (case y of (Ret b, s) \<Rightarrow> (k b, s) | (Throw e, s) \<Rightarrow> (Replied (Throw e), s) | (Blocked, s) \<Rightarrow> (Replied Blocked, s)
      | (Undefined, s) \<Rightarrow> (Replied Undefined, s))"
  using assms by (elim agreeE) (auto simp: step_agrees_def split: outcome.splits)

lemma pc_fits_replied [simp]: "pc_fits known fits E (Replied r)"
  by (simp add: pc_fits_def)

context store_refinement
begin

lemma handler_step_agrees:
  assumes "related sim st sa" "pc_fits known fits E pc"
  shows "step_agrees (related sim) (pc_fits known fits E) (handler_step V E now pc st) (handler_step W E now pc sa)"
proof -
  note p = relatedD(2) [OF assms(1)] and r = relatedD(1) [OF assms(1)]
  show ?thesis
  proof (cases pc)
    case (Reg_check e pw h)
    then show ?thesis
      using assms passwords_count [OF p, of e]
      by (auto simp: handler_step_def register_step_def pc_fits_def intro!: step_agreesI)
  next
    case (Reg_assign e pw h)
    then show ?thesis
      using assms by (auto simp: handler_step_def register_step_def pc_fits_def intro!: step_agreesI related_assign)
  next
    case (Reg_create e pw h)
    let ?u = "\<lparr>User_uuid = e, User_password = h, User_last_sync = 1\<rparr>"
    have "agree sim (createUser V ?u (data st)) (createUser W ?u (data sa))"
      by (rule create [OF r]) (use assms(2) Reg_create in \<open>simp add: pc_fits_def\<close>)
    from agree_call [where f = "createUser V ?u" and g = "createUser W ?u", OF assms(1) this] assms(2) show ?thesis
      unfolding Reg_create handler_step_def register_step_def handler_pc.case
      by (intro call_agrees) (simp_all add: pc_fits_def Reg_create)
  next
    case (Reg_rollback e)
    then show ?thesis
      using assms by (auto simp: handler_step_def register_step_def intro!: step_agreesI related_erase)
  next
    case (Del_verify e pw)
    have "pc_fits known fits E (after_verify E sa e pw (Del_store e))"
      by (rule after_verify_fits) (use assms(2) Del_verify in \<open>simp_all add: pc_fits_def\<close>)
    then show ?thesis using assms(1) unfolding Del_verify by (simp add: step_agrees_def verify_steps after_verify_passwords [OF p])
  next
    case (Del_store e)
    show ?thesis
    proof (cases "map_of (user_infos st) e")
      case None
      then have "map_of (user_infos sa) e = None" using fun_cong [OF p, of e] by (simp add: passwords_def)
      with None assms(1) show ?thesis unfolding Del_store by (auto simp: handler_step_def delete_step_def intro!: step_agreesI)
    next
      case (Some i)
      then obtain j where j: "map_of (user_infos sa) e = Some j"
        using fun_cong [OF p, of e] by (cases "map_of (user_infos sa) e") (auto simp: passwords_def)
      have u: "User_uuid (user i) = e" "User_uuid (user j) = e" using Some j relatedD(3,4) [OF assms(1)] by (auto simp: users_ok_def)
      have "e \<in> known" using assms(2) Del_store by (simp add: pc_fits_def)
      with u have "agree sim (delete_user_op V (user i) (data st)) (delete_user_op W (user j) (data sa))"
        using delete [OF r] by simp
      from agree_call [where f = "delete_user_op V (user i)" and g = "delete_user_op W (user j)", OF assms(1) this] assms(2)
      show ?thesis
        unfolding Del_store handler_step_def delete_step_def handler_pc.case Some j option.case
        by (intro call_agrees) (simp_all add: pc_fits_def Del_store)
    qed
  next
    case (Del_erase e)
    have "map_of (user_infos st) e = None \<longleftrightarrow> map_of (user_infos sa) e = None"
      using fun_cong [OF p, of e] unfolding passwords_def by (metis option.map_disc_iff)
    then show ?thesis
      using assms(1) unfolding Del_erase
      by (auto simp: handler_step_def delete_step_def intro!: step_agreesI related_erase split: option.splits)
  next
    case (Ini_verify e pw q)
    have "pc_fits known fits E (after_verify E sa e pw (Ini_get e q))"
      by (rule after_verify_fits) (use assms(2) Ini_verify in \<open>simp_all add: pc_fits_def\<close>)
    then show ?thesis using assms(1) unfolding Ini_verify by (simp add: step_agrees_def verify_steps after_verify_passwords [OF p])
  next
    case (Ini_get e q)
    have "agree (related sim) (sync_accounts V E now d e st) (sync_accounts W E now d e sa)" for d
      by (rule sync_accounts_agrees [OF assms(1)]) (use assms(2) Ini_get in \<open>simp add: pc_fits_def\<close>)
    then show ?thesis
      using assms(1) unfolding Ini_get
      by (auto simp: handler_step_def initial_step_def step_agrees_def agree_def split: option.splits)
  next
    case (Fin_verify e pw q)
    have "pc_fits known fits E (after_verify E sa e pw (final_accounts E e q))"
      by (rule after_verify_fits [OF _ final_accounts_fits]) (use assms(2) Fin_verify in \<open>simp_all add: pc_fits_def\<close>)
    then show ?thesis using assms(1) unfolding Fin_verify by (simp add: step_agrees_def verify_steps after_verify_passwords [OF p])
  next
    case (Fin_upsert e as)
    then have "e \<in> known" "list_all (\<lambda>x. account_uuid x = e) as" "fits as" using assms(2) by (simp_all add: pc_fits_def)
    from agree_call [where f = "upsert_accounts_for_user V e as" and g = "upsert_accounts_for_user W e as", OF assms(1) upsert [OF r this]] assms(2) show ?thesis
      unfolding Fin_upsert handler_step_def final_step_def handler_pc.case
      by (intro call_agrees) (simp_all add: pc_fits_def Fin_upsert)
  next
    case (Fin_update e)
    then have "e \<in> known" using assms(2) by (simp add: pc_fits_def)
    from agree_call [where f = "update_last_sync_for_user V e now" and g = "update_last_sync_for_user W e now", OF assms(1) update [OF r this]] assms(2) show ?thesis
      unfolding Fin_update handler_step_def final_step_def handler_pc.case
      by (intro call_agrees) (simp_all add: pc_fits_def Fin_update)
  next
    case (Replied q)
    then show ?thesis using assms by (simp add: handler_step_def register_step_def step_agrees_def)
  qed
qed

lemma schedule_agrees:
  "related sim st sa \<Longrightarrow> list_all (pc_fits known fits E) pcs \<Longrightarrow>
    fst (schedule V E now is (pcs, st)) = fst (schedule W E now is (pcs, sa)) \<and>
    related sim (snd (schedule V E now is (pcs, st))) (snd (schedule W E now is (pcs, sa)))"
proof (induction "is" arbitrary: pcs st sa)
  case (Cons i "is")
  show ?case
  proof (cases "i < length pcs")
    case True
    then have f: "pc_fits known fits E (pcs ! i)" using Cons.prems(2) by (simp add: list_all_length)
    obtain pc s t where h: "handler_step V E now (pcs ! i) st = (pc, s)" "handler_step W E now (pcs ! i) sa = (pc, t)"
      "related sim s t" "pc_fits known fits E pc"
      using handler_step_agrees [OF Cons.prems(1) f, of now]
      by (cases "handler_step V E now (pcs ! i) st"; cases "handler_step W E now (pcs ! i) sa") (auto simp: step_agrees_def)
    have "list_all (pc_fits known fits E) (pcs[i := pc])"
      using Cons.prems(2) h(4) True by (auto simp: list_all_length nth_list_update)
    from Cons.IH [OF h(3) this] True h(1,2) show ?thesis by (simp add: schedule_take take_step_def)
  next
    case False
    with Cons show ?thesis by (simp add: schedule_take take_step_def)
  qed
qed simp

end

end
