(* ===== verification/Serialised.thy ===== *)
theory Serialised
  imports Serial
begin

text \<open>
  The handlers of a running server, at work at the same time for users of their own: on Redis and on
  Postgres they answer, and leave the database, as if one had finished before the next began.
  With \<open>Races\<close> this draws the line: it is sharing an address that does the harm.
\<close>

text \<open>
  C4: handlers of different users serialise on Redis. Whatever number of registrations, deletions and
  both halves of synchronisations are under way, each for an address of its own, and in whatever order their
  accesses to the shared map and the store are made, every one of them replies as it does on the abstract
  store when the handlers take their steps one after the other, and the database holds what that
  leaves. The Redis server works, and no address continues another with \<open>.account\<close>.
\<close>

theorem redis_handlers_serialise:
  assumes "serves R db pend good" "ready pend good c (data st)" "connections (pool (data st)) = c # cs"
    and "separate_set known" "db_holds known (db (net (data st))) (data sa)"
    and "passwords (user_infos st) = passwords (user_infos sa)" "users_ok (user_infos st)" "users_ok (user_infos sa)"
    and "own_users pcs" "list_all (pc_fits known (list_all account_ok) E) pcs"
  shows "fst (schedule (RedisStore R t (Suc rounds)) E now is (pcs, st)) = fst (schedule abstract_store E now (sort is) (pcs, sa)) \<and>
    db_holds known (db (net (data (snd (schedule (RedisStore R t (Suc rounds)) E now is (pcs, st))))))
      (data (snd (schedule abstract_store E now (sort is) (pcs, sa))))"
proof -
  have "apart.fine (pcs, sa)" using assms(5,8,9) by (simp add: apart.fine_def db_ok_def db_holds_def users_held_def)
  then have "schedule abstract_store E now is (pcs, sa) = schedule abstract_store E now (sort is) (pcs, sa)"
    by (rule apart.schedule_sort)
  with redis.schedule_agrees [OF related_redis [OF assms(1-8)] assms(10), of t rounds now "is"] show ?thesis
    by (simp add: related_def redis_sim_def)
qed

text \<open>
  Handlers of different users serialise on Postgres as well, replies of refused statements
  included, in the same sense and with \<open>newest_store\<close> as the abstract store.
\<close>

theorem postgres_handlers_serialise:
  assumes "pg_serves P refs db good" "bigint stale" "good c (net (data st))" "connections (pool (data st)) = c # cs"
    and "pg_holds (db (net (data st))) (data sa)"
    and "passwords (user_infos st) = passwords (user_infos sa)" "users_ok (user_infos st)" "users_ok (user_infos sa)"
    and "own_users pcs" "list_all (pc_fits pg_known pg_fits E) pcs"
  shows "fst (schedule (data_store_connection P stale) E now is (pcs, st)) =
      fst (schedule (newest_store refs) E now (sort is) (pcs, sa)) \<and>
    pg_holds (db (net (data (snd (schedule (data_store_connection P stale) E now is (pcs, st))))))
      (data (snd (schedule (newest_store refs) E now (sort is) (pcs, sa))))"
proof -
  have "apart_newest.fine (pcs, sa)" using assms(5,8,9) by (simp add: apart_newest.fine_def db_ok_def pg_holds_def)
  then have "schedule (newest_store refs) E now is (pcs, sa) = schedule (newest_store refs) E now (sort is) (pcs, sa)"
    by (rule apart_newest.schedule_sort)
  moreover have "related (pg_sim P refs db good stale) st sa"
    using assms(1-8) by (auto simp: related_def pg_sim_def pg_ready_def)
  ultimately show ?thesis
    using postgres.schedule_agrees [of P refs db good stale st sa E pcs now "is"] assms(10)
    by (simp add: related_def pg_sim_def)
qed

text \<open>Ann and Bob register at the same time, step by step.\<close>

definition two_registrations :: "handler_pc list" where
  "two_registrations = [Reg_check ''ann@example.com'' ''secret'' hashed_secret, Reg_check ''bob@example.com'' ''guess'' hashed_other]"

lemma two_registrations_own: "own_users two_registrations"
  by (auto simp: own_users_def two_registrations_def less_Suc_eq nth_Cons')

definition all_answered :: "handler_pc list \<Rightarrow> bool" where
  "all_answered pcs \<longleftrightarrow> list_all (\<lambda>pc. case pc of Replied (Ret x) \<Rightarrow> True | _ \<Rightarrow> False) pcs"

lemmas schedule_eval = schedule_take take_step_def handler_step_defs call_store_def map_count_def fresh_server_def empty_abstract_def
  two_registrations_def all_answered_def

theorem redis_handlers_serialise_witness:
  "fst (schedule (RedisStore mem_redis 3 1) history_env 5 [0, 1, 0, 1, 1, 0] (two_registrations, fresh_server (mem_redis_state (\<lambda>k. None)))) =
     fst (schedule abstract_store history_env 5 [0, 0, 0, 1, 1, 1] (two_registrations, fresh_server empty_abstract)) \<and>
   all_answered (fst (schedule (RedisStore mem_redis 3 1) history_env 5 [0, 1, 0, 1, 1, 0]
     (two_registrations, fresh_server (mem_redis_state (\<lambda>k. None)))))"
proof -
  let ?st = "fresh_server (mem_redis_state (\<lambda>k. None))" and ?sa = "fresh_server empty_abstract"
  have r: "ready (\<lambda>c. mem_sent) (\<lambda>c w. hashes_distinct (mem_data w)) () (data ?st)" "connections (pool (data ?st)) = () # []"
    "db_holds two_users (mem_data (net (data ?st))) (data ?sa)"
    using mem_redis_ready [where d = "\<lambda>k. None"] empty_db(1) db_holds_empty by (simp_all add: fresh_server_def)
  have u: "passwords (user_infos ?st) = passwords (user_infos ?sa)" "users_ok (user_infos ?st)" "users_ok (user_infos ?sa)"
    by (simp_all add: fresh_server_def)
  have f: "list_all (pc_fits two_users (list_all account_ok) history_env) two_registrations"
    by (simp add: two_registrations_def pc_fits_def two_users_def)
  have a: "all_answered (fst (schedule abstract_store history_env 5 [0, 0, 0, 1, 1, 1] (two_registrations, ?sa)))"
    by (simp add: schedule_eval abstract_store_def map_of_assign)
  show ?thesis
    using redis_handlers_serialise [OF mem_redis_serves r(1,2) two_users_separate r(3) u two_registrations_own f, of 3 0 5 "[0, 1, 0, 1, 1, 0]"] a
    by simp
qed

theorem postgres_handlers_serialise_witness:
  "fst (schedule (data_store_connection (mem_pg True) ''1'') history_env 5 [1, 0, 0, 1, 1, 0] (two_registrations, fresh_server mem_pg_state)) =
     fst (schedule (newest_store True) history_env 5 [0, 0, 0, 1, 1, 1] (two_registrations, fresh_server empty_abstract)) \<and>
   all_answered (fst (schedule (data_store_connection (mem_pg True) ''1'') history_env 5 [1, 0, 0, 1, 1, 0]
     (two_registrations, fresh_server mem_pg_state)))"
proof -
  let ?st = "fresh_server mem_pg_state" and ?sa = "fresh_server empty_abstract"
  have b: "bigint ''1''" by code_simp
  have g: "tables_ok (net (data ?st))" "connections (pool (data ?st)) = () # []" "pg_holds (net (data ?st)) (data ?sa)"
    using mem_pg_state_holds by (simp_all add: fresh_server_def mem_pg_state_def tables_ok_def)
  have u: "passwords (user_infos ?st) = passwords (user_infos ?sa)" "users_ok (user_infos ?st)" "users_ok (user_infos ?sa)"
    by (simp_all add: fresh_server_def)
  have f: "list_all (pc_fits pg_known pg_fits history_env) two_registrations"
    by (simp add: two_registrations_def pc_fits_def pg_known_def plain_def SQ_def)
  have a: "all_answered (fst (schedule (newest_store True) history_env 5 [0, 0, 0, 1, 1, 1] (two_registrations, ?sa)))"
    by (simp add: schedule_eval newest_store_def map_of_assign)
  show ?thesis
    using postgres_handlers_serialise [OF mem_pg_serves b g u two_registrations_own f, of True 5 "[1, 0, 0, 1, 1, 0]"] a by simp
qed

end
