(* ===== verification/Startup.thy ===== *)
theory Startup
  imports ConfigFile ConfigHttp "HOL-Library.Sublist"
begin

text \<open>
  Around the server: \<open>main\<close> and its signals, the listening socket and its TLS context, the reply
  to a client that is turned away; and \<open>e_strtok\<close>, a tokeniser that is not called. The system and
  OpenSSL are asked through calls, whose answers are a parameter.
\<close>

section \<open>Calls of the system\<close>

text \<open>
  A pointer is a number, 0 for null. The answer to a call may depend on the calls made before; a
  computation extends the list of calls made.
\<close>

datatype sockopt = Reuse_address | Receive_timeout int | Send_timeout int

datatype os_call =
    SSL_CTX_new
  | SSL_CTX_use_certificate_file string
  | SSL_CTX_use_PrivateKey_file string
  | SSL_CTX_check_private_key
  | Os_socket
  | Os_setsockopt int sockopt
  | Os_bind int "16 word" "32 word"
  | Os_listen int int
  | SSL_new
  | SSL_set_fd int
  | SSL_accept
  | SSL_write string
  | SSL_free
  | Os_close int

type_synonym answers = "os_call list \<Rightarrow> os_call \<Rightarrow> int"

datatype 'a startup = Aborted | Started 'a

text \<open>A call, and a call whose failure ends the process.\<close>

definition call :: "answers \<Rightarrow> os_call \<Rightarrow> (int \<Rightarrow> os_call list \<Rightarrow> 'r) \<Rightarrow> os_call list \<Rightarrow> 'r" where
  "call A c k h = k (A h c) (h @ [c])"

definition checked ::
  "answers \<Rightarrow> os_call \<Rightarrow> (int \<Rightarrow> bool) \<Rightarrow> (os_call list \<Rightarrow> 'a startup \<times> os_call list) \<Rightarrow> os_call list \<Rightarrow> 'a startup \<times> os_call list" where
  "checked A c failed k = call A c (\<lambda>r h. if failed r then (Aborted, h) else k h)"

section \<open>The listening socket\<close>

definition INADDR_ANY :: "32 word" where
  "INADDR_ANY = 0"

definition rw_to :: int where
  "rw_to = 15"

text \<open>\<open>htons\<close> takes 16 bits of the port. The results of \<open>socket\<close> and \<open>setsockopt\<close> are not looked at.\<close>

definition startListener :: "answers \<Rightarrow> config \<Rightarrow> os_call list \<Rightarrow> int startup \<times> os_call list" where
  "startListener A cfg =
     checked A SSL_CTX_new (\<lambda>r. r = 0)
     (checked A (SSL_CTX_use_certificate_file (server_cert cfg)) (\<lambda>r. r \<le> 0)
     (checked A (SSL_CTX_use_PrivateKey_file (server_key cfg)) (\<lambda>r. r \<le> 0)
     (checked A SSL_CTX_check_private_key (\<lambda>r. r = 0)
     (call A Os_socket (\<lambda>sd.
      call A (Os_setsockopt sd Reuse_address) (\<lambda>_.
      call A (Os_setsockopt sd (Receive_timeout rw_to)) (\<lambda>_.
      call A (Os_setsockopt sd (Send_timeout rw_to)) (\<lambda>_.
      checked A (Os_bind sd (word_of_int (bind_port cfg)) INADDR_ANY) (\<lambda>r. r \<noteq> 0)
     (checked A (Os_listen sd (server_tcp_back_log cfg)) (\<lambda>r. r \<noteq> 0)
     (\<lambda>h. (Started sd, h)))))))))))"

text \<open>The calls of a start that succeeds, and which answers make a start fail.\<close>

definition listener_calls :: "config \<Rightarrow> int \<Rightarrow> os_call list" where
  "listener_calls cfg sd =
     [SSL_CTX_new, SSL_CTX_use_certificate_file (server_cert cfg), SSL_CTX_use_PrivateKey_file (server_key cfg),
      SSL_CTX_check_private_key, Os_socket, Os_setsockopt sd Reuse_address, Os_setsockopt sd (Receive_timeout 15),
      Os_setsockopt sd (Send_timeout 15), Os_bind sd (word_of_int (bind_port cfg)) 0, Os_listen sd (server_tcp_back_log cfg)]"

definition refused :: "os_call \<Rightarrow> int \<Rightarrow> bool" where
  "refused c r =
     (case c of
        SSL_CTX_new \<Rightarrow> r = 0
      | SSL_CTX_use_certificate_file f \<Rightarrow> r \<le> 0
      | SSL_CTX_use_PrivateKey_file f \<Rightarrow> r \<le> 0
      | SSL_CTX_check_private_key \<Rightarrow> r = 0
      | Os_bind sd port addr \<Rightarrow> r \<noteq> 0
      | Os_listen sd n \<Rightarrow> r \<noteq> 0
      | _ \<Rightarrow> False)"

text \<open>Whether the call at a position of a history was refused.\<close>

definition refused_at :: "answers \<Rightarrow> os_call list \<Rightarrow> nat \<Rightarrow> bool" where
  "refused_at A h i = refused (h ! i) (A (take i h) (h ! i))"

text \<open>
  C37: the server listens only after every step it checks has succeeded: certificate, key, their
  match, the binding and the listening; the first one that fails ends the process, and nothing is
  called after it. It is bound to the configured port modulo 65536, on every address of the machine:
  the configured address has no influence.
\<close>

theorem start_listener_checked:
  "(case startListener A cfg [] of
      (Started sd, h) \<Rightarrow> h = listener_calls cfg sd \<and> (\<forall>i. i < length h \<longrightarrow> \<not> refused_at A h i)
    | (Aborted, h) \<Rightarrow> h \<noteq> [] \<and> (\<exists>sd. prefix h (listener_calls cfg sd)) \<and> refused_at A h (length h - 1) \<and>
        (\<forall>i. i < length h - 1 \<longrightarrow> \<not> refused_at A h i)) \<and>
   startListener A (cfg\<lparr>bind_address := a\<rparr>) [] = startListener A cfg []"
  by (simp add: startListener_def checked_def call_def listener_calls_def refused_at_def refused_def All_less_Suc
      rw_to_def INADDR_ANY_def)

text \<open>Everything is granted but the port, which is taken.\<close>

definition port_taken :: answers where
  "port_taken h c = (case c of Os_bind sd port addr \<Rightarrow> - 1 | _ \<Rightarrow> 7)"

theorem start_listener_checked_witness:
  "\<exists>h. startListener port_taken default_config [] = (Aborted, h) \<and> last h = Os_bind 7 9999 0 \<and>
     refused_at port_taken h (length h - 1)"
proof -
  have h: "startListener port_taken default_config [] = (Aborted, take 9 (listener_calls default_config 7))"
    by (simp add: startListener_def checked_def call_def listener_calls_def port_taken_def rw_to_def INADDR_ANY_def)
  have "last (take 9 (listener_calls default_config 7)) = Os_bind 7 9999 0"
    by (simp add: listener_calls_def default_config_def)
  with start_listener_checked [where A = port_taken and cfg = default_config] h show ?thesis by simp
qed

section \<open>Turning a client away\<close>

text \<open>
  The reply is not freed afterwards. The handshake and the write are done by the select loop, with
  the client's socket in blocking mode.
\<close>

definition handleServerBusy :: "answers \<Rightarrow> int \<Rightarrow> os_call list \<Rightarrow> os_call list" where
  "handleServerBusy A client =
     call A SSL_new (\<lambda>_.
     call A (SSL_set_fd client) (\<lambda>_.
     call A SSL_accept (\<lambda>r h.
       (let h = (if r \<le> 0 then h else h @ [SSL_write (reply_text (build_reply_default HTTP_503 close_con))])
        in h @ [SSL_free, Os_close client]))))"

text \<open>The client is closed in any case, and answered with a complete 503 reply when the handshake succeeds.\<close>

lemma busy_client_closed:
  "handleServerBusy A client [] =
     [SSL_new, SSL_set_fd client, SSL_accept] @
     (if A [SSL_new, SSL_set_fd client] SSL_accept \<le> 0 then []
      else [SSL_write (reply_text (build_reply HTTP_503 close_con None))]) @
     [SSL_free, Os_close client]"
  by (simp add: handleServerBusy_def call_def build_reply_default_def)

section \<open>Signals\<close>

datatype signum = SIGINT | SIGHUP | SIGKILL | SIGTERM | SIGTSTP | SIGPIPE | Other_signal int

datatype disposition = SIG_IGN | Handler

text \<open>What \<open>main\<close> installs, and the argument with which the handler calls \<open>shutdown\<close> before it exits.\<close>

definition main_signals :: "(signum \<times> disposition) list" where
  "main_signals = [(SIGPIPE, SIG_IGN), (SIGINT, Handler), (SIGHUP, Handler), (SIGKILL, Handler), (SIGTERM, Handler),
     (SIGTSTP, Handler)]"

definition signalHandler :: "signum \<Rightarrow> bool option" where
  "signalHandler s =
     (case s of
        SIGINT \<Rightarrow> Some False
      | SIGHUP \<Rightarrow> Some False
      | SIGTERM \<Rightarrow> Some False
      | SIGTSTP \<Rightarrow> Some False
      | SIGKILL \<Rightarrow> Some True
      | _ \<Rightarrow> None)"

text \<open>The system does not let a process catch \<open>SIGKILL\<close>: that call of \<open>signal\<close> fails.\<close>

definition shutdown_on :: "signum \<Rightarrow> bool option" where
  "shutdown_on s =
     (if s \<noteq> SIGKILL \<and> map_of main_signals s = Some Handler then signalHandler s else None)"

text \<open>The hard shutdown is never reached.\<close>

lemma signals_graceful: "shutdown_on s \<noteq> Some True" "shutdown_on SIGTERM = Some False" "shutdown_on SIGINT = Some False"
  by (cases s; simp add: shutdown_on_def signalHandler_def main_signals_def)+

section \<open>The tokeniser that is not called\<close>

text \<open>
  \<open>e_strtok\<close> keeps its position between calls: \<open>e_strtok_next\<close> is a call with a null pointer, at the
  position the call before left. It first puts back the delimiter that call overwrote. Reading or writing
  behind the buffer is undefined.
\<close>

definition e_strtok_from :: "char \<Rightarrow> string \<Rightarrow> nat \<Rightarrow> (unit, string \<times> nat \<times> nat option) outcome" where
  "e_strtok_from d t s =
     (let i = s + length (takeWhile (\<lambda>c. c \<noteq> d \<and> c \<noteq> NUL) (drop s t))
      in if length t \<le> i then Undefined
         else if i = s \<and> t ! i = NUL then Ret (t, i, None)
         else Ret (t[i := NUL], i, Some s))"

definition e_strtok_first :: "char \<Rightarrow> string \<Rightarrow> (unit, string \<times> nat \<times> nat option) outcome" where
  "e_strtok_first d txt = e_strtok_from d txt 0"

definition e_strtok_next :: "char \<Rightarrow> string \<Rightarrow> nat \<Rightarrow> (unit, string \<times> nat \<times> nat option) outcome" where
  "e_strtok_next d t i = (if length t \<le> i then Undefined else e_strtok_from d (t[i := d]) (i + 1))"

text \<open>
  A last token without a delimiter behind it is found, but the call after it overwrites the
  terminator and reads on behind the buffer.
\<close>

lemma e_strtok_overruns:
  assumes "is_cstring t" "d \<notin> set t" "t \<noteq> []"
  shows "e_strtok_first d (t @ [NUL]) = Ret (t @ [NUL], length t, Some 0)"
    "e_strtok_next d (t @ [NUL]) (length t) = Undefined"
proof -
  have "\<forall>c \<in> set t. c \<noteq> d \<and> c \<noteq> NUL" using assms(1,2) by (auto simp: is_cstring_def)
  then have "takeWhile (\<lambda>c. c \<noteq> d \<and> c \<noteq> NUL) (t @ [NUL]) = t" by simp
  then show "e_strtok_first d (t @ [NUL]) = Ret (t @ [NUL], length t, Some 0)"
    using assms(3) by (simp add: e_strtok_first_def e_strtok_from_def)
  show "e_strtok_next d (t @ [NUL]) (length t) = Undefined"
    by (simp add: e_strtok_next_def e_strtok_from_def)
qed

text \<open>With a delimiter at the end the tokeniser stops there, and the text is whole again.\<close>

lemma e_strtok_terminated:
  assumes "is_cstring t" "d \<notin> set t" "d \<noteq> NUL"
  shows "e_strtok_first d (t @ [d, NUL]) = Ret (t @ [NUL, NUL], length t, Some 0)"
    "e_strtok_next d (t @ [NUL, NUL]) (length t) = Ret (t @ [d, NUL], length t + 1, None)"
proof -
  have "\<forall>c \<in> set t. c \<noteq> d \<and> c \<noteq> NUL" using assms(1,2) by (auto simp: is_cstring_def)
  then have "takeWhile (\<lambda>c. c \<noteq> d \<and> c \<noteq> NUL) (t @ [d, NUL]) = t" by simp
  then show "e_strtok_first d (t @ [d, NUL]) = Ret (t @ [NUL, NUL], length t, Some 0)"
    using assms(3) by (simp add: e_strtok_first_def e_strtok_from_def list_update_append)
  show "e_strtok_next d (t @ [NUL, NUL]) (length t) = Ret (t @ [d, NUL], length t + 1, None)"
    by (simp add: e_strtok_next_def e_strtok_from_def list_update_append nth_append)
qed

end
