(* ===== verification/Boot.thy ===== *)
theory Boot
  imports Startup Server PostgresHistories
begin

text \<open>
  From the command line to a server that answers: \<open>main\<close> and the constructor of \<open>server\<close> put the components
  together, the file of the configuration, the listening socket, the store with its first
  connections, the threads. With a store that works, what is started is a server of which \<open>Histories\<close> speaks.
\<close>

section \<open>The program\<close>

datatype ('c, 'w, 'd, 'v) opened_store =
    Redis_opened "('c, 'w) store_state"
  | Postgres_opened "('d, 'v) store_state"

text \<open>
  What becomes of the process: it ends with a code, it is aborted, the store it uses is indeterminate, or
  it is in \<open>server::start\<close>, which does not return, with its listening socket, its store and its state.
\<close>

datatype ('c, 'w, 'd, 'v) process =
    Exited int
  | Process_aborted
  | Start_undefined
  | Serving int "('c, 'w, 'd, 'v) opened_store" server_state

text \<open>The constructor of \<open>server\<close>, which does not look at the result of \<open>initialize\<close>.\<close>

definition server_new ::
  "answers \<Rightarrow> ('c, 'w) redis \<Rightarrow> 'w \<Rightarrow> ('d, 'v) libpq \<Rightarrow> 'v \<Rightarrow> config \<Rightarrow> ('c, 'w, 'd, 'v) process" where
  "server_new A R w P v cfg =
     (case fst (startListener A cfg []) of
        Aborted \<Rightarrow> Process_aborted
      | Started sd \<Rightarrow>
          (case storeType cfg of
             None \<Rightarrow> Start_undefined
           | Some postgres_store \<Rightarrow>
               Serving sd (Postgres_opened (snd (pg_initialize (P\<lparr>pg_config := cfg\<rparr>) v))) (server_init cfg sd)
           | Some redis_store \<Rightarrow>
               Serving sd (Redis_opened (snd (redis_initialize (R\<lparr>redis_config := cfg\<rparr>) w))) (server_init cfg sd)))"

text \<open>\<open>files\<close> are the files of the system; the signals installed are returned beside the process.\<close>

definition main ::
  "answers \<Rightarrow> (string \<Rightarrow> string option) \<Rightarrow> ('c, 'w) redis \<Rightarrow> 'w \<Rightarrow> ('d, 'v) libpq \<Rightarrow> 'v \<Rightarrow> string list \<Rightarrow>
   (signum \<times> disposition) list \<times> ('c, 'w, 'd, 'v) process" where
  "main A files R w P v argv =
     (if length argv < 2 then ([], Exited (- 1))
      else
        (main_signals,
         case Config (files (argv ! 1)) of
           Ret cfg \<Rightarrow> server_new A R w P v cfg
         | _ \<Rightarrow> Start_undefined))"

section \<open>What is started\<close>

text \<open>With a file of well-formed lines, the last line that names a server decides which store is opened.\<close>

lemma main_lines:
  assumes "list_all wf_line ls" "files f = Some (concat (map render_line ls))"
  shows "main A files R w P v [prog, f] = (main_signals, server_new A R w P v (fold apply_line ls default_config))"
  using process_lines_render [OF assms(1)] by (simp add: main_def Config_def assms(2))

text \<open>
  Without a file name the process says how it is used and ends. A file that cannot be opened, or one
  with no \<open>db_server\<close> and no \<open>redis_server\<close> line, gets past the listener and then asks an indeterminate
  value for the store to use, although the message says that defaults are used.
\<close>

lemma default_store: "storeType default_config = None"
  by (simp add: default_config_def)

lemma main_refuses:
  "length argv < 2 \<Longrightarrow> main A files R w P v argv = ([], Exited (- 1))"
  "files f = None \<Longrightarrow> fst (startListener A default_config []) = Started sd \<Longrightarrow>
     main A files R w P v [prog, f] = (main_signals, Start_undefined)"
  by (simp_all add: main_def Config_def server_new_def default_store)

lemma main_without_store:
  assumes "list_all wf_line ls" "files f = Some (concat (map render_line ls))" "List.map_filter selects ls = []"
    and "fst (startListener A (fold apply_line ls default_config) []) = Started sd"
  shows "main A files R w P v [prog, f] = (main_signals, Start_undefined)"
  using assms(3,4) by (simp add: main_lines [where files = files and ls = ls, OF assms(1,2)] server_new_def storeType_fold default_store)

section \<open>Connections at start-up\<close>

text \<open>
  A Redis server that takes connections, in the worlds \<open>up\<close>: connecting and sending the configured user and
  password succeed and give a connection that works.
\<close>

definition accepts ::
  "('c, 'w) redis \<Rightarrow> ('w \<Rightarrow> redis_db) \<Rightarrow> ('c \<Rightarrow> 'w \<Rightarrow> command list) \<Rightarrow> ('c \<Rightarrow> 'w \<Rightarrow> bool) \<Rightarrow> ('w \<Rightarrow> bool) \<Rightarrow> config \<Rightarrow> bool" where
  "accepts R db pend good up cfg \<longleftrightarrow>
     (\<forall>w. up w \<longrightarrow>
        (\<exists>c w' r w''. redisConnect R (redis_server cfg) (redis_port cfg) w = (Some c, w') \<and> \<not> redisErr R c w' \<and>
           redisCommand R c (AUTH (redis_username cfg) (redis_password cfg)) w' = (r, w'') \<and> \<not> areReplyErrors r \<and>
           db w'' = db w \<and> good c w'' \<and> pend c w'' = [] \<and> up w''))"

lemma createConnection_accepted:
  assumes "accepts R db pend good up (redis_config R)" "up (net st)"
  shows "\<exists>c w. createConnection R st = (Some c, st\<lparr>net := w\<rparr>) \<and> db w = db (net st) \<and> good c w \<and> pend c w = [] \<and> up w"
  using assms by (fastforce simp: createConnection_def accepts_def)

text \<open>All the connections the configuration asks for are opened, the last one is at the head of the pool.\<close>

lemma open_connections_accepted:
  assumes "accepts R db pend good up (redis_config R)"
  shows "up (net st) \<Longrightarrow> db (net (open_connections R n st)) = db (net st) \<and>
    length (connections (pool (open_connections R n st))) = n + length (connections (pool st)) \<and>
    (0 < n \<longrightarrow> (\<exists>c cs. connections (pool (open_connections R n st)) = c # cs \<and> ready pend good c (open_connections R n st)))"
proof (induction n arbitrary: st)
  case (Suc n)
  obtain c w where c: "createConnection R st = (Some c, st\<lparr>net := w\<rparr>)" "db w = db (net st)" "good c w" "pend c w = []" "up w"
    using createConnection_accepted [OF assms Suc.prems] by blast
  let ?st = "add_count 1 (set_idle (c # connections (pool st)) (st\<lparr>net := w\<rparr>))"
  have s: "connections (pool ?st) = c # connections (pool st)" "net ?st = w" by (simp_all add: add_count_def set_idle_def)
  then have "ready pend good c ?st" using c(3,4) by (simp add: ready_def)
  moreover have "open_connections R (Suc n) st = open_connections R n ?st" using c(1) by simp
  ultimately show ?case using Suc.IH [of ?st] s c(2,5) by (cases n) auto
qed simp

lemma redis_initialize_accepted:
  assumes "accepts R db pend good up (redis_config R)" "up w" "0 < redis_min_connections (redis_config R)"
  shows "\<exists>st c cs. redis_initialize R w = (True, st) \<and> db (net st) = db w \<and>
    int (length (connections (pool st))) = redis_min_connections (redis_config R) \<and>
    connections (pool st) = c # cs \<and> ready pend good c st"
  using open_connections_accepted [OF assms(1), of "\<lparr>pool = \<lparr>connections = [], currentConnections = 0\<rparr>, net = w\<rparr>"
      "nat (redis_min_connections (redis_config R))"] assms(2,3)
  by (fastforce simp: redis_initialize_def Let_def)

section \<open>From the command line to the answers\<close>

lemma RedisStore_config: "serves (R\<lparr>redis_config := cfg\<rparr>) db pend good = serves R db pend good"
  "accepts (R\<lparr>redis_config := cfg\<rparr>) db pend good up cfg' = accepts R db pend good up cfg'"
  by (simp_all add: serves_def accepts_def)

lemma fresh_related:
  assumes "serves R db pend good" "ready pend good c s" "connections (pool s) = c # cs" "separate_set known" "db_holds known (db (net s)) a"
  shows "related (redis_sim R db pend good known) (fresh_server s) (fresh_server a)"
  by (rule related_redis [OF assms(1), where c = c and cs = cs]) (simp_all add: fresh_server_def assms)

text \<open>
  C1: the program, started with a configuration file, serves as its store promises. When the last
  line of the file that names a server is a \<open>redis_server\<close> line, the listening socket is granted, at least one
  connection is configured and the Redis server takes connections and works, then \<open>main\<close> installs its
  signals and gets into \<open>server::start\<close> with as many Redis connections as the file asks for and the state
  \<open>server_init\<close> of the file's settings; and once its first handler has loaded the users, every history of
  requests and further restarts is answered reply by reply as by a server on the two maps of the
  abstract store that the database held at the start.
\<close>

theorem main_serves:
  assumes "list_all wf_line ls" "files f = Some (concat (map render_line ls))"
    and "List.map_filter selects ls = ts @ [redis_store]" "cfg = fold apply_line ls default_config"
    and "fst (startListener A cfg []) = Started sd" "0 < redis_min_connections cfg"
    and "serves R db pend good" "accepts R db pend good up cfg" "up w"
    and "separate_set known" "db_holds known (db w) a" "list_all (admissible_event known (list_all account_ok) E) evs"
  shows "\<exists>s. main A files R w P v [prog, f] = (main_signals, Serving sd (Redis_opened s) (server_init cfg sd)) \<and>
    int (length (connections (pool s))) = redis_min_connections cfg \<and>
    fst (service_run (RedisStore (R\<lparr>redis_config := cfg\<rparr>) t (Suc rounds)) E (Restart # evs) (fresh_server s)) =
      fst (service_run abstract_store E (Restart # evs) (fresh_server a))"
proof -
  let ?R = "R\<lparr>redis_config := cfg\<rparr>"
  have st: "storeType cfg = Some redis_store" using storeType_fold [of ls default_config] assms(3,4) by (cases ts) (simp_all del: map_filter_simps)
  have r: "serves ?R db pend good" "accepts ?R db pend good up (redis_config ?R)" "0 < redis_min_connections (redis_config ?R)"
    using assms(6-8) by (simp_all add: RedisStore_config)
  obtain s c cs where s: "redis_initialize ?R w = (True, s)" "db (net s) = db w"
    "int (length (connections (pool s))) = redis_min_connections (redis_config ?R)" "connections (pool s) = c # cs" "ready pend good c s"
    using redis_initialize_accepted [OF r(2) assms(9) r(3)] by blast
  have "main A files R w P v [prog, f] = (main_signals, Serving sd (Redis_opened s) (server_init cfg sd))"
    using st s(1) assms(5) by (simp add: main_lines [where files = files and ls = ls, OF assms(1,2)] server_new_def assms(4) [symmetric])
  moreover have "list_all (admissible_event known (list_all account_ok) E) (Restart # evs)"
    using assms(12) by (simp add: admissible_event_def)
  from redis.service_run_agrees [OF fresh_related [OF r(1) s(5,4) assms(10)] this] assms(11)
  have "fst (service_run (RedisStore ?R t (Suc rounds)) E (Restart # evs) (fresh_server s)) =
      fst (service_run abstract_store E (Restart # evs) (fresh_server a))"
    unfolding s(2) by blast
  ultimately show ?thesis using s(3) by auto
qed

text \<open>A file of two lines, started on an empty database, and Ann's history.\<close>

definition all_granted :: answers where
  "all_granted h c = (case c of Os_bind sd port addr \<Rightarrow> 0 | Os_listen sd n \<Rightarrow> 0 | _ \<Rightarrow> 7)"

lemma mem_redis_accepts:
  "accepts mem_redis mem_data (\<lambda>c. mem_sent) (\<lambda>c w. hashes_distinct (mem_data w)) (\<lambda>w. hashes_distinct (mem_data w) \<and> mem_sent w = []) cfg"
  by (simp add: accepts_def mem_redis_def areReplyErrors_def)

definition redis_file :: "config_line list" where
  "redis_file = [Other ''# sync server'', Assign ''redis_server'' ''localhost'']"

lemma empty_restart: "service_event abstract_store E Restart (fresh_server empty_abstract) = (Ret [], fresh_server empty_abstract)"
  by (simp add: service_event_def sync_handler_def fresh_server_def abstract_store_def empty_abstract_def on_ret_def call_store_def)

theorem main_serves_witness:
  "\<exists>s. main all_granted (\<lambda>f. Some (concat (map render_line redis_file))) mem_redis \<lparr>mem_data = (\<lambda>k. None), mem_sent = []\<rparr> (mem_pg True) (net mem_pg_state)
      [''registrationServer'', ''server.config''] =
      (main_signals, Serving 7 (Redis_opened s) (server_init (fold apply_line redis_file default_config) 7)) \<and>
    map (\<lambda>r. \<exists>x. r = Ret x) (fst (service_run (RedisStore (mem_redis\<lparr>redis_config := fold apply_line redis_file default_config\<rparr>) 3 1)
      history_env (Restart # ann_history) (fresh_server s))) = [True, True, True, True, True, True, True, False]"
proof -
  let ?cfg = "fold apply_line redis_file default_config"
  let ?w = "\<lparr>mem_data = (\<lambda>k. None), mem_sent = []\<rparr>"
  have l: "list_all wf_line redis_file" "List.map_filter selects redis_file = [] @ [redis_store]"
    by (simp_all add: redis_file_def is_cstring_def map_filter_simps)
  have g: "fst (startListener all_granted ?cfg []) = Started 7"
    by (simp add: startListener_def checked_def call_def all_granted_def)
  have c: "0 < redis_min_connections ?cfg" by (simp add: redis_file_def set_known_def default_config_def)
  have u: "hashes_distinct (mem_data ?w) \<and> mem_sent ?w = []" "db_holds two_users (mem_data ?w) empty_abstract"
    using empty_db(1) db_holds_empty by simp_all
  have a: "map (\<lambda>r. \<exists>x. r = Ret x) (fst (service_run abstract_store history_env (Restart # ann_history) (fresh_server empty_abstract))) =
      [True, True, True, True, True, True, True, False]"
    using ann_history_answers by (auto simp: empty_restart simp del: map_eq_Cons_conv split: prod.splits)
  note serves = main_serves [where files = "\<lambda>f. Some (concat (map render_line redis_file))" and f = "''server.config''"
      and prog = "''registrationServer''" and R = mem_redis and db = mem_data and pend = "\<lambda>c. mem_sent"
      and good = "\<lambda>c w. hashes_distinct (mem_data w)" and up = "\<lambda>w. hashes_distinct (mem_data w) \<and> mem_sent w = []" and w = ?w
      and P = "mem_pg True" and v = "net mem_pg_state" and A = all_granted and t = 3 and rounds = 0]
  from serves [OF l(1) refl l(2) refl g c mem_redis_serves mem_redis_accepts u(1) two_users_separate u(2) ann_history_admissible]
  show ?thesis using a by auto
qed

section \<open>The same on Postgres\<close>

text \<open>A Postgres server that takes connections: they are good, and the statements can be prepared on them.\<close>

definition pg_accepts :: "('c, 'w) libpq \<Rightarrow> ('w \<Rightarrow> pg_db) \<Rightarrow> ('c \<Rightarrow> 'w \<Rightarrow> bool) \<Rightarrow> ('w \<Rightarrow> bool) \<Rightarrow> config \<Rightarrow> bool" where
  "pg_accepts P db good up cfg \<longleftrightarrow>
     (\<forall>w. up w \<longrightarrow>
        (\<exists>c w' w''. PQconnectdb P (conn_info cfg) w = (c, w') \<and> PQstatus_ok P c w' \<and>
           createPreparedStatements P c w' = (True, w'') \<and> db w'' = db w \<and> good c w'' \<and> up w''))"

lemma pg_open_accepted:
  assumes "pg_accepts P db good up (pg_config P)"
  shows "up (net st) \<Longrightarrow> db (net (pg_open P n st)) = db (net st) \<and>
    currentConnections (pool (pg_open P n st)) = currentConnections (pool st) \<and>
    length (connections (pool (pg_open P n st))) = n + length (connections (pool st)) \<and>
    (0 < n \<longrightarrow> (\<exists>c. pg_ready good c (pg_open P n st)))"
proof (induction n arbitrary: st)
  case (Suc n)
  obtain c w w' where c: "PQconnectdb P (conn_info (pg_config P)) (net st) = (c, w)" "PQstatus_ok P c w"
    "createPreparedStatements P c w = (True, w')" "db w' = db (net st)" "good c w'" "up w'"
    using assms Suc.prems unfolding pg_accepts_def by blast
  have "pg_connect P (net st) = (Some c, w)" using c(1,2) by (simp add: pg_connect_def CONNECT_ATTEMPTS_def eval_nat_numeral)
  then have o: "pg_open P (Suc n) st = pg_open P n (release_connection c (st\<lparr>net := w'\<rparr>))" using c(3) by simp
  let ?st = "release_connection c (st\<lparr>net := w'\<rparr>)"
  have s: "connections (pool ?st) = c # connections (pool st)" "net ?st = w'" "currentConnections (pool ?st) = currentConnections (pool st)"
    by (simp_all add: release_connection_def set_idle_def)
  then have "pg_ready good c ?st" using c(5) by (simp add: pg_ready_def)
  then show ?case unfolding o using Suc.IH [of ?st] s c(4,6) by (cases n) auto
qed simp

lemma pg_initialize_accepted:
  assumes "pg_accepts P db good up (pg_config P)" "up w" "0 < db_min_connections (pg_config P)"
  shows "\<exists>st c. pg_initialize P w = (True, st) \<and> db (net st) = db w \<and>
    int (length (connections (pool st))) = db_min_connections (pg_config P) \<and>
    currentConnections (pool st) = db_min_connections (pg_config P) \<and> pg_ready good c st"
  using pg_open_accepted [OF assms(1), of "\<lparr>pool = \<lparr>connections = [], currentConnections = db_min_connections (pg_config P)\<rparr>, net = w\<rparr>"
      "nat (db_min_connections (pg_config P))"] assms(2,3)
  by (fastforce simp: pg_initialize_def Let_def)

lemma pg_config_update: "pg_serves (P\<lparr>pg_config := cfg\<rparr>) refs db good = pg_serves P refs db good"
  "createPreparedStatements (P\<lparr>pg_config := cfg\<rparr>) = createPreparedStatements P"
  "pg_accepts (P\<lparr>pg_config := cfg\<rparr>) db good up cfg' = pg_accepts P db good up cfg'"
proof -
  have "prepare_all (P\<lparr>pg_config := cfg\<rparr>) c ps w = prepare_all P c ps w" for c ps w
    by (induction P c ps w rule: prepare_all.induct) (simp_all split: prod.splits)
  then show e: "createPreparedStatements (P\<lparr>pg_config := cfg\<rparr>) = createPreparedStatements P"
    by (intro ext) (simp add: createPreparedStatements_def)
  show "pg_accepts (P\<lparr>pg_config := cfg\<rparr>) db good up cfg' = pg_accepts P db good up cfg'"
    by (simp add: pg_accepts_def e)
qed (simp add: pg_serves_def)

text \<open>
  With a \<open>db_server\<close> line as the last one the program serves from Postgres, under the same conditions, as the
  server on \<open>newest_store\<close>.
\<close>

theorem main_serves_postgres:
  assumes "list_all wf_line ls" "files f = Some (concat (map render_line ls))"
    and "List.map_filter selects ls = ts @ [postgres_store]" "cfg = fold apply_line ls default_config"
    and "fst (startListener A cfg []) = Started sd" "0 < db_min_connections cfg"
    and "pg_serves P refs db good" "bigint leftover" "pg_accepts P db good up cfg" "up v"
    and "pg_holds (db v) a" "list_all (admissible_event pg_known pg_fits E) evs"
  shows "\<exists>s. main A files R w P v [prog, f] = (main_signals, Serving sd (Postgres_opened s) (server_init cfg sd)) \<and>
    int (length (connections (pool s))) = db_min_connections cfg \<and>
    fst (service_run (data_store_connection (P\<lparr>pg_config := cfg\<rparr>) leftover) E (Restart # evs) (fresh_server s)) =
      fst (service_run (newest_store refs) E (Restart # evs) (fresh_server a))"
proof -
  let ?P = "P\<lparr>pg_config := cfg\<rparr>"
  have st: "storeType cfg = Some postgres_store"
    using storeType_fold [of ls default_config] assms(3,4) by (cases ts) (simp_all del: map_filter_simps)
  have r: "pg_serves ?P refs db good" "pg_accepts ?P db good up (pg_config ?P)" "0 < db_min_connections (pg_config ?P)"
    using assms(6,7,9) by (simp_all add: pg_config_update)
  obtain s c where s: "pg_initialize ?P v = (True, s)" "db (net s) = db v"
    "int (length (connections (pool s))) = db_min_connections (pg_config ?P)" "pg_ready good c s"
    using pg_initialize_accepted [OF r(2) assms(10) r(3)] by blast
  have "main A files R w P v [prog, f] = (main_signals, Serving sd (Postgres_opened s) (server_init cfg sd))"
    using st s(1) assms(5) by (simp add: main_lines [where files = files and ls = ls, OF assms(1,2)] server_new_def assms(4) [symmetric])
  moreover have a: "list_all (admissible_event pg_known pg_fits E) (Restart # evs)"
    using assms(12) by (simp add: admissible_event_def)
  have "related (pg_sim ?P refs db good leftover) (fresh_server s) (fresh_server a)"
    using r(1) assms(8,11) s(2,4) by (auto simp: related_def pg_sim_def fresh_server_def)
  from postgres.service_run_agrees [OF this a]
  have "fst (service_run (data_store_connection ?P leftover) E (Restart # evs) (fresh_server s)) =
      fst (service_run (newest_store refs) E (Restart # evs) (fresh_server a))"
    by blast
  ultimately show ?thesis using s(3) by auto
qed

lemma mem_pg_accepts: "pg_accepts (mem_pg refs) (\<lambda>w. w) (\<lambda>c. tables_ok) tables_ok cfg"
proof -
  have "createPreparedStatements (mem_pg refs) () w = (True, w)" if "PQexec (mem_pg refs) () ''select * from pg_prepared_statements'' w = (Pg_error, w)" for w
    using that by (simp add: createPreparedStatements_def prepared_statements_def mem_pg_def)
  moreover have "PQexec (mem_pg refs) () ''select * from pg_prepared_statements'' w = (Pg_error, w)" for w
    by (simp add: mem_pg_def statement_of_def GET_USERS_SQL_def read_upsert_def UPSERT_ACCOUNT_PREPARE_1_def)
  ultimately show ?thesis by (simp add: pg_accepts_def mem_pg_def)
qed

definition postgres_file :: "config_line list" where
  "postgres_file = [Assign ''redis_server'' ''redis'', Assign ''db_server'' ''localhost'']"

theorem main_serves_postgres_witness:
  "\<exists>s. main all_granted (\<lambda>f. Some (concat (map render_line postgres_file))) mem_redis \<lparr>mem_data = (\<lambda>k. None), mem_sent = []\<rparr>
      (mem_pg True) (net mem_pg_state) [''registrationServer'', ''server.config''] =
      (main_signals, Serving 7 (Postgres_opened s) (server_init (fold apply_line postgres_file default_config) 7)) \<and>
    length (connections (pool s)) = 10"
proof -
  let ?cfg = "fold apply_line postgres_file default_config"
  have l: "list_all wf_line postgres_file" "List.map_filter selects postgres_file = [redis_store] @ [postgres_store]"
    by (simp_all add: postgres_file_def is_cstring_def map_filter_simps)
  have g: "fst (startListener all_granted ?cfg []) = Started 7"
    by (simp add: startListener_def checked_def call_def all_granted_def)
  have m: "db_min_connections ?cfg = 10" by (simp add: postgres_file_def set_known_def default_config_def)
  then have c: "0 < db_min_connections ?cfg" by simp
  have b: "bigint ''1''" by code_simp
  have t: "tables_ok (net mem_pg_state)" by (simp add: tables_ok_def mem_pg_state_def)
  note serves = main_serves_postgres [where files = "\<lambda>f. Some (concat (map render_line postgres_file))" and f = "''server.config''"
      and prog = "''registrationServer''" and P = "mem_pg True" and db = "\<lambda>w. w" and good = "\<lambda>c. tables_ok" and up = tables_ok
      and v = "net mem_pg_state" and R = mem_redis and w = "\<lparr>mem_data = (\<lambda>k. None), mem_sent = []\<rparr>" and A = all_granted
      and evs = ann_history and E = history_env]
  from serves [OF l(1) refl l(2) refl g c mem_pg_serves b mem_pg_accepts t mem_pg_state_holds ann_history_fits]
  show ?thesis using m by auto
qed

end
